(* ===== verification/Go_Prelude.thy ===== *)
theory Go_Prelude
  imports Main "HOL-Library.Char_ord" "HOL-Library.List_Lexorder" "HOL-Library.Multiset"
    "HOL-Library.Word"
begin

text \<open>
  Shared base of the development: the fact collections the component theories feed,
  the conventions for Go values (byte strings, machine integers, errors as sums) and
  the generic lemmas on lists, options and maps that more than one component uses.
\<close>

section \<open>Fact collections\<close>

named_theorems go_simps \<open>unfolding rules for the models of Go's standard library\<close>
named_theorems inv_intros \<open>introduction rules: an operation keeps an invariant\<close>

section \<open>Conventions\<close>

text \<open>
  A Go \<^verbatim>\<open>string\<close> or \<^verbatim>\<open>[]byte\<close> is a list of bytes, so both are \<^typ>\<open>string\<close> here (a
  \<^typ>\<open>char\<close> is one byte). An \<^verbatim>\<open>int64\<close> counter is a \<open>64 word\<close>, whose addition wraps
  as Go's does. A call that returns \<^verbatim>\<open>error\<close> returns a value of a sum type, the error on
  the left; an \<^verbatim>\<open>error\<close> result on its own is an option, \<open>None\<close> for \<^verbatim>\<open>nil\<close>.
\<close>

type_synonym bytes = string
type_synonym int64 = "64 word"
type_synonym 'e err = "'e option"

definition byte_val :: "char \<Rightarrow> int" where
  "byte_val c = of_char c"

lemma byte_val_inject [simp]: "byte_val a = byte_val b \<longleftrightarrow> a = b"
  by (simp add: byte_val_def)

section \<open>Lists\<close>

lemma find_append:
  "find P (xs @ ys) = (case find P xs of None \<Rightarrow> find P ys | Some x \<Rightarrow> Some x)"
  by (induction xs) auto

lemma find_SomeD: "find P xs = Some x \<Longrightarrow> P x \<and> x \<in> set xs"
  by (induction xs) (auto split: if_splits)

lemma take_length_append [simp]: "take (length w) (w @ s) = w"
  by simp

lemma take_eq_imp_append: "take (length w) s = w \<Longrightarrow> \<exists>t. s = w @ t"
  by (metis append_take_drop_id)

lemma filter_mset_mset: "mset (filter P xs) + mset (filter (\<lambda>x. \<not> P x) xs) = mset xs"
  by (induction xs) auto

lemma length_filter_disjoint:
  "(\<And>x. x \<in> set xs \<Longrightarrow> \<not> (P x \<and> Q x)) \<Longrightarrow>
   length (filter (\<lambda>x. P x \<or> Q x) xs) = length (filter P xs) + length (filter Q xs)"
  by (induction xs) auto

lemma foldl_invariant:
  assumes "I a" and "\<And>a x. x \<in> set xs \<Longrightarrow> I a \<Longrightarrow> I (f a x)"
  shows "I (foldl f a xs)"
  using assms by (induction xs arbitrary: a) auto

lemma fold_invariant_set:
  assumes "I a" and "\<And>a x. x \<in> set xs \<Longrightarrow> I a \<Longrightarrow> I (f x a)"
  shows "I (fold f xs a)"
  using assms by (induction xs arbitrary: a) auto

section \<open>Association lists as directories and tables\<close>

lemma map_of_filter_key:
  "map_of (filter (\<lambda>p. fst p \<noteq> k) xs) = (map_of xs)(k := None)"
  by (induction xs) (auto simp: fun_eq_iff)

lemma distinct_fst_filter: "distinct (map fst xs) \<Longrightarrow> distinct (map fst (filter P xs))"
  by (induction xs) auto

lemma map_of_eq_None_iff_fst: "map_of xs k = None \<longleftrightarrow> k \<notin> fst ` set xs"
  by (simp add: map_of_eq_None_iff)

section \<open>Properties of every position of a log\<close>

text \<open>\<open>every_prefix P l\<close>: each element of \<open>l\<close> satisfies \<open>P\<close> together with what precedes it.\<close>

definition every_prefix :: "('e list \<Rightarrow> 'e \<Rightarrow> bool) \<Rightarrow> 'e list \<Rightarrow> bool" where
  "every_prefix P l \<longleftrightarrow> (\<forall>l1 e l2. l = l1 @ e # l2 \<longrightarrow> P l1 e)"

lemma every_prefix_Nil [simp]: "every_prefix P []"
  by (simp add: every_prefix_def)

lemma every_prefix_snoc [simp]: "every_prefix P (l @ [e]) \<longleftrightarrow> every_prefix P l \<and> P l e" (is "?L \<longleftrightarrow> ?R")
proof
  assume ?L
  then have "P l1 e'" if "l @ [e] = l1 @ e' # l2" for l1 e' l2
    using that by (simp add: every_prefix_def)
  from this [of _ _ "_ @ [e]"] this [of l e "[]"] show ?R
    by (auto simp: every_prefix_def)
next
  assume R: ?R
  show ?L
    unfolding every_prefix_def
  proof (intro allI impI)
    fix l1 e' l2
    assume "l @ [e] = l1 @ e' # l2"
    then show "P l1 e'"
      using R by (cases l2 rule: rev_cases) (auto simp: every_prefix_def)
  qed
qed

lemma every_prefix_append:
  "every_prefix P (l @ l') \<longleftrightarrow> every_prefix P l \<and> every_prefix (\<lambda>l1. P (l @ l1)) l'"
proof (induction l' rule: rev_induct)
  case (snoc e l')
  then show ?case
    using every_prefix_snoc [of P "l @ l'" e] by auto
qed simp

lemma every_prefix_Cons:
  "every_prefix P (e # l) \<longleftrightarrow> P [] e \<and> every_prefix (\<lambda>l1. P (e # l1)) l"
  using every_prefix_append [of P "[e]" l] every_prefix_snoc [of P "[]" e] by simp

lemma every_prefix_trivial: "(\<And>l1 e. e \<in> set l \<Longrightarrow> P l1 e) \<Longrightarrow> every_prefix P l"
  by (simp add: every_prefix_def)

end
