(* ===== verification/Go_Strings.thy ===== *)
theory Go_Strings
  imports Go_Prelude
begin

text \<open>
  The parts of Go's \<^verbatim>\<open>strings\<close>, \<^verbatim>\<open>strconv\<close> and \<^verbatim>\<open>bufio\<close> packages that the services call:
  trimming, splitting into fields, prefixes and suffixes, upper-casing, decimal printing
  and the line scanner. White space is Unicode white space, recognised on the UTF-8 bytes.
\<close>

section \<open>White space\<close>

definition asciiSpace :: "string list" where
  "asciiSpace = [[CHR 0x09], [CHR 0x0A], [CHR 0x0B], [CHR 0x0C], [CHR 0x0D], [CHR 0x20]]"

text \<open>The UTF-8 encodings of the white-space runes above 127: U+0085, U+00A0, U+1680,
  U+2000 to U+200A, U+2028, U+2029, U+202F, U+205F and U+3000.\<close>

definition wideSpace :: "string list" where
  "wideSpace =
    [[CHR 0xC2, CHR 0x85],
     [CHR 0xC2, CHR 0xA0],
     [CHR 0xE1, CHR 0x9A, CHR 0x80],
     [CHR 0xE2, CHR 0x80, CHR 0x80],
     [CHR 0xE2, CHR 0x80, CHR 0x81],
     [CHR 0xE2, CHR 0x80, CHR 0x82],
     [CHR 0xE2, CHR 0x80, CHR 0x83],
     [CHR 0xE2, CHR 0x80, CHR 0x84],
     [CHR 0xE2, CHR 0x80, CHR 0x85],
     [CHR 0xE2, CHR 0x80, CHR 0x86],
     [CHR 0xE2, CHR 0x80, CHR 0x87],
     [CHR 0xE2, CHR 0x80, CHR 0x88],
     [CHR 0xE2, CHR 0x80, CHR 0x89],
     [CHR 0xE2, CHR 0x80, CHR 0x8A],
     [CHR 0xE2, CHR 0x80, CHR 0xA8],
     [CHR 0xE2, CHR 0x80, CHR 0xA9],
     [CHR 0xE2, CHR 0x80, CHR 0xAF],
     [CHR 0xE2, CHR 0x81, CHR 0x9F],
     [CHR 0xE3, CHR 0x80, CHR 0x80]]"

definition spaces :: "string list" where
  "spaces = asciiSpace @ wideSpace"

lemma spaces_nonempty: "w \<in> set spaces \<Longrightarrow> w \<noteq> []"
  by (auto simp: spaces_def asciiSpace_def wideSpace_def)

text \<open>The first of the words \<open>ws\<close> that starts \<open>s\<close>.\<close>

definition leading :: "string list \<Rightarrow> string \<Rightarrow> string option" where
  "leading ws s = find (\<lambda>w. w \<noteq> [] \<and> take (length w) s = w) ws"

lemma leading_Some:
  assumes "leading ws s = Some w"
  shows "w \<noteq> [] \<and> w \<in> set ws \<and> s = w @ drop (length w) s"
proof -
  from assms have "w \<noteq> [] \<and> take (length w) s = w" and "w \<in> set ws"
    unfolding leading_def by (auto dest!: find_SomeD)
  then show ?thesis by (metis append_take_drop_id)
qed

lemma leading_None: "leading ws s = None \<longleftrightarrow> (\<forall>w \<in> set ws. w \<noteq> [] \<longrightarrow> take (length w) s \<noteq> w)"
  by (auto simp: leading_def find_None_iff)

lemma leading_length: "leading ws s = Some w \<Longrightarrow> length (drop (length w) s) < length s"
  using leading_Some [of ws s w] by (metis length_drop length_greater_0_conv
      diff_less append_is_Nil_conv)

lemma leading_append: "leading ws (s @ t) = None \<Longrightarrow> leading ws s = None"
  unfolding leading_None by (metis append_assoc append_take_drop_id take_length_append)

function trim_by :: "string list \<Rightarrow> string \<Rightarrow> string" where
  "trim_by ws s = (case leading ws s of None \<Rightarrow> s | Some w \<Rightarrow> trim_by ws (drop (length w) s))"
  by pat_completeness auto
termination
  by (relation "measure (\<lambda>(ws, s). length s)") (auto dest: leading_length simp del: length_drop)

declare trim_by.simps [simp del]

definition trimLeft :: "string \<Rightarrow> string" where
  "trimLeft s = trim_by spaces s"

definition trimRight :: "string \<Rightarrow> string" where
  "trimRight s = rev (trim_by (map rev spaces) (rev s))"

text \<open>\<^verbatim>\<open>strings.TrimSpace\<close>.\<close>

definition TrimSpace :: "string \<Rightarrow> string" where
  "TrimSpace s = trimRight (trimLeft s)"

lemma trim_by_None: "leading ws s = None \<Longrightarrow> trim_by ws s = s"
  by (simp add: trim_by.simps [of ws s])

lemma trim_by_Some: "leading ws s = Some w \<Longrightarrow> trim_by ws s = trim_by ws (drop (length w) s)"
  by (simp add: trim_by.simps [of ws s])

lemma trim_by_stops: "leading ws (trim_by ws s) = None"
proof (induction ws s rule: trim_by.induct)
  case (1 ws s)
  then show ?case
    by (cases "leading ws s") (auto simp: trim_by_None trim_by_Some)
qed

lemma trim_by_suffix: "\<exists>p. s = p @ trim_by ws s"
proof (induction ws s rule: trim_by.induct)
  case (1 ws s)
  show ?case
  proof (cases "leading ws s")
    case None
    then show ?thesis by (simp add: trim_by_None)
  next
    case (Some w)
    from 1 [OF Some] obtain p where "drop (length w) s = p @ trim_by ws (drop (length w) s)" ..
    then have "s = (w @ p) @ trim_by ws s"
      using leading_Some [OF Some] by (metis append.assoc trim_by_Some [OF Some])
    then show ?thesis ..
  qed
qed

lemma trim_by_idem [simp]: "trim_by ws (trim_by ws s) = trim_by ws s"
  by (simp add: trim_by_None trim_by_stops)

lemma trimRight_idem [simp]: "trimRight (trimRight s) = trimRight s"
  by (simp add: trimRight_def)

lemma trimLeft_trimRight: "leading spaces s = None \<Longrightarrow> trimLeft (trimRight s) = trimRight s"
proof -
  assume *: "leading spaces s = None"
  obtain p where "rev s = p @ trim_by (map rev spaces) (rev s)"
    using trim_by_suffix by blast
  then have "s = trimRight s @ rev p"
    unfolding trimRight_def by (metis rev_append rev_rev_ident)
  with * have "leading spaces (trimRight s) = None"
    by (metis leading_append)
  then show ?thesis by (simp add: trimLeft_def trim_by_None)
qed

text \<open>Trimming is idempotent: what is trimmed once starts and ends with no space.\<close>

lemma TrimSpace_idem [simp]: "TrimSpace (TrimSpace s) = TrimSpace s"
proof -
  have "leading spaces (trimLeft s) = None"
    by (simp add: trimLeft_def trim_by_stops)
  then have "trimLeft (TrimSpace s) = TrimSpace s"
    unfolding TrimSpace_def by (rule trimLeft_trimRight)
  then show ?thesis
    by (simp add: TrimSpace_def)
qed

section \<open>Upper-casing\<close>

definition isASCII :: "string \<Rightarrow> bool" where
  "isASCII s = list_all (\<lambda>c. byte_val c < 128) s"

definition upper_byte :: "char \<Rightarrow> char" where
  "upper_byte c = (if 97 \<le> byte_val c \<and> byte_val c \<le> 122 then char_of (byte_val c - 32) else c)"

text \<open>
  \<^verbatim>\<open>strings.ToUpper\<close> works byte by byte on an ASCII string; on any other it maps the
  runes through Unicode's case tables, which are the parameter \<open>uni_upper\<close>.
\<close>

definition ToUpper :: "(string \<Rightarrow> string) \<Rightarrow> string \<Rightarrow> string" where
  "ToUpper uni_upper s = (if isASCII s then map upper_byte s else uni_upper s)"

lemma upper_byte_ascii: "byte_val c < 128 \<Longrightarrow> byte_val (upper_byte c) < 128"
  by (auto simp: upper_byte_def byte_val_def)

lemma upper_byte_idem [simp]: "upper_byte (upper_byte c) = upper_byte c"
  by (auto simp: upper_byte_def byte_val_def)

lemma isASCII_upper: "isASCII s \<Longrightarrow> isASCII (map upper_byte s)"
  by (induction s) (auto simp: isASCII_def upper_byte_ascii)

lemma ToUpper_ascii_idem: "isASCII s \<Longrightarrow> ToUpper u (ToUpper u s) = ToUpper u s"
  by (simp add: ToUpper_def isASCII_upper)

lemma ToUpper_Nil [simp]: "ToUpper u [] = []"
  by (simp add: ToUpper_def isASCII_def)

section \<open>Prefixes, suffixes, splitting and joining\<close>

definition HasPrefix :: "string \<Rightarrow> string \<Rightarrow> bool" where
  "HasPrefix s p \<longleftrightarrow> take (length p) s = p"

definition HasSuffix :: "string \<Rightarrow> string \<Rightarrow> bool" where
  "HasSuffix s p \<longleftrightarrow> length p \<le> length s \<and> drop (length s - length p) s = p"

definition TrimSuffix :: "string \<Rightarrow> string \<Rightarrow> string" where
  "TrimSuffix s p = (if HasSuffix s p then take (length s - length p) s else s)"

lemma HasPrefix_iff: "HasPrefix s p \<longleftrightarrow> (\<exists>t. s = p @ t)"
  by (auto simp: HasPrefix_def dest: take_eq_imp_append)

lemma HasSuffix_iff: "HasSuffix s p \<longleftrightarrow> (\<exists>t. s = t @ p)"
  by (auto simp: HasSuffix_def) (metis append_take_drop_id)

lemma TrimSuffix_append [simp]: "TrimSuffix (s @ p) p = s"
  by (simp add: TrimSuffix_def HasSuffix_def)

text \<open>\<^verbatim>\<open>strings.Fields\<close>: the maximal runs of non-space runes.\<close>

function fields_from :: "string \<Rightarrow> string \<Rightarrow> string list" where
  "fields_from cur s =
     (case leading spaces s of
        Some w \<Rightarrow> (if cur = [] then [] else [cur]) @ fields_from [] (drop (length w) s)
      | None \<Rightarrow> (case s of [] \<Rightarrow> (if cur = [] then [] else [cur])
                | c # cs \<Rightarrow> fields_from (cur @ [c]) cs))"
  by pat_completeness auto
termination
  by (relation "measure (\<lambda>(cur, s). length s)") (auto dest: leading_length simp del: length_drop)

declare fields_from.simps [simp del]

definition Fields :: "string \<Rightarrow> string list" where
  "Fields s = fields_from [] s"

text \<open>\<^verbatim>\<open>strings.Split\<close> at one separator byte: always at least one part.\<close>

fun split_byte :: "char \<Rightarrow> string \<Rightarrow> string list" where
  "split_byte d [] = [[]]"
| "split_byte d (c # cs) =
     (if c = d then [] # split_byte d cs
      else (case split_byte d cs of [] \<Rightarrow> [[c]] | p # ps \<Rightarrow> (c # p) # ps))"

lemma split_byte_nonempty [simp]: "split_byte d s \<noteq> []"
  by (cases s) (auto split: list.splits)

lemma split_byte_no_sep: "p \<in> set (split_byte d s) \<Longrightarrow> d \<notin> set p"
  by (induction s arbitrary: p) (fastforce split: if_splits list.splits)+

text \<open>\<^verbatim>\<open>strings.Join\<close>.\<close>

fun joinWith :: "string \<Rightarrow> string list \<Rightarrow> string" where
  "joinWith sep [] = []"
| "joinWith sep [p] = p"
| "joinWith sep (p # q # ps) = p @ sep @ joinWith sep (q # ps)"

lemma join_split_byte: "joinWith [d] (split_byte d s) = s"
proof (induction s)
  case (Cons c cs)
  then show ?case
    by (cases "split_byte d cs" rule: remdups_adj.cases) (auto split: if_splits)
qed simp

section \<open>Decimal numbers\<close>

definition digit_char :: "nat \<Rightarrow> char" where
  "digit_char d = ''0123456789'' ! d"

definition is_digit :: "char \<Rightarrow> bool" where
  "is_digit c \<longleftrightarrow> 48 \<le> byte_val c \<and> byte_val c \<le> 57"

definition digit_val :: "char \<Rightarrow> int" where
  "digit_val c = byte_val c - 48"

fun show_nat :: "nat \<Rightarrow> string" where
  "show_nat n = (if n < 10 then [digit_char n] else show_nat (n div 10) @ [digit_char (n mod 10)])"

declare show_nat.simps [simp del]

definition read_nat :: "string \<Rightarrow> int" where
  "read_nat s = foldl (\<lambda>n c. 10 * n + digit_val c) 0 s"

lemma less_10_cases: "d < 10 \<Longrightarrow> d \<in> {0, 1, 2, 3, 4, 5, 6, 7, 8, 9 :: nat}"
  by auto

lemma digit_val_digit_char [simp]: "d < 10 \<Longrightarrow> digit_val (digit_char d) = int d"
  by (drule less_10_cases) (auto simp: digit_val_def digit_char_def byte_val_def)

lemma is_digit_digit_char [simp]: "d < 10 \<Longrightarrow> is_digit (digit_char d)"
  by (drule less_10_cases) (auto simp: is_digit_def digit_char_def byte_val_def)

lemma read_nat_snoc [simp]: "read_nat (s @ [c]) = 10 * read_nat s + digit_val c"
  by (simp add: read_nat_def)

lemma read_show_nat [simp]: "read_nat (show_nat n) = int n"
proof (induction n rule: show_nat.induct)
  case (1 n)
  show ?case
  proof (cases "n < 10")
    case True
    then show ?thesis by (simp add: show_nat.simps [of n] read_nat_def)
  next
    case False
    with 1 show ?thesis by (simp add: show_nat.simps [of n] zdiv_int zmod_int)
  qed
qed

lemma show_nat_inject: "show_nat m = show_nat n \<Longrightarrow> m = n"
  by (metis read_show_nat of_nat_eq_iff)

lemma show_nat_digits: "list_all is_digit (show_nat n)"
proof (induction n rule: show_nat.induct)
  case (1 n)
  then show ?case
    by (cases "n < 10") (auto simp: show_nat.simps [of n])
qed

section \<open>The line scanner\<close>

text \<open>
  \<^verbatim>\<open>bufio.Scanner\<close> with the default split function: the lines of the input without their
  newline and one trailing carriage return; a last line without newline counts when it is
  not empty. The buffer holds at most 65536 bytes, so a line with as many bytes before its
  newline (or the end of the input) stops the scan with \<^verbatim>\<open>bufio.ErrTooLong\<close>.
\<close>

datatype scan_error = ErrTooLong

definition maxTokenSize :: int where
  "maxTokenSize = 65536"

definition newline :: char where
  "newline = CHR 0x0A"

definition dropCR :: "string \<Rightarrow> string" where
  "dropCR s = (if s \<noteq> [] \<and> last s = CHR 0x0D then butlast s else s)"

definition raw_lines :: "string \<Rightarrow> string list" where
  "raw_lines s = (let ps = split_byte newline s in if last ps = [] then butlast ps else ps)"

fun scan_tokens :: "string list \<Rightarrow> string list \<times> scan_error err" where
  "scan_tokens [] = ([], None)"
| "scan_tokens (l # ls) =
     (if maxTokenSize \<le> int (length l) then ([], Some ErrTooLong)
      else (let (ts, e) = scan_tokens ls in (dropCR l # ts, e)))"

definition ScanLines :: "string \<Rightarrow> string list \<times> scan_error err" where
  "ScanLines s = scan_tokens (raw_lines s)"

lemma scan_tokens_ok:
  "snd (scan_tokens ls) = None \<longleftrightarrow> (\<forall>l \<in> set ls. int (length l) < maxTokenSize)"
  by (induction ls) (auto split: prod.splits)

lemma scan_tokens_all:
  "snd (scan_tokens ls) = None \<Longrightarrow> fst (scan_tokens ls) = map dropCR ls"
  by (induction ls) (auto split: prod.splits if_splits)

end
