(* ===== verification/Ladd_Set.thy ===== *)
theory Ladd_Set
  imports Go_Strings
begin

text \<open>
  The LADD block list as a set of identifiers (filter/internal/ladd/ladd.go): identifiers
  are trimmed and upper-cased on the way in and on every lookup, and a blank identifier
  neither enters the set nor matches it. Also the line format both the loader and the
  upload service read: one identifier per line, blank lines and \<^verbatim>\<open>#\<close> comments skipped.
\<close>

section \<open>The set\<close>

text \<open>
  \<^verbatim>\<open>type Set struct { entries map[string]struct{} }\<close>: the keys of the map, in insertion
  order and without repetition. A \<^verbatim>\<open>*Set\<close> is an option, \<open>None\<close> for \<^verbatim>\<open>nil\<close>.
\<close>

record ladd_set =
  entries :: "string list"

definition normalize_id :: "(string \<Rightarrow> string) \<Rightarrow> string \<Rightarrow> string" where
  "normalize_id uni_upper s = ToUpper uni_upper (TrimSpace s)"

fun add_ids :: "(string \<Rightarrow> string) \<Rightarrow> string list \<Rightarrow> string list \<Rightarrow> string list" where
  "add_ids u m [] = m"
| "add_ids u m (i # is) =
     (let k = normalize_id u i
      in if k \<noteq> [] then add_ids u (List.insert k m) is else add_ids u m is)"

definition NewSet :: "(string \<Rightarrow> string) \<Rightarrow> string list \<Rightarrow> ladd_set" where
  "NewSet u ids = \<lparr>entries = add_ids u [] ids\<rparr>"

definition Len :: "ladd_set option \<Rightarrow> nat" where
  "Len s = (case s of None \<Rightarrow> 0 | Some t \<Rightarrow> length (entries t))"

definition has :: "(string \<Rightarrow> string) \<Rightarrow> ladd_set \<Rightarrow> string \<Rightarrow> bool" where
  "has u s i = (let k = normalize_id u i in k \<noteq> [] \<and> List.member (entries s) k)"

definition Blocks :: "(string \<Rightarrow> string) \<Rightarrow> ladd_set option \<Rightarrow> string \<Rightarrow> string \<Rightarrow> bool" where
  "Blocks u s callSign registration =
     (case s of None \<Rightarrow> False | Some t \<Rightarrow> has u t callSign \<or> has u t registration)"

section \<open>Lines of a list file\<close>

text \<open>The loop body shared by \<^verbatim>\<open>loadFile\<close> and \<^verbatim>\<open>countEntries\<close>: the trimmed line, unless it
  is blank or a comment.\<close>

definition list_line :: "string \<Rightarrow> string option" where
  "list_line raw = (let line = TrimSpace raw
     in if line = [] \<or> HasPrefix line ''#'' then None else Some line)"

section \<open>Well-formedness and membership\<close>

definition wf_set :: "ladd_set \<Rightarrow> bool" where
  "wf_set s \<longleftrightarrow> distinct (entries s) \<and> [] \<notin> set (entries s)"

lemma add_ids_set: "set (add_ids u m is) = set m \<union> (normalize_id u ` set is - {[]})"
  by (induction "is" arbitrary: m) (auto simp: Let_def)

lemma add_ids_distinct: "distinct m \<Longrightarrow> distinct (add_ids u m is)"
  by (induction "is" arbitrary: m) (auto simp: Let_def)

lemma NewSet_entries: "set (entries (NewSet u ids)) = normalize_id u ` set ids - {[]}"
  by (simp add: NewSet_def add_ids_set)

lemma NewSet_wf [inv_intros]: "wf_set (NewSet u ids)"
  by (auto simp: wf_set_def NewSet_def add_ids_distinct add_ids_set)

lemma has_NewSet:
  "has u (NewSet u ids) x \<longleftrightarrow>
     normalize_id u x \<noteq> [] \<and> normalize_id u x \<in> normalize_id u ` set ids"
  by (auto simp: has_def Let_def NewSet_entries)

lemma Blocks_NewSet:
  "Blocks u (Some (NewSet u ids)) c r \<longleftrightarrow>
     (\<exists>i \<in> set ids. normalize_id u i \<noteq> [] \<and>
        (normalize_id u i = normalize_id u c \<or> normalize_id u i = normalize_id u r))"
  by (simp add: Blocks_def has_NewSet image_iff) metis

lemma Len_NewSet: "Len (Some (NewSet u ids)) = card (normalize_id u ` set ids - {[]})"
proof -
  have "distinct (entries (NewSet u ids))"
    using NewSet_wf [of u ids] by (simp add: wf_set_def)
  then show ?thesis
    by (simp add: Len_def distinct_card [symmetric] NewSet_entries)
qed

lemma Len_zero_no_match: "Len s = 0 \<Longrightarrow> \<not> Blocks u s c r"
  by (auto simp: Len_def Blocks_def has_def Let_def split: option.splits)

lemma normalize_ascii_idem:
  "isASCII (TrimSpace s) \<Longrightarrow> normalize_id u (TrimSpace s) = normalize_id u s"
  by (simp add: normalize_id_def)

section \<open>The membership interface\<close>

text \<open>
  What the filter relies on: a lookup by a key function, so that two identifiers with the
  same key are interchangeable and an identifier with a blank key never matches.
\<close>

locale keyed_blocklist =
  fixes key :: "string \<Rightarrow> string"
    and build :: "string list \<Rightarrow> 's"
    and blocked :: "'s \<Rightarrow> string \<Rightarrow> string \<Rightarrow> bool"
  assumes blocked_build:
    "blocked (build ids) c r \<longleftrightarrow>
       (\<exists>i \<in> set ids. key i \<noteq> [] \<and> (key i = key c \<or> key i = key r))"
begin

lemma blocked_mono: "set ids \<subseteq> set ids' \<Longrightarrow> blocked (build ids) c r \<Longrightarrow> blocked (build ids') c r"
  by (auto simp: blocked_build)

lemma blocked_same_key:
  "key c = key c' \<Longrightarrow> key r = key r' \<Longrightarrow> blocked (build ids) c r = blocked (build ids) c' r'"
  by (simp add: blocked_build)

lemma blocked_swap: "blocked (build ids) c r = blocked (build ids) r c"
  by (auto simp: blocked_build)

lemma not_blocked_blank: "key c = [] \<Longrightarrow> key r = [] \<Longrightarrow> \<not> blocked (build ids) c r"
  by (auto simp: blocked_build)

lemma blocked_perm: "set ids = set ids' \<Longrightarrow> blocked (build ids) c r = blocked (build ids') c r"
  by (simp add: blocked_build)

end

interpretation ladd: keyed_blocklist "normalize_id u" "\<lambda>ids. Some (NewSet u ids)" "Blocks u" for u
  by unfold_locales (rule Blocks_NewSet)

end
