(* ===== verification/Os_Files.thy ===== *)
theory Os_Files
  imports Go_Strings
begin

text \<open>
  The file system as the services use it through Go's \<^verbatim>\<open>os\<close> package: directories of named
  entries, and the faults a call may meet. A path below a directory is the pair of the
  directory and the base name.
\<close>

section \<open>Directories\<close>

datatype fentry = File bytes | Dir

datatype os_error = ErrNotExist | OSFault string

type_synonym dirent = "string \<times> fentry"
type_synonym fsys = "string \<rightharpoonup> dirent list"

text \<open>
  The faults of one run of calls, by path: \<open>None\<close> where the call succeeds. A fault of
  \<^verbatim>\<open>ReadDir\<close> is anything but a missing directory; a failed copy also says how many bytes
  had been written.
\<close>

record osenv =
  readdir_fault :: "string \<Rightarrow> string option"
  open_fault :: "string \<Rightarrow> string \<Rightarrow> os_error err"
  read_fault :: "string \<Rightarrow> string \<Rightarrow> os_error err"
  mkdir_fault :: "string \<Rightarrow> os_error err"
  rename_fault :: "string \<Rightarrow> string \<Rightarrow> os_error err"
  create_fault :: "string \<Rightarrow> string \<Rightarrow> os_error err"
  copy_fault :: "string \<Rightarrow> string \<Rightarrow> (os_error \<times> nat) option"
  close_fault :: "string \<Rightarrow> string \<Rightarrow> os_error err"
  remove_fault :: "string \<Rightarrow> string \<Rightarrow> os_error err"

definition no_faults :: osenv where
  "no_faults = \<lparr>readdir_fault = (\<lambda>_. None), open_fault = (\<lambda>_ _. None), read_fault = (\<lambda>_ _. None),
     mkdir_fault = (\<lambda>_. None), rename_fault = (\<lambda>_ _. None), create_fault = (\<lambda>_ _. None),
     copy_fault = (\<lambda>_ _. None), close_fault = (\<lambda>_ _. None), remove_fault = (\<lambda>_ _. None)\<rparr>"

definition dir_entries :: "fsys \<Rightarrow> string \<Rightarrow> dirent list" where
  "dir_entries fs d = (case fs d of None \<Rightarrow> [] | Some es \<Rightarrow> es)"

definition stat :: "fsys \<Rightarrow> string \<Rightarrow> string \<Rightarrow> fentry option" where
  "stat fs d n = map_of (dir_entries fs d) n"

definition put :: "string \<Rightarrow> string \<Rightarrow> fentry \<Rightarrow> fsys \<Rightarrow> fsys" where
  "put d n e fs = fs(d \<mapsto> (n, e) # filter (\<lambda>p. fst p \<noteq> n) (dir_entries fs d))"

definition del :: "string \<Rightarrow> string \<Rightarrow> fsys \<Rightarrow> fsys" where
  "del d n fs = (case fs d of None \<Rightarrow> fs | Some es \<Rightarrow> fs(d \<mapsto> filter (\<lambda>p. fst p \<noteq> n) es))"

section \<open>System calls\<close>

text \<open>\<^verbatim>\<open>os.ReadDir\<close>: the entries sorted by name.\<close>

definition ReadDir :: "osenv \<Rightarrow> fsys \<Rightarrow> string \<Rightarrow> os_error + dirent list" where
  "ReadDir env fs d =
     (case readdir_fault env d of
        Some m \<Rightarrow> Inl (OSFault m)
      | None \<Rightarrow> (case fs d of None \<Rightarrow> Inl ErrNotExist | Some es \<Rightarrow> Inr (sort_key fst es)))"

definition ReadFile :: "osenv \<Rightarrow> fsys \<Rightarrow> string \<Rightarrow> string \<Rightarrow> os_error + bytes" where
  "ReadFile env fs d n =
     (case open_fault env d n of
        Some e \<Rightarrow> Inl e
      | None \<Rightarrow> (case stat fs d n of
            None \<Rightarrow> Inl ErrNotExist
          | Some Dir \<Rightarrow> Inl (OSFault ''is a directory'')
          | Some (File c) \<Rightarrow> (case read_fault env d n of Some e \<Rightarrow> Inl e | None \<Rightarrow> Inr c)))"

text \<open>\<^verbatim>\<open>os.MkdirAll\<close>.\<close>

definition MkdirAll :: "osenv \<Rightarrow> string \<Rightarrow> fsys \<Rightarrow> os_error err \<times> fsys" where
  "MkdirAll env d fs =
     (case mkdir_fault env d of
        Some e \<Rightarrow> (Some e, fs)
      | None \<Rightarrow> (None, (case fs d of None \<Rightarrow> fs(d \<mapsto> []) | Some _ \<Rightarrow> fs)))"

text \<open>\<^verbatim>\<open>os.Rename\<close> of \<open>(sd, sn)\<close> to \<open>(dd, dn)\<close>.\<close>

definition Rename :: "osenv \<Rightarrow> string \<Rightarrow> string \<Rightarrow> string \<Rightarrow> string \<Rightarrow> fsys \<Rightarrow> os_error err \<times> fsys" where
  "Rename env sd sn dd dn fs =
     (case rename_fault env sd sn of
        Some e \<Rightarrow> (Some e, fs)
      | None \<Rightarrow> (case stat fs sd sn of
            None \<Rightarrow> (Some ErrNotExist, fs)
          | Some e \<Rightarrow> (None, put dd dn e (del sd sn fs))))"

definition Remove :: "osenv \<Rightarrow> string \<Rightarrow> string \<Rightarrow> fsys \<Rightarrow> os_error err \<times> fsys" where
  "Remove env d n fs =
     (case remove_fault env d n of
        Some e \<Rightarrow> (Some e, fs)
      | None \<Rightarrow> (case stat fs d n of None \<Rightarrow> (Some ErrNotExist, fs) | Some _ \<Rightarrow> (None, del d n fs)))"

section \<open>Well-formed file systems and their contents\<close>

definition wf_fs :: "fsys \<Rightarrow> bool" where
  "wf_fs fs \<longleftrightarrow> (\<forall>d. distinct (map fst (dir_entries fs d)))"

fun file_contents :: "dirent list \<Rightarrow> bytes list" where
  "file_contents [] = []"
| "file_contents ((n, File c) # es) = c # file_contents es"
| "file_contents ((n, Dir) # es) = file_contents es"

text \<open>The contents of the regular files of a directory, with repetitions.\<close>

definition contents :: "fsys \<Rightarrow> string \<Rightarrow> bytes multiset" where
  "contents fs d = mset (file_contents (dir_entries fs d))"

lemma dir_entries_put:
  "dir_entries (put d n e fs) d' =
     (if d' = d then (n, e) # filter (\<lambda>p. fst p \<noteq> n) (dir_entries fs d) else dir_entries fs d')"
  by (simp add: put_def dir_entries_def)

lemma dir_entries_del:
  "dir_entries (del d n fs) d' =
     (if d' = d then filter (\<lambda>p. fst p \<noteq> n) (dir_entries fs d) else dir_entries fs d')"
  by (auto simp: del_def dir_entries_def split: option.splits)

lemma stat_put [simp]:
  "stat (put d n e fs) d' n' = (if d' = d \<and> n' = n then Some e else stat fs d' n')"
  by (simp add: stat_def dir_entries_put map_of_filter_key)

lemma stat_del [simp]:
  "stat (del d n fs) d' n' = (if d' = d \<and> n' = n then None else stat fs d' n')"
  by (simp add: stat_def dir_entries_del map_of_filter_key)

lemma wf_fs_put [inv_intros]: "wf_fs fs \<Longrightarrow> wf_fs (put d n e fs)"
  by (auto simp: wf_fs_def dir_entries_put distinct_fst_filter)

lemma wf_fs_del [inv_intros]: "wf_fs fs \<Longrightarrow> wf_fs (del d n fs)"
  by (auto simp: wf_fs_def dir_entries_del distinct_fst_filter)

lemma stat_iff_entry: "wf_fs fs \<Longrightarrow> stat fs d n = Some e \<longleftrightarrow> (n, e) \<in> set (dir_entries fs d)"
  by (simp add: stat_def wf_fs_def)

lemma file_contents_filter_other:
  "n \<notin> fst ` set es \<Longrightarrow> filter (\<lambda>p. fst p \<noteq> n) es = es"
  by (induction es) auto

lemma file_contents_remove:
  "distinct (map fst es) \<Longrightarrow> map_of es n = Some (File c) \<Longrightarrow>
   mset (file_contents es) = add_mset c (mset (file_contents (filter (\<lambda>p. fst p \<noteq> n) es)))"
  by (induction es rule: file_contents.induct)
     (auto simp: file_contents_filter_other split: if_splits)

lemma contents_other [simp]: "d' \<noteq> d \<Longrightarrow> contents (put d n e fs) d' = contents fs d'"
  by (simp add: contents_def dir_entries_put)

lemma contents_del_other [simp]: "d' \<noteq> d \<Longrightarrow> contents (del d n fs) d' = contents fs d'"
  by (simp add: contents_def dir_entries_del)

lemma contents_put_fresh:
  assumes "stat fs d n = None"
  shows "contents (put d n (File c) fs) d = add_mset c (contents fs d)"
proof -
  have "n \<notin> fst ` set (dir_entries fs d)"
    using assms by (simp add: stat_def map_of_eq_None_iff)
  then show ?thesis
    by (simp add: contents_def dir_entries_put file_contents_filter_other)
qed

lemma contents_del:
  "wf_fs fs \<Longrightarrow> stat fs d n = Some (File c) \<Longrightarrow> contents fs d = add_mset c (contents (del d n fs) d)"
  by (simp add: contents_def dir_entries_del wf_fs_def stat_def file_contents_remove)

lemma contents_stat: "wf_fs fs \<Longrightarrow> stat fs d n = Some (File c) \<Longrightarrow> c \<in># contents fs d"
  by (simp add: contents_del)

lemma stat_MkdirAll [simp]: "stat (snd (MkdirAll env d fs)) d' n = stat fs d' n"
  by (auto simp: MkdirAll_def stat_def dir_entries_def split: option.splits)

lemma contents_MkdirAll [simp]: "contents (snd (MkdirAll env d fs)) d' = contents fs d'"
  by (auto simp: MkdirAll_def contents_def dir_entries_def split: option.splits)

lemma dir_entries_MkdirAll [simp]: "dir_entries (snd (MkdirAll env d fs)) d' = dir_entries fs d'"
  by (auto simp: MkdirAll_def dir_entries_def split: option.splits)

lemma wf_fs_MkdirAll [inv_intros]: "wf_fs fs \<Longrightarrow> wf_fs (snd (MkdirAll env d fs))"
  by (simp add: wf_fs_def)

section \<open>The whole disk\<close>

definition wf_disk :: "fsys \<Rightarrow> bool" where
  "wf_disk fs \<longleftrightarrow> wf_fs fs \<and> finite (dom fs)"

definition entry_bag :: "fentry \<Rightarrow> bytes multiset" where
  "entry_bag e = (case e of File c \<Rightarrow> {#c#} | Dir \<Rightarrow> {#})"

text \<open>The contents of all regular files.\<close>

definition disk_bag :: "fsys \<Rightarrow> bytes multiset" where
  "disk_bag fs = (\<Sum>d \<in> dom fs. contents fs d)"

lemma entry_bag_simps [simp]: "entry_bag (File c) = {#c#}" "entry_bag Dir = {#}"
  by (simp_all add: entry_bag_def)

lemma disk_bag_superset:
  assumes "finite A" "dom fs \<subseteq> A"
  shows "disk_bag fs = (\<Sum>d \<in> A. contents fs d)"
  unfolding disk_bag_def using assms
  by (intro sum.mono_neutral_left) (auto simp: contents_def dir_entries_def split: option.splits)

lemma contents_put_entry:
  "stat fs d n = None \<Longrightarrow> contents (put d n e fs) d = entry_bag e + contents fs d"
  by (cases e) (auto simp: contents_put_fresh contents_def dir_entries_put stat_def
      map_of_eq_None_iff file_contents_filter_other)

lemma file_contents_remove_Dir:
  "distinct (map fst es) \<Longrightarrow> map_of es n = Some Dir \<Longrightarrow>
   file_contents (filter (\<lambda>p. fst p \<noteq> n) es) = file_contents es"
  by (induction es rule: file_contents.induct)
     (auto simp: file_contents_filter_other split: if_splits)

lemma contents_del_entry:
  "wf_fs fs \<Longrightarrow> stat fs d n = Some e \<Longrightarrow> contents fs d = entry_bag e + contents (del d n fs) d"
  by (cases e) (auto simp: contents_del contents_def dir_entries_del wf_fs_def stat_def
      file_contents_remove_Dir file_contents_remove)

lemma wf_disk_put [inv_intros]: "wf_disk fs \<Longrightarrow> wf_disk (put d n e fs)"
  by (auto simp: wf_disk_def intro: wf_fs_put) (simp add: put_def)

lemma dom_del [simp]: "dom (del d n fs) = dom fs"
  by (auto simp: del_def split: option.splits)

lemma wf_disk_del [inv_intros]: "wf_disk fs \<Longrightarrow> wf_disk (del d n fs)"
  by (simp add: wf_disk_def wf_fs_del)

lemma sum_update_at:
  fixes f g :: "'a \<Rightarrow> 'b::comm_monoid_add"
  assumes "finite A" "d \<in> A" "\<And>x. x \<noteq> d \<Longrightarrow> f x = g x" "f d = e + g d"
  shows "sum f A = e + sum g A"
proof -
  have "sum f A = f d + sum f (A - {d})" using assms(1,2) by (rule sum.remove)
  also have "sum f (A - {d}) = sum g (A - {d})" by (rule sum.cong) (auto simp: assms(3))
  also have "f d + sum g (A - {d}) = e + (g d + sum g (A - {d}))"
    by (simp add: assms(4) add.assoc)
  also have "\<dots> = e + sum g A" using sum.remove [OF assms(1,2), of g] by simp
  finally show ?thesis .
qed

lemma disk_bag_put_fresh:
  assumes "wf_disk fs" "stat fs d n = None"
  shows "disk_bag (put d n e fs) = entry_bag e + disk_bag fs"
proof -
  let ?A = "insert d (dom fs)"
  have fin: "finite ?A" using assms(1) by (simp add: wf_disk_def)
  have "disk_bag (put d n e fs) = (\<Sum>x \<in> ?A. contents (put d n e fs) x)"
    using fin by (intro disk_bag_superset) (auto simp: put_def)
  also have "\<dots> = entry_bag e + (\<Sum>x \<in> ?A. contents fs x)"
    using fin assms(2) by (intro sum_update_at [where d = d]) (auto simp: contents_put_entry)
  also have "(\<Sum>x \<in> ?A. contents fs x) = disk_bag fs"
    using fin by (intro disk_bag_superset [symmetric]) auto
  finally show ?thesis .
qed

lemma disk_bag_del:
  assumes "wf_disk fs" "stat fs d n = Some e"
  shows "disk_bag fs = entry_bag e + disk_bag (del d n fs)"
proof -
  have "d \<in> dom fs" using assms(2) by (auto simp: stat_def dir_entries_def split: option.splits)
  then show ?thesis
    unfolding disk_bag_def dom_del using assms
    by (intro sum_update_at [where d = d]) (auto simp: wf_disk_def contents_del_entry)
qed

lemma wf_disk_MkdirAll [inv_intros]: "wf_disk fs \<Longrightarrow> wf_disk (snd (MkdirAll env d fs))"
  using wf_fs_MkdirAll [of fs env d]
  by (auto simp: wf_disk_def MkdirAll_def split: option.splits)

lemma disk_bag_MkdirAll:
  assumes "wf_disk fs"
  shows "disk_bag (snd (MkdirAll env d fs)) = disk_bag fs"
proof -
  have fin: "finite (insert d (dom fs))" using assms by (simp add: wf_disk_def)
  have "disk_bag (snd (MkdirAll env d fs)) = (\<Sum>x \<in> insert d (dom fs). contents (snd (MkdirAll env d fs)) x)"
    using fin by (intro disk_bag_superset) (auto simp: MkdirAll_def split: option.splits if_splits)
  also have "\<dots> = disk_bag fs"
    using fin by (simp add: disk_bag_superset [where A = "insert d (dom fs)"] subset_insertI)
  finally show ?thesis .
qed

end
