(* ===== verification/Go_Time.thy ===== *)
theory Go_Time
  imports Go_Strings "HOL-Library.Monad_Syntax"
begin

text \<open>
  Go's \<^verbatim>\<open>time\<close> package as far as the services use it: instants, the saturating difference
  of two instants, and \<^verbatim>\<open>time.Parse\<close> for the layouts \<^verbatim>\<open>20060102\<close> and \<^verbatim>\<open>time.RFC3339\<close>.
\<close>

section \<open>Instants and durations\<close>

text \<open>
  An instant is its number of nanoseconds since 0001-01-01T00:00:00Z, so the zero
  \<^verbatim>\<open>time.Time\<close> is 0 and \<^verbatim>\<open>After\<close> is the order of the integers. A \<^verbatim>\<open>time.Duration\<close> is a
  signed 64-bit number of nanoseconds, and \<^verbatim>\<open>Sub\<close> saturates at its bounds.
\<close>

type_synonym gotime = int
type_synonym duration = int

definition zeroTime :: gotime where "zeroTime = 0"

definition IsZero :: "gotime \<Rightarrow> bool" where "IsZero t \<longleftrightarrow> t = zeroTime"

definition After :: "gotime \<Rightarrow> gotime \<Rightarrow> bool" where "After t u \<longleftrightarrow> u < t"

definition maxDuration :: duration where "maxDuration = 2 ^ 63 - 1"
definition minDuration :: duration where "minDuration = - (2 ^ 63)"

definition Sub :: "gotime \<Rightarrow> gotime \<Rightarrow> duration" where
  "Sub t u = max minDuration (min maxDuration (t - u))"

definition second :: duration where "second = 1000000000"
definition hour :: duration where "hour = 3600 * second"

lemma Sub_mono: "t \<le> t' \<Longrightarrow> Sub t u \<le> Sub t' u"
  by (auto simp: Sub_def)

lemma Sub_gt_iff: "minDuration \<le> d \<Longrightarrow> d < maxDuration \<Longrightarrow> d < Sub t u \<longleftrightarrow> d < t - u"
  by (auto simp: Sub_def minDuration_def maxDuration_def max_def min_def)

section \<open>The calendar\<close>

definition isLeap :: "int \<Rightarrow> bool" where
  "isLeap y \<longleftrightarrow> y mod 4 = 0 \<and> (y mod 100 \<noteq> 0 \<or> y mod 400 = 0)"

definition daysIn :: "int \<Rightarrow> int \<Rightarrow> int" where
  "daysIn m y = (if m = 2 then (if isLeap y then 29 else 28)
                 else if m \<in> {4, 6, 9, 11} then 30 else 31)"

definition daysBeforeYear :: "int \<Rightarrow> int" where
  "daysBeforeYear y = (let p = y - 1 in p * 365 + p div 4 - p div 100 + p div 400)"

definition daysBeforeMonth :: "int \<Rightarrow> int \<Rightarrow> int" where
  "daysBeforeMonth m y = sum_list (map (\<lambda>k. daysIn k y) [1 .. m - 1])"

definition dayNumber :: "int \<Rightarrow> int \<Rightarrow> int \<Rightarrow> int" where
  "dayNumber y m d = daysBeforeYear y + daysBeforeMonth m y + d - 1"

definition dateTime :: "int \<Rightarrow> int \<Rightarrow> int \<Rightarrow> int \<Rightarrow> int \<Rightarrow> int \<Rightarrow> int \<Rightarrow> gotime" where
  "dateTime y m d hh mm ss ns =
     (dayNumber y m d * 86400 + hh * 3600 + mm * 60 + ss) * second + ns"

definition validDay :: "int \<Rightarrow> int \<Rightarrow> int \<Rightarrow> bool" where
  "validDay y m d \<longleftrightarrow> 1 \<le> m \<and> m \<le> 12 \<and> 1 \<le> d \<and> d \<le> daysIn m y"

section \<open>Parsing\<close>

text \<open>\<^verbatim>\<open>getnum\<close>: two digits, or one when \<open>fixed\<close> is false.\<close>

fun getnum :: "bool \<Rightarrow> string \<Rightarrow> (int \<times> string) option" where
  "getnum fixed (a # b # s) =
     (if \<not> is_digit a then None
      else if is_digit b then Some (10 * digit_val a + digit_val b, s)
      else if fixed then None else Some (digit_val a, b # s))"
| "getnum fixed [a] = (if is_digit a \<and> \<not> fixed then Some (digit_val a, []) else None)"
| "getnum fixed [] = None"

definition getyear :: "string \<Rightarrow> (int \<times> string) option" where
  "getyear s = (let p = take 4 s in
     if length p = 4 \<and> list_all is_digit p then Some (read_nat p, drop 4 s) else None)"

definition literal :: "char \<Rightarrow> string \<Rightarrow> string option" where
  "literal c s = (case s of [] \<Rightarrow> None | d # t \<Rightarrow> if c = d then Some t else None)"

definition guard :: "bool \<Rightarrow> unit option" where
  "guard b = (if b then Some () else None)"

text \<open>\<^verbatim>\<open>time.Parse("20060102", s)\<close>: midnight UTC of the date.\<close>

definition parseYYYYMMDD :: "string \<Rightarrow> gotime option" where
  "parseYYYYMMDD s = do {
     (y, s) \<leftarrow> getyear s;
     (m, s) \<leftarrow> getnum True s;
     (d, s) \<leftarrow> getnum True s;
     guard (s = [] \<and> validDay y m d);
     Some (dateTime y m d 0 0 0 0)
   }"

text \<open>A fractional second after the seconds: at most nine digits count.\<close>

definition getfrac :: "string \<Rightarrow> int \<times> string" where
  "getfrac s =
     (case s of
        p # c # t \<Rightarrow>
          if (p = CHR ''.'' \<or> p = CHR '','') \<and> is_digit c
          then (let ds = takeWhile is_digit (c # t); kept = take 9 ds
                in (read_nat kept * 10 ^ (9 - length kept), dropWhile is_digit (c # t)))
          else (0, s)
      | _ \<Rightarrow> (0, s))"

text \<open>The zone: \<^verbatim>\<open>Z\<close> or a signed \<^verbatim>\<open>hh:mm\<close>, in seconds east of UTC.\<close>

definition getzone :: "string \<Rightarrow> (int \<times> string) option" where
  "getzone s =
     (case s of
        c # t \<Rightarrow>
          if c = CHR ''Z'' then Some (0, t)
          else do {
            (hh, r) \<leftarrow> getnum True t;
            r \<leftarrow> literal (CHR '':'') r;
            (mm, r) \<leftarrow> getnum True r;
            guard (hh \<le> 24 \<and> mm \<le> 60 \<and> (c = CHR ''+'' \<or> c = CHR ''-''));
            Some ((if c = CHR ''-'' then -1 else 1) * (hh * 3600 + mm * 60), r)
          }
      | [] \<Rightarrow> None)"

text \<open>\<^verbatim>\<open>time.Parse(time.RFC3339, s)\<close>.\<close>

definition parseRFC3339 :: "string \<Rightarrow> gotime option" where
  "parseRFC3339 s = do {
     (y, s) \<leftarrow> getyear s;
     s \<leftarrow> literal (CHR ''-'') s;
     (m, s) \<leftarrow> getnum True s;
     s \<leftarrow> literal (CHR ''-'') s;
     (d, s) \<leftarrow> getnum True s;
     s \<leftarrow> literal (CHR ''T'') s;
     (hh, s) \<leftarrow> getnum False s;
     s \<leftarrow> literal (CHR '':'') s;
     (mm, s) \<leftarrow> getnum True s;
     s \<leftarrow> literal (CHR '':'') s;
     (ss, s) \<leftarrow> getnum True s;
     guard (hh < 24 \<and> mm < 60 \<and> ss < 60);
     let (ns, s) = getfrac s in do {
       (z, s) \<leftarrow> getzone s;
       guard (s = [] \<and> validDay y m d);
       Some (dateTime y m d hh mm ss ns - z * second)
     }
   }"

lemma dateTime_midnight_mono:
  "dayNumber y m d < dayNumber y' m' d' \<longleftrightarrow> dateTime y m d 0 0 0 0 < dateTime y' m' d' 0 0 0 0"
  by (simp add: dateTime_def second_def)

end
