(* ===== verification/Ladd_Loader.thy ===== *)
theory Ladd_Loader
  imports Ladd_Set Os_Files Go_Time
begin

text \<open>
  Loading the block list (filter/internal/ladd/loader.go): the newest dated list file of a
  directory, and its entries.
\<close>

section \<open>Model\<close>

datatype load_error =
    LOs os_error
  | LScan scan_error
  | LNoList string

definition laddPrefix :: string where
  "laddPrefix = ''LADD_Industry_Filter''"

text \<open>\<^verbatim>\<open>dateInName\<close>, the regular expression \<^verbatim>\<open>(\d{8})\.txt$\<close>: its only possible match ends
  at the end of the name, so the group is the eight bytes before the extension.\<close>

definition dateInName :: "string \<Rightarrow> string option" where
  "dateInName name =
     (let ds = take 8 (drop (length name - 12) name)
      in if 12 \<le> length name \<and> HasSuffix name ''.txt'' \<and> list_all is_digit ds
         then Some ds else None)"

definition publishDate :: "string \<Rightarrow> gotime option" where
  "publishDate name = (case dateInName name of None \<Rightarrow> None | Some ds \<Rightarrow> parseYYYYMMDD ds)"

text \<open>The loop of \<^verbatim>\<open>newestDated\<close>, over the directory entries.\<close>

fun newest_loop :: "string \<times> gotime \<Rightarrow> dirent list \<Rightarrow> string \<times> gotime" where
  "newest_loop best [] = best"
| "newest_loop (name, date) ((n, e) # es) =
     (if e = Dir then newest_loop (name, date) es
      else if \<not> HasPrefix n laddPrefix then newest_loop (name, date) es
      else (case publishDate n of
              None \<Rightarrow> newest_loop (name, date) es
            | Some d \<Rightarrow> if After d date then newest_loop (n, d) es else newest_loop (name, date) es))"

definition newestDated :: "osenv \<Rightarrow> fsys \<Rightarrow> string \<Rightarrow> os_error + (string \<times> gotime)" where
  "newestDated env fs dir =
     (case ReadDir env fs dir of
        Inl e \<Rightarrow> if e = ErrNotExist then Inr ([], zeroTime) else Inl e
      | Inr es \<Rightarrow> Inr (newest_loop ([], zeroTime) es))"

definition loadFile :: "(string \<Rightarrow> string) \<Rightarrow> osenv \<Rightarrow> fsys \<Rightarrow> string \<Rightarrow> string \<Rightarrow> load_error + ladd_set" where
  "loadFile u env fs dir name =
     (case ReadFile env fs dir name of
        Inl e \<Rightarrow> Inl (LOs e)
      | Inr c \<Rightarrow>
          (case ScanLines c of
             (_, Some e) \<Rightarrow> Inl (LScan e)
           | (ts, None) \<Rightarrow> Inr (NewSet u (List.map_filter list_line ts))))"

definition LoadLatest :: "(string \<Rightarrow> string) \<Rightarrow> osenv \<Rightarrow> fsys \<Rightarrow> string \<Rightarrow>
    load_error + (ladd_set \<times> gotime)" where
  "LoadLatest u env fs dir =
     (case newestDated env fs dir of
        Inl e \<Rightarrow> Inl (LOs e)
      | Inr (name, date) \<Rightarrow>
          if name = [] then Inl (LNoList dir)
          else (case loadFile u env fs dir name of
                  Inl e \<Rightarrow> Inl e
                | Inr st \<Rightarrow> Inr (st, date)))"

section \<open>Which file is the newest\<close>

text \<open>A candidate is a regular file with the list prefix and a date after the zero time.\<close>

definition candidate :: "dirent \<Rightarrow> gotime \<Rightarrow> bool" where
  "candidate p d \<longleftrightarrow> snd p \<noteq> Dir \<and> HasPrefix (fst p) laddPrefix \<and> publishDate (fst p) = Some d"

lemma newest_loop_Cons:
  "newest_loop best (p # es) =
     newest_loop (if \<exists>d. candidate p d \<and> After d (snd best)
                  then (fst p, the (publishDate (fst p))) else best) es"
  by (cases p; cases best) (auto simp: candidate_def split: option.splits)

text \<open>The result is the seed, or a candidate later than the seed; and no candidate is later
  than the result.\<close>

lemma newest_loop_spec:
  assumes "newest_loop best es = (n, d)"
  shows "((n, d) = best \<or> (\<exists>p \<in> set es. fst p = n \<and> candidate p d \<and> After d (snd best)))
       \<and> snd best \<le> d \<and> (\<forall>p \<in> set es. \<forall>d'. candidate p d' \<longrightarrow> d' \<le> d)"
  using assms
proof (induction es arbitrary: best)
  case Nil
  then show ?case by auto
next
  case (Cons p es)
  show ?case
  proof (cases "\<exists>d'. candidate p d' \<and> After d' (snd best)")
    case True
    then obtain d' where d': "candidate p d'" "After d' (snd best)" "publishDate (fst p) = Some d'"
      by (auto simp: candidate_def)
    have "newest_loop (fst p, d') es = (n, d)"
      using Cons.prems unfolding newest_loop_Cons if_P [OF True] by (simp add: d'(3))
    from Cons.IH [OF this] d' show ?thesis
      by (fastforce simp: After_def candidate_def)
  next
    case False
    with Cons.prems have "newest_loop best es = (n, d)"
      by (simp add: newest_loop_Cons)
    from Cons.IH [OF this] False show ?thesis
      by (fastforce simp: After_def)
  qed
qed

lemma HasPrefix_ladd_nonempty: "HasPrefix n laddPrefix \<Longrightarrow> n \<noteq> []"
  by (auto simp: HasPrefix_def laddPrefix_def)

lemma newestDated_Inr:
  assumes "newestDated env fs dir = Inr (n, d)"
  shows "(n = [] \<and> d = zeroTime \<or>
          (\<exists>e. (n, e) \<in> set (dir_entries fs dir) \<and> candidate (n, e) d \<and> After d zeroTime \<and> n \<noteq> []))
       \<and> (\<forall>p \<in> set (dir_entries fs dir). \<forall>d'. candidate p d' \<longrightarrow> d' \<le> d)"
proof (cases "ReadDir env fs dir")
  case (Inl e)
  with assms show ?thesis
    by (auto simp: newestDated_def ReadDir_def dir_entries_def split: if_splits option.splits)
next
  case (Inr es)
  with assms have loop: "newest_loop ([], zeroTime) es = (n, d)"
    by (simp add: newestDated_def)
  from Inr have es: "set es = set (dir_entries fs dir)"
    by (auto simp: ReadDir_def dir_entries_def split: option.splits)
  from newest_loop_spec [OF loop] es show ?thesis
    by (auto simp: candidate_def dest: HasPrefix_ladd_nonempty)
qed

lemma LoadLatest_Inr:
  assumes "LoadLatest u env fs dir = Inr (st, d)"
  obtains n where "newestDated env fs dir = Inr (n, d)" "n \<noteq> []" "loadFile u env fs dir n = Inr st"
  using assms by (auto simp: LoadLatest_def split: sum.splits prod.splits if_splits)

lemma LoadLatest_date_positive: "LoadLatest u env fs dir = Inr (st, d) \<Longrightarrow> After d zeroTime"
  by (elim LoadLatest_Inr) (auto dest: newestDated_Inr)

lemma loadFile_wf [inv_intros]: "loadFile u env fs dir n = Inr st \<Longrightarrow> wf_set st"
  by (auto simp: loadFile_def NewSet_wf split: sum.splits prod.splits option.splits)

lemma LoadLatest_wf [inv_intros]: "LoadLatest u env fs dir = Inr (st, d) \<Longrightarrow> wf_set st"
  by (elim LoadLatest_Inr) (rule loadFile_wf)

text \<open>What a loaded list blocks, in terms of the lines of its file.\<close>

lemma loadFile_Inr:
  assumes "loadFile u env fs dir n = Inr st"
  obtains c where "stat fs dir n = Some (File c)" "snd (ScanLines c) = None"
    "st = NewSet u (List.map_filter list_line (map dropCR (raw_lines c)))"
proof -
  from assms obtain c ts where c: "ReadFile env fs dir n = Inr c" "ScanLines c = (ts, None)"
      "st = NewSet u (List.map_filter list_line ts)"
    by (auto simp: loadFile_def split: sum.splits prod.splits option.splits)
  moreover from c(1) have "stat fs dir n = Some (File c)"
    by (auto simp: ReadFile_def split: option.splits fentry.splits)
  moreover from c(2) have "ts = map dropCR (raw_lines c)"
    using scan_tokens_all [of "raw_lines c"] by (simp add: ScanLines_def)
  ultimately show thesis using that by simp
qed

end
