(* ===== verification/Ladd_Promote.thy ===== *)
theory Ladd_Promote
  imports Ladd_Loader
begin

text \<open>
  The life of a list file on disk (filter/internal/ladd/promote.go): a delivered file is
  moved from staging to active when it is newer than every active list, and superseded
  files are moved to the archive under a name that is not taken there.
\<close>

section \<open>Model\<close>

record Dirs =
  Staging :: string
  Active :: string
  Archived :: string

text \<open>\<^verbatim>\<open>filepath.Ext\<close> of a base name: from its last dot on.\<close>

definition Ext :: "string \<Rightarrow> string" where
  "Ext s = (let r = rev s; p = takeWhile (\<lambda>c. c \<noteq> CHR ''.'' \<and> c \<noteq> CHR ''/'') r
            in case drop (length p) r of
                 c # _ \<Rightarrow> if c = CHR ''.'' then rev (p @ [c]) else []
               | [] \<Rightarrow> [])"

text \<open>\<^verbatim>\<open>fmt.Sprintf("%s.%d%s", stem, i, ext)\<close>.\<close>

definition numbered :: "string \<Rightarrow> string \<Rightarrow> nat \<Rightarrow> string" where
  "numbered stem ext i = stem @ ''.'' @ show_nat i @ ext"

lemma numbered_inj: "inj (numbered stem ext)"
  by (rule injI) (auto simp: numbered_def dest: show_nat_inject)

lemma finite_taken: "finite {j. i \<le> j \<and> numbered stem ext j \<in> set names}"
  by (rule finite_subset [OF _ finite_vimageI [OF finite_set numbered_inj]]) auto

text \<open>
  The loop of \<^verbatim>\<open>uniquePath\<close>: it counts up to the first candidate that is not taken. The
  names taken are finite and the candidates are pairwise different, so it stops.
\<close>

function unique_from :: "string list \<Rightarrow> string \<Rightarrow> string \<Rightarrow> nat \<Rightarrow> string" where
  "unique_from names stem ext i =
     (if List.member names (numbered stem ext i) then unique_from names stem ext (Suc i)
      else numbered stem ext i)"
  by pat_completeness auto
termination
proof (relation "measure (\<lambda>(names, stem, ext, i). card {j. i \<le> j \<and> numbered stem ext j \<in> set names})")
  fix names stem ext i
  assume "List.member names (numbered stem ext i)"
  then have "i \<in> {j. i \<le> j \<and> numbered stem ext j \<in> set names}" by simp
  moreover have "i \<notin> {j. Suc i \<le> j \<and> numbered stem ext j \<in> set names}" by simp
  moreover have "{j. Suc i \<le> j \<and> numbered stem ext j \<in> set names}
      \<subseteq> {j. i \<le> j \<and> numbered stem ext j \<in> set names}" by auto
  ultimately have "{j. Suc i \<le> j \<and> numbered stem ext j \<in> set names}
      \<subset> {j. i \<le> j \<and> numbered stem ext j \<in> set names}" by blast
  then show "((names, stem, ext, Suc i), names, stem, ext, i)
      \<in> measure (\<lambda>(names, stem, ext, i). card {j. i \<le> j \<and> numbered stem ext j \<in> set names})"
    by (simp add: psubset_card_mono finite_taken)
qed simp

declare unique_from.simps [simp del]

definition uniquePath :: "fsys \<Rightarrow> string \<Rightarrow> string \<Rightarrow> string" where
  "uniquePath fs dir name =
     (if stat fs dir name = None then name
      else (let ext = Ext name; stem = TrimSuffix name ext
            in unique_from (map fst (dir_entries fs dir)) stem ext 1))"

definition copyFile :: "osenv \<Rightarrow> string \<Rightarrow> string \<Rightarrow> string \<Rightarrow> string \<Rightarrow> fsys \<Rightarrow> os_error err \<times> fsys" where
  "copyFile env sd sn dd dn fs =
     (case open_fault env sd sn of
        Some e \<Rightarrow> (Some e, fs)
      | None \<Rightarrow> (case stat fs sd sn of
          None \<Rightarrow> (Some ErrNotExist, fs)
        | Some ent \<Rightarrow> (case create_fault env dd dn of
            Some e \<Rightarrow> (Some e, fs)
          | None \<Rightarrow> (case ent of
              Dir \<Rightarrow> (Some (OSFault ''is a directory''), put dd dn (File []) fs)
            | File c \<Rightarrow> (case copy_fault env sd sn of
                Some (e, k) \<Rightarrow> (Some e, put dd dn (File (take k c)) fs)
              | None \<Rightarrow> (close_fault env dd dn, put dd dn (File c) fs))))))"

definition moveInto :: "osenv \<Rightarrow> string \<Rightarrow> string \<Rightarrow> string \<Rightarrow> fsys \<Rightarrow> os_error err \<times> fsys" where
  "moveInto env destDir sd sn fs =
     (case MkdirAll env destDir fs of
        (Some e, fs1) \<Rightarrow> (Some e, fs1)
      | (None, fs1) \<Rightarrow>
          (let dest = uniquePath fs1 destDir sn
           in case Rename env sd sn destDir dest fs1 of
                (None, fs2) \<Rightarrow> (None, fs2)
              | (Some _, _) \<Rightarrow>
                  (case copyFile env sd sn destDir dest fs1 of
                     (Some e, fs2) \<Rightarrow> (Some e, fs2)
                   | (None, fs2) \<Rightarrow> Remove env sd sn fs2)))"

fun archive_loop :: "osenv \<Rightarrow> string \<Rightarrow> string \<Rightarrow> string \<Rightarrow> dirent list \<Rightarrow> fsys \<Rightarrow> fsys" where
  "archive_loop env dir archiveDir keep [] fs = fs"
| "archive_loop env dir archiveDir keep ((n, e) # es) fs =
     (if e = Dir \<or> n = keep then archive_loop env dir archiveDir keep es fs
      else if \<not> HasPrefix n laddPrefix then archive_loop env dir archiveDir keep es fs
      else archive_loop env dir archiveDir keep es (snd (moveInto env archiveDir dir n fs)))"

definition archiveLADD :: "osenv \<Rightarrow> string \<Rightarrow> string \<Rightarrow> string \<Rightarrow> fsys \<Rightarrow> fsys" where
  "archiveLADD env dir archiveDir keep fs =
     (case ReadDir env fs dir of
        Inl _ \<Rightarrow> fs
      | Inr es \<Rightarrow> archive_loop env dir archiveDir keep es fs)"

datatype promote_error =
    ScanningStaging os_error
  | ScanningActive os_error
  | PromotingToActive string os_error

definition Promote :: "osenv \<Rightarrow> Dirs \<Rightarrow> fsys \<Rightarrow> (promote_error + string) \<times> fsys" where
  "Promote env d fs =
     (case newestDated env fs (Staging d) of
        Inl e \<Rightarrow> (Inl (ScanningStaging e), fs)
      | Inr (stagedName, stagedDate) \<Rightarrow>
          if stagedName = [] then (Inr [], fs)
          else (case newestDated env fs (Active d) of
              Inl e \<Rightarrow> (Inl (ScanningActive e), fs)
            | Inr (_, activeDate) \<Rightarrow>
                if \<not> After stagedDate activeDate
                then (Inr [], snd (moveInto env (Archived d) (Staging d) stagedName fs))
                else (case moveInto env (Active d) (Staging d) stagedName fs of
                    (Some e, fs1) \<Rightarrow> (Inl (PromotingToActive stagedName e), fs1)
                  | (None, fs1) \<Rightarrow>
                      (let fs2 = archiveLADD env (Active d) (Archived d) stagedName fs1;
                           fs3 = archiveLADD env (Staging d) (Archived d) [] fs2
                       in (Inr stagedName, fs3)))))"

section \<open>The chosen name is free\<close>

lemma unique_from_fresh: "unique_from names stem ext i \<notin> set names"
proof (induction names stem ext i rule: unique_from.induct)
  case (1 names stem ext i)
  then show ?case
    by (simp add: unique_from.simps [of names stem ext i])
qed

lemma stat_None_iff: "stat fs d n = None \<longleftrightarrow> n \<notin> set (map fst (dir_entries fs d))"
  by (simp add: stat_def map_of_eq_None_iff)

lemma uniquePath_fresh: "stat fs dir (uniquePath fs dir name) = None"
  using unique_from_fresh [of "map fst (dir_entries fs dir)"]
  by (simp add: uniquePath_def Let_def stat_None_iff)

lemma uniquePath_free: "stat fs dir name = None \<Longrightarrow> uniquePath fs dir name = name"
  by (simp add: uniquePath_def)

section \<open>Moves never lose a file\<close>

text \<open>
  The promise of the archive: whatever faults occur, no operation destroys the content of
  a file. The interface is a move on a state with a bag of contents; the fold over many
  moves is proved once.
\<close>

locale content_keeper =
  fixes ok :: "'s \<Rightarrow> bool" and bag :: "'s \<Rightarrow> 'c multiset" and move :: "'k \<Rightarrow> 's \<Rightarrow> 's"
  assumes move_ok: "ok s \<Longrightarrow> ok (move k s)"
    and move_bag: "ok s \<Longrightarrow> bag s \<subseteq># bag (move k s)"
begin

lemma moves_ok: "ok s \<Longrightarrow> ok (fold move ks s)"
  by (induction ks arbitrary: s) (auto simp: move_ok)

lemma moves_bag: "ok s \<Longrightarrow> bag s \<subseteq># bag (fold move ks s)"
proof (induction ks arbitrary: s)
  case (Cons k ks)
  have "bag s \<subseteq># bag (move k s)" by (rule move_bag [OF Cons.prems])
  also have "\<dots> \<subseteq># bag (fold move ks (move k s))"
    by (rule Cons.IH) (rule move_ok [OF Cons.prems])
  finally show ?case by simp
qed simp

end

lemma wf_disk_copyFile:
  "wf_disk fs \<Longrightarrow> wf_disk (snd (copyFile env sd sn dd dn fs))"
  by (auto simp: copyFile_def wf_disk_put split: option.splits fentry.splits)

lemma disk_bag_copyFile:
  "wf_disk fs \<Longrightarrow> stat fs dd dn = None \<Longrightarrow> disk_bag fs \<subseteq># disk_bag (snd (copyFile env sd sn dd dn fs))"
  by (auto simp: copyFile_def disk_bag_put_fresh split: option.splits fentry.splits)

lemma copyFile_ok:
  assumes "copyFile env sd sn dd dn fs = (None, fs')"
  obtains c where "stat fs sd sn = Some (File c)" "fs' = put dd dn (File c) fs"
  using assms by (auto simp: copyFile_def split: option.splits fentry.splits)

lemma wf_disk_Remove: "wf_disk fs \<Longrightarrow> wf_disk (snd (Remove env d n fs))"
  by (auto simp: Remove_def wf_disk_del split: option.splits)

lemma disk_bag_Remove_copied:
  assumes "wf_disk fs" "stat fs dd dn = None" "stat fs sd sn = Some (File c)"
  shows "disk_bag fs \<subseteq># disk_bag (snd (Remove env sd sn (put dd dn (File c) fs)))"
proof -
  let ?fs = "put dd dn (File c) fs"
  have wf: "wf_disk ?fs" using assms(1) by (rule wf_disk_put)
  have "stat ?fs sd sn = Some (File c)" using assms by simp
  then have "add_mset c (disk_bag fs) = add_mset c (disk_bag (del sd sn ?fs))"
    using disk_bag_del [OF wf] disk_bag_put_fresh [OF assms(1,2), of "File c"] by simp
  then show ?thesis
    by (auto simp: Remove_def disk_bag_put_fresh [OF assms(1,2)] split: option.splits)
qed

lemma wf_disk_Rename: "wf_disk fs \<Longrightarrow> wf_disk (snd (Rename env sd sn dd dn fs))"
  by (auto simp: Rename_def wf_disk_put wf_disk_del split: option.splits)

lemma disk_bag_Rename:
  assumes "wf_disk fs" "stat fs dd dn = None"
  shows "disk_bag (snd (Rename env sd sn dd dn fs)) = disk_bag fs"
proof (cases "rename_fault env sd sn = None \<and> stat fs sd sn \<noteq> None")
  case True
  then obtain e where e: "stat fs sd sn = Some e" "rename_fault env sd sn = None" by auto
  have "disk_bag (put dd dn e (del sd sn fs)) = entry_bag e + disk_bag (del sd sn fs)"
    using assms by (intro disk_bag_put_fresh) (auto simp: wf_disk_del)
  also have "\<dots> = disk_bag fs" by (simp add: disk_bag_del [OF assms(1) e(1)])
  finally show ?thesis by (simp add: Rename_def e)
next
  case False
  then show ?thesis by (auto simp: Rename_def split: option.splits)
qed

lemma moveInto_keeps:
  assumes wf: "wf_disk fs"
  shows "wf_disk (snd (moveInto env dd sd sn fs)) \<and> disk_bag fs \<subseteq># disk_bag (snd (moveInto env dd sd sn fs))"
proof -
  obtain r fs1 where mk: "MkdirAll env dd fs = (r, fs1)" by (cases "MkdirAll env dd fs")
  have wf1: "wf_disk fs1" and bag1: "disk_bag fs1 = disk_bag fs"
    using wf_disk_MkdirAll [OF wf, of env dd] disk_bag_MkdirAll [OF wf, of env dd] mk by auto
  let ?dest = "uniquePath fs1 dd sn"
  have fresh: "stat fs1 dd ?dest = None" by (rule uniquePath_fresh)
  obtain q fs2 where rn: "Rename env sd sn dd ?dest fs1 = (q, fs2)"
    by (cases "Rename env sd sn dd ?dest fs1")
  obtain p fs3 where cp: "copyFile env sd sn dd ?dest fs1 = (p, fs3)"
    by (cases "copyFile env sd sn dd ?dest fs1")
  consider (fail) e where "r = Some e" | (renamed) "r = None" "q = None"
    | (copied) "r = None" "q \<noteq> None" "p = None" | (partial) e where "r = None" "q \<noteq> None" "p = Some e"
    by (cases r; cases q; cases p) auto
  then show ?thesis
  proof cases
    case fail
    then show ?thesis by (simp add: moveInto_def mk wf1 bag1)
  next
    case renamed
    have "wf_disk fs2" "disk_bag fs2 = disk_bag fs"
      using wf_disk_Rename [OF wf1, of env sd sn dd ?dest] disk_bag_Rename [OF wf1 fresh, of env sd sn]
        rn bag1 by auto
    with renamed show ?thesis by (simp add: moveInto_def mk rn Let_def)
  next
    case copied
    with cp obtain c where c: "stat fs1 sd sn = Some (File c)" "fs3 = put dd ?dest (File c) fs1"
      by (auto elim: copyFile_ok)
    with copied show ?thesis
      using wf_disk_Remove [OF wf_disk_put [OF wf1]] disk_bag_Remove_copied [OF wf1 fresh c(1), of env]
      by (auto simp: moveInto_def mk rn cp Let_def bag1)
  next
    case partial
    then show ?thesis
      using wf_disk_copyFile [OF wf1, of env sd sn dd ?dest]
        disk_bag_copyFile [OF wf1 fresh, of env sd sn] cp bag1
      by (auto simp: moveInto_def mk rn Let_def)
  qed
qed

interpretation mv: content_keeper wf_disk disk_bag
    "\<lambda>(env, dd, sd, sn) fs. snd (moveInto env dd sd sn fs)"
  by unfold_locales (auto simp: moveInto_keeps)

lemma archive_loop_fold:
  "archive_loop env dir arch keep es fs =
     fold (\<lambda>(env, dd, sd, sn) fs. snd (moveInto env dd sd sn fs))
       (map (\<lambda>p. (env, arch, dir, fst p))
          (filter (\<lambda>p. snd p \<noteq> Dir \<and> fst p \<noteq> keep \<and> HasPrefix (fst p) laddPrefix) es)) fs"
  by (induction env dir arch keep es fs rule: archive_loop.induct) auto

lemma archiveLADD_keeps:
  "wf_disk fs \<Longrightarrow> wf_disk (archiveLADD env dir arch keep fs) \<and>
     disk_bag fs \<subseteq># disk_bag (archiveLADD env dir arch keep fs)"
  by (auto simp: archiveLADD_def archive_loop_fold mv.moves_ok mv.moves_bag split: sum.splits)

lemma Promote_keeps:
  assumes wf: "wf_disk fs"
  shows "wf_disk (snd (Promote env d fs)) \<and> disk_bag fs \<subseteq># disk_bag (snd (Promote env d fs))"
proof -
  let ?S = "Staging d" and ?A = "Active d" and ?R = "Archived d"
  have final: "wf_disk (archiveLADD env ?S ?R [] (archiveLADD env ?A ?R n fs1)) \<and>
      disk_bag fs \<subseteq># disk_bag (archiveLADD env ?S ?R [] (archiveLADD env ?A ?R n fs1))"
    if "wf_disk fs1" "disk_bag fs \<subseteq># disk_bag fs1" for n fs1
    using archiveLADD_keeps [OF that(1), of env ?A ?R n] that(2)
      archiveLADD_keeps [of "archiveLADD env ?A ?R n fs1" env ?S ?R "[]"]
    by (meson subset_mset.order_trans)
  have moved: "wf_disk fs1 \<and> disk_bag fs \<subseteq># disk_bag fs1" if "moveInto env dd sd n fs = (r, fs1)"
    for dd sd n r fs1
    using moveInto_keeps [OF wf, of env dd sd n] that by simp
  show ?thesis
    using wf by (auto simp: Promote_def Let_def moveInto_keeps
        split: sum.splits prod.splits option.splits dest: moved intro: final [THEN conjunct1] final [THEN conjunct2])
qed

section \<open>What a move changes\<close>

lemma uniquePath_MkdirAll [simp]:
  "uniquePath (snd (MkdirAll env d fs)) dir name = uniquePath fs dir name"
  by (simp add: uniquePath_def)

lemma stat_put_del_Rename:
  "stat (snd (Rename env sd sn dd dn fs)) d n = Some e \<Longrightarrow>
     stat fs d n = Some e \<or> d = dd \<and> n = dn"
  by (auto simp: Rename_def split: option.splits if_splits)

lemma stat_Rename_keeps:
  "stat fs d n = Some e \<Longrightarrow> stat fs dd dn = None \<Longrightarrow> (d, n) \<noteq> (sd, sn) \<Longrightarrow>
     stat (snd (Rename env sd sn dd dn fs)) d n = Some e"
  by (auto simp: Rename_def split: option.splits)

lemma stat_copyFile:
  "stat (snd (copyFile env sd sn dd dn fs)) d n =
     (if (d, n) = (dd, dn) then stat (snd (copyFile env sd sn dd dn fs)) dd dn else stat fs d n)"
  by (auto simp: copyFile_def split: option.splits fentry.splits)

lemma stat_Remove: "stat (snd (Remove env sd sn fs)) d n = Some e \<Longrightarrow> stat fs d n = Some e"
  by (auto simp: Remove_def split: option.splits if_splits)

lemma stat_Remove_keeps:
  "stat fs d n = Some e \<Longrightarrow> (d, n) \<noteq> (sd, sn) \<Longrightarrow> stat (snd (Remove env sd sn fs)) d n = Some e"
  by (auto simp: Remove_def split: option.splits)

lemmas moveInto_unfold = moveInto_def [unfolded case_prod_unfold Let_def]

text \<open>A move overwrites nothing: every other file is still there with its content.\<close>

lemma moveInto_overwrites_nothing:
  assumes "stat fs d n = Some e" and "(d, n) \<noteq> (sd, sn)"
  shows "stat (snd (moveInto env dd sd sn fs)) d n = Some e"
proof -
  let ?fs1 = "snd (MkdirAll env dd fs)" and ?dest = "uniquePath fs dd sn"
  have s1: "stat ?fs1 d n = Some e" using assms(1) by simp
  have fresh: "stat ?fs1 dd ?dest = None" by (simp add: uniquePath_fresh)
  then have cp: "stat (snd (copyFile env sd sn dd ?dest ?fs1)) d n = Some e"
    using s1 by (subst stat_copyFile) auto
  show ?thesis
    using s1 stat_Rename_keeps [OF s1 fresh assms(2), of env] cp
      stat_Remove_keeps [OF cp assms(2), of env]
    by (auto simp: moveInto_unfold split: option.splits)
qed

text \<open>The only entry a move adds is the destination it chose.\<close>

lemma moveInto_adds_only_dest:
  assumes "stat (snd (moveInto env dd sd sn fs)) d n = Some e"
  shows "stat fs d n = Some e \<or> d = dd \<and> n = uniquePath fs dd sn"
proof -
  let ?fs1 = "snd (MkdirAll env dd fs)" and ?dest = "uniquePath fs dd sn"
  have cp: "stat (snd (copyFile env sd sn dd ?dest ?fs1)) d n = Some e \<Longrightarrow>
      stat fs d n = Some e \<or> d = dd \<and> n = ?dest"
    by (subst (asm) stat_copyFile) (auto split: if_splits)
  show ?thesis
    using assms stat_put_del_Rename [of env sd sn dd ?dest ?fs1 d n e] cp
      stat_Remove [of env sd sn "snd (copyFile env sd sn dd ?dest ?fs1)" d n e]
    by (auto simp: moveInto_unfold split: option.splits)
qed

lemma moveInto_success:
  assumes "moveInto env dd sd sn fs = (None, fs')"
  obtains e where "stat fs sd sn = Some e" "stat fs' dd (uniquePath fs dd sn) = Some e"
    "stat fs' sd sn = None"
proof -
  let ?fs1 = "snd (MkdirAll env dd fs)" and ?dest = "uniquePath fs dd sn"
  have mk: "fst (MkdirAll env dd fs) = None"
    using assms by (auto simp: moveInto_unfold split: option.splits)
  have fresh: "stat fs dd ?dest = None" by (simp add: uniquePath_fresh)
  show thesis
  proof (cases "fst (Rename env sd sn dd ?dest ?fs1)")
    case None
    with assms mk have fs': "fs' = snd (Rename env sd sn dd ?dest ?fs1)"
      by (simp add: moveInto_unfold)
    from None obtain e where "stat fs sd sn = Some e" "rename_fault env sd sn = None"
      by (auto simp: Rename_def split: option.splits)
    moreover from this fresh have "\<not> (sd = dd \<and> sn = ?dest)" by auto
    ultimately show thesis using that [of e] by (simp add: fs' Rename_def)
  next
    case (Some x)
    let ?cp = "copyFile env sd sn dd ?dest ?fs1"
    have cp: "fst ?cp = None" and rm: "Remove env sd sn (snd ?cp) = (None, fs')"
      using assms mk Some by (auto simp: moveInto_unfold split: option.splits)
    from cp obtain c where c: "stat fs sd sn = Some (File c)" "snd ?cp = put dd ?dest (File c) ?fs1"
      by (metis copyFile_ok prod.collapse stat_MkdirAll)
    with rm fresh that [of "File c"] show thesis
      by (auto simp: Remove_def split: option.splits if_splits)
  qed
qed

section \<open>What archiving changes\<close>

text \<open>
  The effect of archiving \<open>dir\<close> into \<open>arch\<close>: the kept entry stays as it is, nothing appears
  outside \<open>arch\<close>, and nothing disappears outside \<open>dir\<close>.
\<close>

definition archived :: "string \<Rightarrow> string \<Rightarrow> string \<Rightarrow> fsys \<Rightarrow> fsys \<Rightarrow> bool" where
  "archived dir arch keep fs fs' \<longleftrightarrow>
     stat fs' dir keep = stat fs dir keep \<and>
     (\<forall>d n e. d \<noteq> arch \<longrightarrow> stat fs' d n = Some e \<longrightarrow> stat fs d n = Some e) \<and>
     (\<forall>d n e. d \<noteq> dir \<longrightarrow> stat fs d n = Some e \<longrightarrow> stat fs' d n = Some e)"

lemma archived_keep: "archived dir arch keep fs fs' \<Longrightarrow> stat fs' dir keep = stat fs dir keep"
  by (simp add: archived_def)

lemma archived_shrinks:
  "archived dir arch keep fs fs' \<Longrightarrow> d \<noteq> arch \<Longrightarrow> stat fs' d n = Some e \<Longrightarrow> stat fs d n = Some e"
  unfolding archived_def by blast

lemma archived_grows:
  "archived dir arch keep fs fs' \<Longrightarrow> d \<noteq> dir \<Longrightarrow> stat fs d n = Some e \<Longrightarrow> stat fs' d n = Some e"
  unfolding archived_def by blast

lemma archived_refl: "archived dir arch keep fs fs"
  by (simp add: archived_def)

lemma archived_trans:
  "archived dir arch keep fs1 fs2 \<Longrightarrow> archived dir arch keep fs2 fs3 \<Longrightarrow> archived dir arch keep fs1 fs3"
  unfolding archived_def by metis

lemma archived_move:
  assumes "dir \<noteq> arch" "n \<noteq> keep"
  shows "archived dir arch keep fs (snd (moveInto env arch dir n fs))"
proof -
  let ?fs = "snd (moveInto env arch dir n fs)"
  have "stat ?fs dir keep = stat fs dir keep"
  proof (cases "stat fs dir keep")
    case None
    then show ?thesis
      using moveInto_adds_only_dest [of env arch dir n fs dir keep] assms(1)
      by (cases "stat ?fs dir keep") auto
  next
    case (Some x)
    then show ?thesis using moveInto_overwrites_nothing [OF Some, of dir n] assms(2) by auto
  qed
  moreover have "stat ?fs d m = Some x \<Longrightarrow> d \<noteq> arch \<Longrightarrow> stat fs d m = Some x" for d m x
    using moveInto_adds_only_dest by blast
  moreover have "stat fs d m = Some x \<Longrightarrow> d \<noteq> dir \<Longrightarrow> stat ?fs d m = Some x" for d m x
    by (rule moveInto_overwrites_nothing) auto
  ultimately show ?thesis unfolding archived_def by blast
qed

lemma archived_loop: "dir \<noteq> arch \<Longrightarrow> archived dir arch keep fs (archive_loop env dir arch keep es fs)"
proof (induction env dir arch keep es fs rule: archive_loop.induct)
  case (1 env dir arch keep fs)
  show ?case by (simp add: archived_refl)
next
  case (2 env dir arch keep n e es fs)
  show ?case
  proof (cases "e = Dir \<or> n = keep \<or> \<not> HasPrefix n laddPrefix")
    case True
    with 2 show ?thesis by auto
  next
    case False
    then have "archived dir arch keep (snd (moveInto env arch dir n fs))
        (archive_loop env dir arch keep es (snd (moveInto env arch dir n fs)))"
      using 2 by blast
    moreover from False have "n \<noteq> keep" by simp
    ultimately have "archived dir arch keep fs
        (archive_loop env dir arch keep es (snd (moveInto env arch dir n fs)))"
      by (metis archived_trans archived_move "2.prems")
    with False show ?thesis by simp
  qed
qed

lemma archived_archiveLADD: "dir \<noteq> arch \<Longrightarrow> archived dir arch keep fs (archiveLADD env dir arch keep fs)"
  by (auto simp: archiveLADD_def archived_refl archived_loop split: sum.splits)

section \<open>Promotion installs the staged list\<close>

lemma newestDated_unique:
  assumes wf: "wf_disk fs" and nof: "readdir_fault env dir = None"
    and cand: "stat fs dir n = Some e" "candidate (n, e) d" "After d zeroTime"
    and others: "\<And>m x d'. stat fs dir m = Some x \<Longrightarrow> candidate (m, x) d' \<Longrightarrow> m = n \<or> d' < d"
  shows "newestDated env fs dir = Inr (n, d)"
proof -
  have entry: "stat fs dir m = Some x \<longleftrightarrow> (m, x) \<in> set (dir_entries fs dir)" for m x
    using wf by (simp add: wf_disk_def stat_iff_entry)
  have "\<exists>es. ReadDir env fs dir = Inr es"
    using nof cand(1) by (auto simp: ReadDir_def stat_def dir_entries_def split: option.splits)
  then obtain m dm where nd: "newestDated env fs dir = Inr (m, dm)"
    by (auto simp: newestDated_def) (metis surj_pair)
  from newestDated_Inr [OF nd] cand entry have le: "d \<le> dm" by auto
  with newestDated_Inr [OF nd] cand(3) obtain x where x: "(m, x) \<in> set (dir_entries fs dir)"
      "candidate (m, x) dm"
    by (auto simp: After_def)
  with others [of m x dm] entry le have "m = n" by auto
  moreover from this x(2) cand(2) have "dm = d" by (simp add: candidate_def)
  ultimately show ?thesis using nd by simp
qed

lemma Promote_Inr:
  assumes "Promote env d fs = (Inr n, fs')" "n \<noteq> []"
  obtains date m activeDate fs1 where
    "newestDated env fs (Staging d) = Inr (n, date)"
    "newestDated env fs (Active d) = Inr (m, activeDate)" "After date activeDate"
    "moveInto env (Active d) (Staging d) n fs = (None, fs1)"
    "fs' = archiveLADD env (Staging d) (Archived d) [] (archiveLADD env (Active d) (Archived d) n fs1)"
  using assms by (auto simp: Promote_def Let_def split: sum.splits prod.splits if_splits option.splits)

lemma Promote_installs:
  assumes wf: "wf_disk fs" and P: "Promote env d fs = (Inr n, fs')" "n \<noteq> []"
    and dirs: "Active d \<noteq> Staging d" "Active d \<noteq> Archived d" "Staging d \<noteq> Archived d"
    and nof: "readdir_fault env (Active d) = None" and nodir: "stat fs (Active d) n \<noteq> Some Dir"
  obtains date c where "newestDated env fs (Staging d) = Inr (n, date)"
    "stat fs (Staging d) n = Some (File c)" "stat fs' (Active d) n = Some (File c)"
    "newestDated env fs' (Active d) = Inr (n, date)"
proof -
  let ?A = "Active d"
  from P obtain date m activeDate fs1 where st: "newestDated env fs (Staging d) = Inr (n, date)"
      and ac: "newestDated env fs ?A = Inr (m, activeDate)" and newer: "After date activeDate"
      and mv: "moveInto env ?A (Staging d) n fs = (None, fs1)"
      and fs': "fs' = archiveLADD env (Staging d) (Archived d) [] (archiveLADD env ?A (Archived d) n fs1)"
    by (rule Promote_Inr)
  have entry: "stat fs x y = Some e \<longleftrightarrow> (y, e) \<in> set (dir_entries fs x)" for x y e
    using wf by (simp add: wf_disk_def stat_iff_entry)
  from newestDated_Inr [OF st] P(2) obtain e where e: "stat fs (Staging d) n = Some e"
      and cand: "candidate (n, e) date" and pos: "After date zeroTime"
    by (auto simp: entry)
  from cand obtain c where c: "e = File c" by (cases e) (auto simp: candidate_def)
  have old: "d' < date" if "stat fs ?A k = Some x" "candidate (k, x) d'" for k x d'
    using newestDated_Inr [OF ac] that newer entry by (force simp: After_def)
  have free: "stat fs ?A n = None"
  proof (cases "stat fs ?A n")
    case (Some x)
    with nodir cand c have "candidate (n, x) date" by (cases x) (auto simp: candidate_def)
    with old [OF Some] show ?thesis by blast
  qed simp
  from mv have fs1: "stat fs1 ?A n = Some (File c)"
    by (elim moveInto_success) (use e c free uniquePath_free in auto)
  have shifted: "archived ?A (Archived d) n fs1 (archiveLADD env ?A (Archived d) n fs1)"
    "archived (Staging d) (Archived d) [] (archiveLADD env ?A (Archived d) n fs1) fs'"
    unfolding fs' using dirs by (intro archived_archiveLADD; simp)+
  from archived_keep [OF shifted(1)] fs1 have n': "stat fs' ?A n = Some (File c)"
    by (intro archived_grows [OF shifted(2) dirs(1)]) simp
  have others: "k = n \<or> d' < date" if "stat fs' ?A k = Some x" "candidate (k, x) d'" for k x d'
  proof -
    from archived_shrinks [OF shifted(2) dirs(2) that(1)] have "stat fs1 ?A k = Some x"
      by (rule archived_shrinks [OF shifted(1) dirs(2)])
    with mv free have "stat fs ?A k = Some x \<or> k = n"
      using moveInto_adds_only_dest [of env ?A "Staging d" n fs ?A k x] by (auto simp: uniquePath_free)
    with old that(2) show ?thesis by blast
  qed
  have "wf_disk fs'" using Promote_keeps [OF wf, of env d] P(1) by simp
  from newestDated_unique [OF this nof n' _ pos others] cand c
  have "newestDated env fs' ?A = Inr (n, date)" by simp
  with st e c n' that show thesis by blast
qed

section \<open>A failed copy leaves a truncated list behind\<close>

text \<open>
  When the rename fails (the directories lie on different devices) and the copy fails
  part-way, \<^verbatim>\<open>moveInto\<close> reports the error but the partial copy keeps the destination name.
\<close>

lemma moveInto_partial:
  assumes "mkdir_fault env dd = None" "rename_fault env sd sn = Some e0" "open_fault env sd sn = None"
    "stat fs sd sn = Some (File c)" "stat fs dd sn = None" "create_fault env dd sn = None"
    "copy_fault env sd sn = Some (e, k)"
  shows "fst (moveInto env dd sd sn fs) = Some e"
    and "stat (snd (moveInto env dd sd sn fs)) dd sn = Some (File (take k c))"
proof -
  have mk: "fst (MkdirAll env dd fs) = None" using assms(1) by (simp add: MkdirAll_def)
  have dest: "uniquePath fs dd sn = sn" using assms(5) by (rule uniquePath_free)
  have "moveInto env dd sd sn fs = (Some e, put dd sn (File (take k c)) (snd (MkdirAll env dd fs)))"
    using assms mk dest by (simp add: moveInto_unfold Rename_def copyFile_def)
  then show "fst (moveInto env dd sd sn fs) = Some e"
    and "stat (snd (moveInto env dd sd sn fs)) dd sn = Some (File (take k c))"
    by simp_all
qed

end
