(* ===== verification/Ladd_Store.thy ===== *)
theory Ladd_Store
  imports Ladd_Promote
begin

text \<open>
  The block list in memory (filter/internal/ladd/store.go) and its start-up and reloading
  (filter/cmd/filter/main.go): the current snapshot, swapped atomically by the reloader,
  and the readiness test that makes the filter fail closed.
\<close>

section \<open>Model\<close>

record snapshot =
  snap_set :: "ladd_set option"
  effectiveDate :: gotime

record store =
  current :: snapshot
  maxAge :: duration
  dev :: bool

definition NewStore :: "(string \<Rightarrow> string) \<Rightarrow> duration \<Rightarrow> store" where
  "NewStore u age = \<lparr>current = \<lparr>snap_set = Some (NewSet u []), effectiveDate = zeroTime\<rparr>,
     maxAge = age, dev = False\<rparr>"

definition SetDev :: "bool \<Rightarrow> store \<Rightarrow> store" where
  "SetDev b s = s\<lparr>dev := b\<rparr>"

definition Swap :: "ladd_set \<Rightarrow> gotime \<Rightarrow> store \<Rightarrow> store" where
  "Swap t date s = s\<lparr>current := \<lparr>snap_set = Some t, effectiveDate = date\<rparr>\<rparr>"

text \<open>\<^verbatim>\<open>errors.Join(perr, lerr)\<close> keeps both errors; the pair of them is the model's error.\<close>

type_synonym reload_error = "promote_error err \<times> load_error err"

definition Reload :: "(string \<Rightarrow> string) \<Rightarrow> osenv \<Rightarrow> Dirs \<Rightarrow> fsys \<Rightarrow> store \<Rightarrow>
    (bool \<times> reload_error) \<times> fsys \<times> store" where
  "Reload u env d fs s =
     (let (p, fs1) = Promote env d fs;
          perr = (case p of Inl e \<Rightarrow> Some e | Inr _ \<Rightarrow> None)
      in case LoadLatest u env fs1 (Active d) of
           Inl lerr \<Rightarrow> ((False, perr, Some lerr), fs1, s)
         | Inr (t, date) \<Rightarrow>
             if \<not> After date (effectiveDate (current s)) then ((False, perr, None), fs1, s)
             else ((True, perr, None), fs1, Swap t date s))"

definition store_Blocks :: "(string \<Rightarrow> string) \<Rightarrow> store \<Rightarrow> string \<Rightarrow> string \<Rightarrow> bool" where
  "store_Blocks u s callSign registration = Blocks u (snap_set (current s)) callSign registration"

text \<open>The reason \<^verbatim>\<open>Ready\<close> gives; \<open>None\<close> is ready.\<close>

datatype not_ready = NoListLoaded | ListStale gotime duration

definition Ready :: "gotime \<Rightarrow> store \<Rightarrow> not_ready option" where
  "Ready now s =
     (if dev s then None
      else (let snap = current s
            in if IsZero (effectiveDate snap) \<or> Len (snap_set snap) = 0 then Some NoListLoaded
               else if 0 < maxAge s \<and> maxAge s < Sub now (effectiveDate snap)
                    then Some (ListStale (effectiveDate snap) (maxAge s))
                    else None))"

text \<open>The start of \<^verbatim>\<open>main\<close>: promote, then load; failures are logged and the store stays empty.\<close>

definition startup :: "(string \<Rightarrow> string) \<Rightarrow> osenv \<Rightarrow> Dirs \<Rightarrow> duration \<Rightarrow> bool \<Rightarrow> fsys \<Rightarrow> fsys \<times> store" where
  "startup u env d age isDev fs =
     (let s = SetDev isDev (NewStore u age)
      in if isDev then (fs, s)
         else (let fs1 = snd (Promote env d fs)
               in case LoadLatest u env fs1 (Active d) of
                    Inl _ \<Rightarrow> (fs1, s)
                  | Inr (t, date) \<Rightarrow> (fs1, Swap t date s)))"

section \<open>Invariant\<close>

text \<open>
  A snapshot is either the initial empty one or a list loaded from a file dated after the
  zero time.
\<close>

definition wf_store :: "store \<Rightarrow> bool" where
  "wf_store s \<longleftrightarrow> zeroTime \<le> effectiveDate (current s) \<and>
     (\<exists>t. snap_set (current s) = Some t \<and> wf_set t) \<and>
     (effectiveDate (current s) = zeroTime \<longrightarrow> Len (snap_set (current s)) = 0)"

lemma wf_store_New [inv_intros]: "wf_store (SetDev b (NewStore u age))"
  using NewSet_wf [of u "[]"]
  by (simp add: wf_store_def SetDev_def NewStore_def NewSet_def Len_def)

lemma wf_store_Swap [inv_intros]: "wf_set t \<Longrightarrow> After date zeroTime \<Longrightarrow> wf_store (Swap t date s)"
  by (auto simp: wf_store_def Swap_def After_def)

lemma Reload_cases:
  assumes "Reload u env d fs s = ((swapped, e), fs', s')"
  obtains (kept) "\<not> swapped" "s' = s"
  | (loaded) t date where "swapped" "s' = Swap t date s" "After date (effectiveDate (current s))"
      "LoadLatest u env fs' (Active d) = Inr (t, date)" "fs' = snd (Promote env d fs)"
  using assms
  by (auto simp: Reload_def Let_def split: prod.splits sum.splits if_splits)

lemma wf_store_Reload [inv_intros]:
  assumes "wf_store s" and R: "Reload u env d fs s = ((swapped, e), fs', s')"
  shows "wf_store s'"
  using R
proof (cases rule: Reload_cases)
  case kept
  then show ?thesis using assms(1) by simp
next
  case (loaded t date)
  then show ?thesis
    by (auto intro!: wf_store_Swap dest: LoadLatest_wf LoadLatest_date_positive)
qed

lemma wf_store_startup [inv_intros]: "wf_store (snd (startup u env d age isDev fs))"
  by (auto simp: startup_def Let_def intro!: wf_store_New wf_store_Swap
      dest: LoadLatest_wf LoadLatest_date_positive split: sum.splits prod.splits)

lemma Swap_simps [simp]: "dev (Swap t d s) = dev s" "maxAge (Swap t d s) = maxAge s"
    "current (Swap t d s) = \<lparr>snap_set = Some t, effectiveDate = d\<rparr>"
  by (simp_all add: Swap_def)

lemma Reload_frame:
  assumes "Reload u env d fs s = ((swapped, e), fs', s')"
  shows "dev s' = dev s \<and> maxAge s' = maxAge s"
  using assms by (cases rule: Reload_cases) simp_all

lemma Reload_date_mono:
  assumes "Reload u env d fs s = ((swapped, e), fs', s')"
  shows "effectiveDate (current s) \<le> effectiveDate (current s')"
  using assms by (cases rule: Reload_cases) (simp_all add: After_def)

lemma Ready_enforcing:
  "\<not> dev s \<Longrightarrow> Ready now s = None \<longleftrightarrow>
     effectiveDate (current s) \<noteq> zeroTime \<and> 0 < Len (snap_set (current s)) \<and>
     (0 < maxAge s \<longrightarrow> Sub now (effectiveDate (current s)) \<le> maxAge s)"
  by (auto simp: Ready_def Let_def IsZero_def)

end
