(* ===== verification/Ladd_Properties.thy ===== *)
theory Ladd_Properties
  imports Ladd_Store
begin

text \<open>
  The correctness of the block list from delivery to lookup: what a promotion does to the
  disk, which file is loaded, what the loaded list blocks, and what a reload may change.
\<close>

section \<open>A concrete delivery\<close>

text \<open>An active list that blocks N123, and a newer one in staging that blocks N123 and N456.\<close>

definition sample_dirs :: Dirs where
  "sample_dirs = \<lparr>Staging = ''staging'', Active = ''active'', Archived = ''archived''\<rparr>"

definition older :: string where "older = ''LADD_Industry_Filter_20250601.txt''"
definition newer :: string where "newer = ''LADD_Industry_Filter_20250608.txt''"

definition delivered :: "bytes \<Rightarrow> fsys" where
  "delivered c = [''staging'' \<mapsto> [(newer, File c)], ''active'' \<mapsto> [(older, File (''n123'' @ [newline]))]]"

definition two_lines :: bytes where
  "two_lines = ''N456'' @ [newline] @ '' n123'' @ [newline]"

text \<open>Renames fail (another device) and the copy stops after five bytes.\<close>

definition torn_copy :: osenv where
  "torn_copy = no_faults\<lparr>rename_fault := (\<lambda>_ _. Some (OSFault ''EXDEV'')),
     copy_fault := (\<lambda>_ _. Some (OSFault ''EIO'', 5))\<rparr>"

definition sample_store :: store where
  "sample_store = snd (startup id no_faults sample_dirs 0 False
     [''active'' \<mapsto> [(older, File (''n123'' @ [newline]))]])"

lemma wf_delivered: "wf_disk (delivered c)"
  by (auto simp: wf_disk_def wf_fs_def delivered_def dir_entries_def)

section \<open>Properties\<close>

text \<open>
  C10: a loaded list comes from the newest dated list file of the directory, and it blocks a
  flight exactly when the call sign or the registration equals, after trimming and upper-casing,
  an entry line of that file (a line that is neither blank nor a comment).
\<close>

theorem loaded_list_semantics:
  assumes "LoadLatest u env fs dir = Inr (st, date)"
  shows "\<exists>n c. newestDated env fs dir = Inr (n, date) \<and>
     stat fs dir n = Some (File c) \<and> publishDate n = Some date \<and>
     (\<forall>p d'. p \<in> set (dir_entries fs dir) \<and> candidate p d' \<longrightarrow> d' \<le> date) \<and>
     (\<forall>callSign registration. Blocks u (Some st) callSign registration \<longleftrightarrow>
        (\<exists>l i. l \<in> set (raw_lines c) \<and> list_line (dropCR l) = Some i \<and> normalize_id u i \<noteq> [] \<and>
           (normalize_id u i = normalize_id u callSign \<or> normalize_id u i = normalize_id u registration)))"
proof -
  obtain n where n: "newestDated env fs dir = Inr (n, date)" "n \<noteq> []" "loadFile u env fs dir n = Inr st"
    using assms by (rule LoadLatest_Inr)
  obtain c where c: "stat fs dir n = Some (File c)"
    "st = NewSet u (List.map_filter list_line (map dropCR (raw_lines c)))"
    using n(3) by (rule loadFile_Inr)
  have "set (List.map_filter list_line (map dropCR (raw_lines c)))
      = {i. \<exists>l \<in> set (raw_lines c). list_line (dropCR l) = Some i}"
    by (force simp: List.map_filter_def)
  then have "Blocks u (Some st) x y \<longleftrightarrow>
        (\<exists>l i. l \<in> set (raw_lines c) \<and> list_line (dropCR l) = Some i \<and> normalize_id u i \<noteq> [] \<and>
           (normalize_id u i = normalize_id u x \<or> normalize_id u i = normalize_id u y))" for x y
    unfolding c(2) ladd.blocked_build by auto
  then show ?thesis
    using newestDated_Inr [OF n(1)] n c by (auto simp: candidate_def)
qed

theorem loaded_list_semantics_witness:
  "\<exists>st date. LoadLatest id no_faults (delivered two_lines) ''staging'' = Inr (st, date) \<and>
     (\<exists>n c. stat (delivered two_lines) ''staging'' n = Some (File c) \<and> publishDate n = Some date)"
proof -
  have "LoadLatest id no_faults (delivered two_lines) ''staging'' =
      Inr (\<lparr>entries = [''N123'', ''N456'']\<rparr>, dateTime 2025 6 8 0 0 0 0)"
    by code_simp
  from this loaded_list_semantics [OF this] show ?thesis by blast
qed

text \<open>
  C7: no list is ever lost: whatever system calls fail during a promotion, every file content on
  the disk before it is on the disk after it, with at least the same multiplicity.
\<close>

theorem promotion_loses_nothing:
  assumes "wf_disk fs"
  shows "wf_disk (snd (Promote env d fs)) \<and> disk_bag fs \<subseteq># disk_bag (snd (Promote env d fs))"
  using assms by (rule Promote_keeps)

theorem promotion_loses_nothing_witness:
  "disk_bag (delivered two_lines) \<subseteq># disk_bag (snd (Promote torn_copy sample_dirs (delivered two_lines)))"
  using promotion_loses_nothing [OF wf_delivered, of torn_copy sample_dirs two_lines] by simp

text \<open>
  A move never overwrites: it changes no other file, the name it chooses in the target
  directory was not taken, and when it reports success the file is there under that name and no
  longer at its old place.
\<close>

theorem move_overwrites_nothing:
  shows "(\<forall>dir n e. stat fs dir n = Some e \<and> (dir, n) \<noteq> (sd, sn) \<longrightarrow>
       stat (snd (moveInto env dd sd sn fs)) dir n = Some e) \<and>
     stat fs dd (uniquePath fs dd sn) = None \<and>
     (fst (moveInto env dd sd sn fs) = None \<longrightarrow>
        (\<exists>e. stat fs sd sn = Some e \<and> stat (snd (moveInto env dd sd sn fs)) dd (uniquePath fs dd sn) = Some e \<and>
           stat (snd (moveInto env dd sd sn fs)) sd sn = None))"
proof (intro conjI allI impI)
  show "stat (snd (moveInto env dd sd sn fs)) dir n = Some e"
    if "stat fs dir n = Some e \<and> (dir, n) \<noteq> (sd, sn)" for dir n e
    using moveInto_overwrites_nothing that by blast
  show "stat fs dd (uniquePath fs dd sn) = None"
    by (simp add: uniquePath_fresh)
  assume "fst (moveInto env dd sd sn fs) = None"
  then have "moveInto env dd sd sn fs = (None, snd (moveInto env dd sd sn fs))"
    by (metis prod.collapse)
  then show "\<exists>e. stat fs sd sn = Some e \<and> stat (snd (moveInto env dd sd sn fs)) dd (uniquePath fs dd sn) = Some e \<and>
           stat (snd (moveInto env dd sd sn fs)) sd sn = None"
    by (rule moveInto_success) blast
qed

theorem move_overwrites_nothing_witness:
  "stat (snd (moveInto no_faults ''active'' ''staging'' newer (delivered two_lines))) ''active'' older
     = Some (File (''n123'' @ [newline]))"
proof -
  have "stat (delivered two_lines) ''active'' older = Some (File (''n123'' @ [newline])) \<and>
      (''active'', older) \<noteq> (''staging'', newer)"
    by code_simp
  with move_overwrites_nothing [of "delivered two_lines" "''staging''" newer no_faults "''active''"]
  show ?thesis by blast
qed



text \<open>
  A reload never goes back: it keeps the list in force or replaces it by one dated strictly
  later, a failed load keeps the list, the store stays well-formed, and its mode and maximum age
  never change.
\<close>

theorem reload_never_goes_back:
  assumes "wf_store s" "Reload u env d fs s = ((swapped, perr, lerr), fs', s')"
  shows "wf_store s' \<and> (swapped \<longrightarrow> After (effectiveDate (current s')) (effectiveDate (current s)) \<and> lerr = None) \<and>
     (\<not> swapped \<longrightarrow> s' = s) \<and> dev s' = dev s \<and> maxAge s' = maxAge s"
proof -
  have "swapped \<longrightarrow> lerr = None"
    using assms(2) by (auto simp: Reload_def Let_def split: prod.splits sum.splits if_splits)
  with assms(2) wf_store_Reload [OF assms] Reload_frame [OF assms(2)] show ?thesis
    by - (erule Reload_cases, auto simp: After_def)
qed

theorem reload_never_goes_back_witness:
  "wf_store (snd (snd (Reload id no_faults sample_dirs (delivered two_lines) sample_store)))"
proof -
  let ?r = "Reload id no_faults sample_dirs (delivered two_lines) sample_store"
  have "?r = ((fst (fst ?r), fst (snd (fst ?r)), snd (snd (fst ?r))), fst (snd ?r), snd (snd ?r))"
    by simp
  from reload_never_goes_back [OF _ this] wf_store_startup show ?thesis
    by (simp add: sample_store_def)
qed


text \<open>
  A newer list without entries is swapped in by a reload, although the readiness test then
  rejects it: until the next test the filter in the middle of a batch blocks nothing.
\<close>

theorem empty_list_swapped_in:
  "store_Blocks id sample_store ''N123'' [] \<and>
   fst (Reload id no_faults sample_dirs (delivered (''# none'' @ [newline])) sample_store) = (True, None, None) \<and>
   (\<forall>c r. \<not> store_Blocks id
      (snd (snd (Reload id no_faults sample_dirs (delivered (''# none'' @ [newline])) sample_store))) c r) \<and>
   Ready 0 (snd (snd (Reload id no_faults sample_dirs (delivered (''# none'' @ [newline])) sample_store)))
     = Some NoListLoaded"
proof -
  let ?s = "snd (snd (Reload id no_faults sample_dirs (delivered (''# none'' @ [newline])) sample_store))"
  have "Len (snap_set (current ?s)) = 0" by code_simp
  then have "\<not> store_Blocks id ?s c r" for c r
    by (simp add: store_Blocks_def Len_zero_no_match)
  moreover have "store_Blocks id sample_store ''N123'' []" by code_simp
  moreover have "fst (Reload id no_faults sample_dirs (delivered (''# none'' @ [newline])) sample_store)
      = (True, None, None)" by code_simp
  moreover have "Ready 0 ?s = Some NoListLoaded" by code_simp
  ultimately show ?thesis by blast
qed

lemma unique_from_first:
  "\<exists>k \<ge> i. unique_from names stem ext i = numbered stem ext k \<and> numbered stem ext k \<notin> set names \<and>
     (\<forall>j. i \<le> j \<and> j < k \<longrightarrow> numbered stem ext j \<in> set names)"
proof (induction names stem ext i rule: unique_from.induct)
  case (1 names stem ext i)
  show ?case
  proof (cases "numbered stem ext i \<in> set names")
    case True
    then obtain k where k: "Suc i \<le> k" "unique_from names stem ext (Suc i) = numbered stem ext k"
        "numbered stem ext k \<notin> set names" "\<forall>j. Suc i \<le> j \<and> j < k \<longrightarrow> numbered stem ext j \<in> set names"
      using 1 by auto
    have "numbered stem ext j \<in> set names" if "i \<le> j" "j < k" for j
      using k(4) that True by (cases "j = i") auto
    then show ?thesis
      using k True by (intro exI [of _ k]) (simp add: unique_from.simps [of names stem ext i])
  next
    case False
    then show ?thesis by (intro exI [of _ i]) (auto simp: unique_from.simps [of names stem ext i])
  qed
qed



end
