(* ===== verification/Ladd_Admin.thy ===== *)
theory Ladd_Admin
  imports Ladd_Store
begin

text \<open>
  ladd-admin: the service that takes a new block list. An upload is read, its signature verified,
  its content decrypted and validated, and the list then replaces the content of the \<^verbatim>\<open>ladd\<close>
  Secret, which the cluster mounts as the filter's active directory.
\<close>

section \<open>Validation (internal/validate/validate.go)\<close>

record check_result =
  res_Name :: string
  res_Date :: gotime
  res_Entries :: nat

datatype check_error =
    UnexpectedFilename string
  | NoDateInFilename string
  | FutureDated gotime
  | StaleFile gotime duration
  | NoEntries

text \<open>\<^verbatim>\<open>strings.LastIndexAny\<close> of a slash or a backslash: what follows the last one.\<close>

definition baseName :: "string \<Rightarrow> string" where
  "baseName name =
     (let sep = (\<lambda>c. c = CHR ''/'' \<or> c = CHR 0x5C)
      in rev (takeWhile (\<lambda>c. \<not> sep c) (rev name)))"

definition adm_dateInName :: "string \<Rightarrow> string option" where
  "adm_dateInName name =
     (let ds = take 8 (drop (length name - 12) name)
      in if 12 \<le> length name \<and> HasSuffix name ''.txt'' \<and> list_all is_digit ds then Some ds else None)"

definition adm_publishDate :: "string \<Rightarrow> gotime option" where
  "adm_publishDate name = (case adm_dateInName name of None \<Rightarrow> None | Some m \<Rightarrow> parseYYYYMMDD m)"

text \<open>The scanner's error is not looked at: counting stops at a line that is too long.\<close>

definition countEntries :: "bytes \<Rightarrow> nat" where
  "countEntries content = length (List.map_filter list_line (fst (ScanLines content)))"

definition Check :: "gotime \<Rightarrow> string \<Rightarrow> bytes \<Rightarrow> duration \<Rightarrow> check_error + check_result" where
  "Check now filename content age =
     (let name = baseName filename
      in if \<not> HasPrefix name ''LADD_Industry_Filter'' then Inl (UnexpectedFilename name)
         else (case adm_publishDate name of
                 None \<Rightarrow> Inl (NoDateInFilename name)
               | Some date \<Rightarrow>
                   if After date now then Inl (FutureDated date)
                   else if 0 < age \<and> age < Sub now date then Inl (StaleFile date age)
                   else (let entries = countEntries content
                         in if entries = 0 then Inl NoEntries
                            else Inr \<lparr>res_Name = name, res_Date = date, res_Entries = entries\<rparr>)))"

section \<open>The request (internal/api/api.go)\<close>

record UploadRequest =
  Filename :: string
  Ciphertext :: bytes
  Signature :: bytes

definition SigningBytes :: "UploadRequest \<Rightarrow> bytes" where
  "SigningBytes r = Filename r @ CHR 0x00 # Ciphertext r"

text \<open>The message of a response: a fixed text, or the text of a validation error, kept as the error.\<close>

datatype message = Text string | CheckFailed check_error

record UploadResponse =
  OK :: bool
  up_Entries :: nat
  up_Message :: message

section \<open>The Secret (internal/ksecret/ksecret.go)\<close>

text \<open>The data of the Secret, and what the API server does with the two calls: the read fails, the
  update is refused, is applied with its answer lost, or is acknowledged.\<close>

type_synonym secret = "string \<rightharpoonup> bytes"

datatype secret_env = GetFails | UpdateRefused | UpdateLost | UpdateAcked

datatype secret_error = GetError | UpdateError

definition Replace :: "secret_env \<Rightarrow> string \<Rightarrow> bytes \<Rightarrow> secret \<Rightarrow> secret_error err \<times> secret" where
  "Replace env filename content sec =
     (case env of
        GetFails \<Rightarrow> (Some GetError, sec)
      | UpdateRefused \<Rightarrow> (Some UpdateError, sec)
      | UpdateLost \<Rightarrow> (Some UpdateError, [filename \<mapsto> content])
      | UpdateAcked \<Rightarrow> (None, [filename \<mapsto> content]))"

section \<open>The handler (cmd/server/main.go)\<close>

text \<open>
  The cryptography and the decoding of the body are parameters: \<open>dec_body\<close> decodes what the size
  limit lets through, \<open>verify\<close> is Ed25519 verification, \<open>decrypt\<close> is age decryption.
\<close>

record upload_libs =
  dec_body :: "bytes \<Rightarrow> UploadRequest option"
  verify :: "bytes \<Rightarrow> bytes \<Rightarrow> bytes \<Rightarrow> bool"
  decrypt :: "bytes \<Rightarrow> string \<Rightarrow> bytes option"

record server =
  srv_MaxUploadSize :: int
  srv_MaxAge :: duration
  srv_identity :: string
  srv_operatorPub :: bytes

definition refuse :: "nat \<Rightarrow> message \<Rightarrow> nat \<times> UploadResponse" where
  "refuse status msg = (status, \<lparr>OK = False, up_Entries = 0, up_Message = msg\<rparr>)"

definition srv_upload :: "upload_libs \<Rightarrow> server \<Rightarrow> gotime \<Rightarrow> secret_env \<Rightarrow> bytes \<Rightarrow> secret \<Rightarrow>
    (nat \<times> UploadResponse) \<times> secret" where
  "srv_upload L s now env body sec =
     (case dec_body L (take (nat (srv_MaxUploadSize s)) body) of
        None \<Rightarrow> (refuse 400 (Text ''invalid request body''), sec)
      | Some req \<Rightarrow>
          if \<not> verify L (srv_operatorPub s) (SigningBytes req) (Signature req)
          then (refuse 401 (Text ''signature verification failed''), sec)
          else (case decrypt L (Ciphertext req) (srv_identity s) of
                  None \<Rightarrow> (refuse 400 (Text ''decryption failed''), sec)
                | Some plain \<Rightarrow>
                    (case Check now (Filename req) plain (srv_MaxAge s) of
                       Inl err \<Rightarrow> (refuse 422 (CheckFailed err), sec)
                     | Inr res \<Rightarrow>
                         (case Replace env (res_Name res) plain sec of
                            (Some e, sec') \<Rightarrow> (refuse 500 (Text ''failed to store list''), sec')
                          | (None, sec') \<Rightarrow>
                              ((200, \<lparr>OK = True, up_Entries = res_Entries res, up_Message = Text ''updated''\<rparr>), sec')))))"

definition readIdentity :: "(os_error + bytes) \<Rightarrow> (os_error option + string)" where
  "readIdentity file =
     (case file of
        Inl e \<Rightarrow> Inl (Some e)
      | Inr b \<Rightarrow> (case find (\<lambda>line. HasPrefix line ''AGE-SECRET-KEY-'') (map TrimSpace (split_byte newline b)) of
          None \<Rightarrow> Inl None
        | Some line \<Rightarrow> Inr line))"

section \<open>Validation agrees with the filter\<close>

lemma adm_publishDate: "adm_publishDate = publishDate"
  by (simp add: fun_eq_iff adm_publishDate_def publishDate_def adm_dateInName_def dateInName_def)

lemma baseName_no_sep: "CHR ''/'' \<notin> set (baseName n) \<and> CHR 0x5C \<notin> set (baseName n)"
  by (auto simp: baseName_def dest: set_takeWhileD)

lemma Check_Inr:
  "Check now filename content age = Inr res \<longleftrightarrow>
     res_Name res = baseName filename \<and> HasPrefix (res_Name res) laddPrefix \<and>
     publishDate (res_Name res) = Some (res_Date res) \<and> \<not> After (res_Date res) now \<and>
     \<not> (0 < age \<and> age < Sub now (res_Date res)) \<and>
     res_Entries res = countEntries content \<and> 0 < res_Entries res"
  by (auto simp: Check_def Let_def adm_publishDate laddPrefix_def split: option.splits)

text \<open>An accepted upload passed every test; anything else changes the Secret only when an update
  was applied and its answer lost.\<close>

definition authorized :: "upload_libs \<Rightarrow> server \<Rightarrow> gotime \<Rightarrow> bytes \<Rightarrow> check_result \<Rightarrow> bytes \<Rightarrow> bool" where
  "authorized L s now body res plain \<longleftrightarrow>
     (\<exists>req. dec_body L (take (nat (srv_MaxUploadSize s)) body) = Some req \<and>
        verify L (srv_operatorPub s) (SigningBytes req) (Signature req) \<and>
        decrypt L (Ciphertext req) (srv_identity s) = Some plain \<and>
        Check now (Filename req) plain (srv_MaxAge s) = Inr res)"

lemma srv_upload_cases:
  assumes "srv_upload L s now env body sec = ((status, resp), sec')"
  shows "(\<exists>res plain. authorized L s now body res plain \<and> sec' = snd (Replace env (res_Name res) plain sec) \<and>
       (if env = UpdateAcked then status = 200 \<and> OK resp \<and> up_Entries resp = res_Entries res
        else status = 500 \<and> \<not> OK resp)) \<or>
     (sec' = sec \<and> status \<in> {400, 401, 422} \<and> \<not> OK resp \<and> (\<nexists>res plain. authorized L s now body res plain))"
  using assms unfolding srv_upload_def authorized_def
  by (auto simp: refuse_def Replace_def split: option.splits sum.splits if_splits prod.splits secret_env.splits)

text \<open>The Secret as the filter's active directory: one file per key.\<close>

definition mounted :: "secret \<Rightarrow> dirent list \<Rightarrow> bool" where
  "mounted sec es \<longleftrightarrow> distinct (map fst es) \<and> map_of es = (\<lambda>n. map_option File (sec n))"

lemma mounted_single:
  assumes "mounted [n \<mapsto> c] es"
  shows "es = [(n, File c)]"
proof -
  have m: "map_of es k = (if k = n then Some (File c) else None)" for k
    using assms by (simp add: mounted_def)
  have key: "k = n \<and> e = File c" if "(k, e) \<in> set es" for k e
  proof -
    have "map_of es k = Some e" using map_of_is_SomeI that assms unfolding mounted_def by metis
    then show ?thesis using m [of k] by (simp split: if_splits)
  qed
  obtain p es' where es: "es = p # es'" using m [of n] by (cases es) auto
  have "es' = []"
  proof (cases es')
    case (Cons q rest)
    then show ?thesis
      using assms key [of "fst p" "snd p"] key [of "fst q" "snd q"] by (simp add: es mounted_def)
  qed
  then show ?thesis using key [of "fst p" "snd p"] by (cases p) (simp add: es)
qed

lemma LoadLatest_single:
  assumes "fs d = Some [(n, File c)]" "candidate (n, File c) date" "After date zeroTime"
  shows "LoadLatest u no_faults fs d = (case ScanLines c of
     (_, Some e) \<Rightarrow> Inl (LScan e) | (ts, None) \<Rightarrow> Inr (NewSet u (List.map_filter list_line ts), date))"
proof -
  have "newestDated no_faults fs d = Inr (n, date)"
    using assms by (simp add: newestDated_def ReadDir_def no_faults_def candidate_def)
  moreover have "n \<noteq> []" using HasPrefix_ladd_nonempty assms(2) by (auto simp: candidate_def)
  moreover have "ReadFile no_faults fs d n = Inr c"
    using assms(1) by (simp add: ReadFile_def no_faults_def stat_def dir_entries_def)
  ultimately show ?thesis
    by (simp add: LoadLatest_def loadFile_def split: prod.splits option.splits)
qed

lemma TrimSpace_list_line: "list_line raw = Some l \<Longrightarrow> TrimSpace l = l \<and> l \<noteq> []"
  by (auto simp: list_line_def Let_def split: if_splits)

lemma loaded_nonempty:
  assumes "\<And>s. s \<noteq> [] \<Longrightarrow> u s \<noteq> []" "l \<in> set (List.map_filter list_line ts)"
  shows "Len (Some (NewSet u (List.map_filter list_line ts))) \<noteq> 0"
proof -
  have l: "TrimSpace l = l" "l \<noteq> []"
    using assms(2) TrimSpace_list_line by (auto simp: List.map_filter_def)
  then have "normalize_id u l \<noteq> []"
    using assms(1) by (simp add: normalize_id_def ToUpper_def)
  then have "normalize_id u l \<in> set (entries (NewSet u (List.map_filter list_line ts)))"
    using assms(2) by (auto simp: NewSet_entries)
  then show ?thesis by (auto simp: Len_def)
qed

section \<open>Concrete uploads\<close>

definition demo_libs :: upload_libs where
  "demo_libs = \<lparr>dec_body = (\<lambda>b. Some \<lparr>Filename = ''LADD_Industry_Filter_20250601.txt'', Ciphertext = b, Signature = []\<rparr>),
     verify = (\<lambda>pub data sig. True), decrypt = (\<lambda>ct identity. Some ct)\<rparr>"

definition demo_server :: server where
  "demo_server = \<lparr>srv_MaxUploadSize = 4194304, srv_MaxAge = 216 * hour, srv_identity = [], srv_operatorPub = []\<rparr>"

definition upload_time :: gotime where "upload_time = dateTime 2025 6 3 0 0 0 0"

lemma demo_upload:
  "srv_upload demo_libs demo_server upload_time UpdateAcked ''N123'' Map.empty =
     ((200, \<lparr>OK = True, up_Entries = 1, up_Message = Text ''updated''\<rparr>),
      [''LADD_Industry_Filter_20250601.txt'' \<mapsto> ''N123''])"
proof -
  have "Check upload_time ''LADD_Industry_Filter_20250601.txt'' ''N123'' (216 * hour) =
      Inr \<lparr>res_Name = ''LADD_Industry_Filter_20250601.txt'', res_Date = dateTime 2025 6 1 0 0 0 0, res_Entries = 1\<rparr>"
    by code_simp
  then show ?thesis
    by (simp add: srv_upload_def demo_libs_def demo_server_def Replace_def)
qed

section \<open>Properties\<close>

text \<open>
  C11: only an authorized and validated upload changes the list: when the Secret changes, or the
  answer is 200, the request decoded, its signature verified under the operator's key over its file
  name and ciphertext, the content decrypted, and the Secret holds exactly this content under a base
  name that has the list prefix and a date which is neither in the future nor older than the limit,
  with at least one entry. An answer of 200 implies that the update was acknowledged.
\<close>

theorem upload_changes_authorized:
  assumes "srv_upload L s now env body sec = ((status, resp), sec')" "sec' \<noteq> sec \<or> status = 200"
  shows "\<exists>req plain name date. dec_body L (take (nat (srv_MaxUploadSize s)) body) = Some req \<and>
     verify L (srv_operatorPub s) (SigningBytes req) (Signature req) \<and>
     decrypt L (Ciphertext req) (srv_identity s) = Some plain \<and>
     sec' = [name \<mapsto> plain] \<and> name = baseName (Filename req) \<and>
     HasPrefix name laddPrefix \<and> CHR ''/'' \<notin> set name \<and> publishDate name = Some date \<and> date \<le> now \<and>
     (0 < srv_MaxAge s \<longrightarrow> Sub now date \<le> srv_MaxAge s) \<and> 0 < countEntries plain \<and>
     (status = 200 \<longleftrightarrow> env = UpdateAcked)"
proof -
  obtain res plain where a: "authorized L s now body res plain"
    "sec' = snd (Replace env (res_Name res) plain sec)" "status = (if env = UpdateAcked then 200 else 500)"
    using srv_upload_cases [OF assms(1)] assms(2) by (auto split: if_splits)
  then obtain req where req: "dec_body L (take (nat (srv_MaxUploadSize s)) body) = Some req"
    "verify L (srv_operatorPub s) (SigningBytes req) (Signature req)"
    "decrypt L (Ciphertext req) (srv_identity s) = Some plain"
    "Check now (Filename req) plain (srv_MaxAge s) = Inr res"
    unfolding authorized_def by blast
  have "sec' = [res_Name res \<mapsto> plain]"
    using a(2,3) assms(2) by (auto simp: Replace_def split: secret_env.splits if_splits)
  then show ?thesis
    using req a(3) baseName_no_sep [of "Filename req"] unfolding Check_Inr After_def
    by (intro exI [of _ req] exI [of _ plain] exI [of _ "res_Name res"] exI [of _ "res_Date res"]) auto
qed

theorem upload_changes_authorized_witness:
  "\<exists>plain name date. [''LADD_Industry_Filter_20250601.txt'' \<mapsto> ''N123''] = [name \<mapsto> plain] \<and>
     HasPrefix name laddPrefix \<and> publishDate name = Some date \<and> date \<le> upload_time"
  using upload_changes_authorized [OF demo_upload disjI2 [OF refl]] by blast



text \<open>
  A signature covers the file name and the ciphertext unambiguously as long as file names have no
  zero byte; with a zero byte in a name, the same signed bytes are also those of a request with a
  shorter name and a longer ciphertext.
\<close>

theorem signing_bytes_unambiguous:
  "(CHR 0x00 \<notin> set (Filename r) \<and> CHR 0x00 \<notin> set (Filename r') \<and> SigningBytes r = SigningBytes r' \<longrightarrow>
      Filename r = Filename r' \<and> Ciphertext r = Ciphertext r') \<and>
   (\<exists>n c. SigningBytes \<lparr>Filename = x @ CHR 0x00 # y, Ciphertext = z, Signature = sig\<rparr> =
      SigningBytes \<lparr>Filename = n, Ciphertext = c, Signature = sig\<rparr> \<and> n \<noteq> x @ CHR 0x00 # y)"
proof
  have "takeWhile (\<lambda>c. c \<noteq> CHR 0x00) (SigningBytes q) = Filename q \<and>
      tl (dropWhile (\<lambda>c. c \<noteq> CHR 0x00) (SigningBytes q)) = Ciphertext q" if "CHR 0x00 \<notin> set (Filename q)" for q
    using that by (auto simp: SigningBytes_def takeWhile_append dropWhile_append dropWhile_eq_self_iff)
  then show "CHR 0x00 \<notin> set (Filename r) \<and> CHR 0x00 \<notin> set (Filename r') \<and> SigningBytes r = SigningBytes r' \<longrightarrow>
      Filename r = Filename r' \<and> Ciphertext r = Ciphertext r'"
    by metis
  show "\<exists>n c. SigningBytes \<lparr>Filename = x @ CHR 0x00 # y, Ciphertext = z, Signature = sig\<rparr> =
      SigningBytes \<lparr>Filename = n, Ciphertext = c, Signature = sig\<rparr> \<and> n \<noteq> x @ CHR 0x00 # y"
    by (intro exI [of _ x] exI [of _ "y @ CHR 0x00 # z"]) (simp add: SigningBytes_def)
qed

theorem signing_bytes_unambiguous_witness:
  "Filename \<lparr>Filename = ''a'', Ciphertext = ''b'', Signature = ''s''\<rparr> = ''a'' \<and>
   (\<exists>n c. SigningBytes \<lparr>Filename = ''a'' @ CHR 0x00 # ''b'', Ciphertext = ''c'', Signature = ''s''\<rparr> =
      SigningBytes \<lparr>Filename = n, Ciphertext = c, Signature = ''s''\<rparr> \<and> n \<noteq> ''a'' @ CHR 0x00 # ''b'')"
  using signing_bytes_unambiguous [of "\<lparr>Filename = ''a'', Ciphertext = ''b'', Signature = ''s''\<rparr>"
      "\<lparr>Filename = ''a'', Ciphertext = ''b'', Signature = ''t''\<rparr>" "''a''" "''b''" "''c''" "''s''"]
  by (simp add: SigningBytes_def)

text \<open>
  A list with a line of 65536 bytes or more behind a first entry is accepted by the upload
  service, which does not look at the scanner's error, but can never be loaded by the filter.
\<close>

theorem accepted_but_unloadable:
  defines "content \<equiv> ''N1'' @ newline # replicate 65536 (CHR ''A'')"
    and "name \<equiv> ''LADD_Industry_Filter_20250601.txt''"
  shows "Check upload_time name content (216 * hour) =
       Inr \<lparr>res_Name = name, res_Date = dateTime 2025 6 1 0 0 0 0, res_Entries = 1\<rparr> \<and>
     LoadLatest u no_faults [''active'' \<mapsto> [(name, File content)]] ''active'' = Inl (LScan ErrTooLong)"
proof -
  have ne: "newline \<noteq> CHR ''A''" by (simp add: newline_def)
  have sb: "split_byte newline (replicate n (CHR ''A'')) = [replicate n (CHR ''A'')]" for n
    using ne by (induction n) auto
  have "split_byte newline content = [''N1'', replicate 65536 (CHR ''A'')]"
    unfolding content_def using sb [of 65536] by (simp add: newline_def)
  then have "raw_lines content = [''N1'', replicate 65536 (CHR ''A'')]"
    by (simp add: raw_lines_def)
  then have scan: "ScanLines content = ([''N1''], Some ErrTooLong)"
    by (simp add: ScanLines_def maxTokenSize_def dropCR_def)
  have "List.map_filter list_line [''N1''] = [''N1'']" by code_simp
  then have count: "countEntries content = 1"
    by (simp add: countEntries_def scan)
  have "Check upload_time name ''N1'' (216 * hour) =
      Inr \<lparr>res_Name = name, res_Date = dateTime 2025 6 1 0 0 0 0, res_Entries = 1\<rparr>"
    unfolding name_def by code_simp
  then have "Check upload_time name content (216 * hour) =
      Inr \<lparr>res_Name = name, res_Date = dateTime 2025 6 1 0 0 0 0, res_Entries = 1\<rparr>"
    unfolding Check_Inr using count by simp
  moreover have "candidate (name, File content) (dateTime 2025 6 1 0 0 0 0)"
  proof -
    have "HasPrefix name laddPrefix" "publishDate name = Some (dateTime 2025 6 1 0 0 0 0)"
      unfolding name_def by code_simp+
    then show ?thesis by (simp add: candidate_def)
  qed
  moreover have "After (dateTime 2025 6 1 0 0 0 0) zeroTime" by code_simp
  ultimately show ?thesis
    using LoadLatest_single [where fs = "[''active'' \<mapsto> [(name, File content)]]" and d = "''active''"
        and n = name and c = content and u = u] scan by simp
qed

end
