(* ===== verification/Go_Base64.thy ===== *)
theory Go_Base64
  imports Go_Strings
begin

text \<open>
  Go's \<^verbatim>\<open>base64.StdEncoding\<close>: the standard alphabet with padding; decoding skips line breaks.
\<close>

section \<open>Coding\<close>

definition b64_alphabet :: string where
  "b64_alphabet = ''ABCDEFGHIJKLMNOPQRSTUVWXYZabcdefghijklmnopqrstuvwxyz0123456789+/''"

definition b64_char :: "int \<Rightarrow> char" where
  "b64_char n = b64_alphabet ! nat n"

definition b64_val :: "char \<Rightarrow> int option" where
  "b64_val c = (case find (\<lambda>(i, d). d = c) (zip [0..<64] b64_alphabet) of None \<Rightarrow> None | Some (i, d) \<Rightarrow> Some (int i))"

fun b64_encode :: "bytes \<Rightarrow> string" where
  "b64_encode [] = []"
| "b64_encode [a] = (let x = byte_val a in [b64_char (x div 4), b64_char (x mod 4 * 16), CHR ''='', CHR ''=''])"
| "b64_encode [a, b] = (let x = byte_val a; y = byte_val b in
     [b64_char (x div 4), b64_char (x mod 4 * 16 + y div 16), b64_char (y mod 16 * 4), CHR ''=''])"
| "b64_encode (a # b # c # s) = (let x = byte_val a; y = byte_val b; z = byte_val c in
     [b64_char (x div 4), b64_char (x mod 4 * 16 + y div 16), b64_char (y mod 16 * 4 + z div 64), b64_char (z mod 64)]
       @ b64_encode s)"

text \<open>Four characters of the input at a time; padding ends it.\<close>

fun b64_quads :: "string \<Rightarrow> bytes option" where
  "b64_quads [] = Some []"
| "b64_quads (p # q # r # s # rest) =
     (case (b64_val p, b64_val q) of
        (Some x, Some y) \<Rightarrow>
          (case (b64_val r, b64_val s) of
             (Some z, Some w) \<Rightarrow>
               map_option (\<lambda>t. char_of (x * 4 + y div 16) # char_of (y mod 16 * 16 + z div 4) # char_of (z mod 4 * 64 + w) # t)
                 (b64_quads rest)
           | (Some z, None) \<Rightarrow>
               if s = CHR ''='' \<and> rest = []
               then Some [char_of (x * 4 + y div 16), char_of (y mod 16 * 16 + z div 4)] else None
           | (None, _) \<Rightarrow>
               if r = CHR ''='' \<and> s = CHR ''='' \<and> rest = [] then Some [char_of (x * 4 + y div 16)] else None)
      | _ \<Rightarrow> None)"
| "b64_quads _ = None"

definition b64_decode :: "string \<Rightarrow> bytes option" where
  "b64_decode s = b64_quads (filter (\<lambda>c. c \<noteq> CHR 0x0A \<and> c \<noteq> CHR 0x0D) s)"

section \<open>Round trip\<close>

lemma b64_alphabet_facts:
  "\<forall>i \<in> set [0..<64]. b64_val (b64_char (int i)) = Some (int i) \<and> 33 \<le> byte_val (b64_char (int i)) \<and> byte_val (b64_char (int i)) < 127"
  "b64_val (CHR ''='') = None"
  by code_simp+

lemma b64_char_facts:
  assumes "0 \<le> n" "n < 64"
  shows "b64_val (b64_char n) = Some n" "33 \<le> byte_val (b64_char n)" "byte_val (b64_char n) < 127"
  using bspec [OF b64_alphabet_facts(1), of "nat n"] assms by auto

lemma byte_range: "0 \<le> byte_val c" "byte_val c < 256"
proof -
  have "byte_val c = byte_val c mod 256" by (simp add: byte_val_def)
  then show "0 \<le> byte_val c" "byte_val c < 256" by presburger+
qed

lemma char_of_byte_val [simp]: "char_of (byte_val c) = c"
  by (simp add: byte_val_def)

lemma byte_div: "byte_val c div 4 < 64" "byte_val c div 16 < 16" "byte_val c div 64 < 4"
  "0 \<le> byte_val c div 4" "0 \<le> byte_val c div 16" "0 \<le> byte_val c div 64"
  using byte_range [of c] by linarith+

lemma byte_div_div: "byte_val c div 16 div 16 = 0" "byte_val c div 64 div 4 = 0"
  "byte_val c div 16 mod 16 = byte_val c div 16" "byte_val c div 64 mod 4 = byte_val c div 64"
  using byte_div [of c] by simp_all

lemma byte_mod: "0 \<le> byte_val c mod 4 * 16" "byte_val c mod 4 * 16 < 64"
  "0 \<le> byte_val c mod 16 * 4" "byte_val c mod 16 * 4 < 64" "0 \<le> byte_val c mod 64" "byte_val c mod 64 < 64"
  using pos_mod_bound [of 4 "byte_val c"] pos_mod_bound [of 16 "byte_val c"] by simp_all

lemma byte_mod_div:
  "0 \<le> byte_val c mod 4 * 16 + byte_val d div 16" "byte_val c mod 4 * 16 + byte_val d div 16 < 64"
  "0 \<le> byte_val c mod 16 * 4 + byte_val d div 64" "byte_val c mod 16 * 4 + byte_val d div 64 < 64"
proof -
  have "byte_val c mod 4 < 4" "byte_val c mod 16 < 16" by simp_all
  then show "byte_val c mod 4 * 16 + byte_val d div 16 < 64" "byte_val c mod 16 * 4 + byte_val d div 64 < 64"
    using byte_div [of d] by linarith+
qed (use byte_div [of d] in simp_all)

lemmas b64_byte_facts = byte_div byte_div_div byte_mod byte_mod_div

lemma b64_quads_encode: "b64_quads (b64_encode s) = Some s"
  by (induction s rule: b64_encode.induct)
    (simp_all add: Let_def b64_char_facts b64_alphabet_facts(2) b64_byte_facts)

lemma b64_encode_visible: "c \<in> set (b64_encode s) \<Longrightarrow> 33 \<le> byte_val c \<and> byte_val c < 127"
proof (induction s rule: b64_encode.induct)
  case (4 a b c' s)
  then show ?case by (auto simp: Let_def b64_char_facts b64_byte_facts)
qed (auto simp: Let_def b64_char_facts b64_byte_facts, auto simp: byte_val_def)

theorem b64_roundtrip: "b64_decode (b64_encode s) = Some s"
proof -
  have "filter (\<lambda>c. c \<noteq> CHR 0x0A \<and> c \<noteq> CHR 0x0D) (b64_encode s) = b64_encode s"
    by (rule filter_True) (use b64_encode_visible in \<open>fastforce simp: byte_val_def\<close>)
  then show ?thesis by (simp add: b64_decode_def b64_quads_encode)
qed

end
