(* ===== verification/Ladd_Upload.thy ===== *)
theory Ladd_Upload
  imports Ladd_Admin Go_Base64
begin

text \<open>
  The operator's side: keys and signatures (ladd-admin/internal/crypto/sign.go) and the command
  line tool that makes the keys and uploads a list (ladd-admin/cmd/ladd-upload/main.go). The
  primitives of Ed25519 and age are parameters.
\<close>

section \<open>Keys and signatures (internal/crypto/sign.go)\<close>

record crypto_libs =
  ed_generate :: "(bytes \<times> bytes) option"
  ed_sign :: "bytes \<Rightarrow> bytes \<Rightarrow> bytes"
  age_generate :: "(string \<times> string) option"
  age_encrypt :: "bytes \<Rightarrow> string \<Rightarrow> bytes option"

datatype key_error = BadBase64 | WrongSize nat

definition GenerateSigningKeypair :: "crypto_libs \<Rightarrow> (string \<times> string) option" where
  "GenerateSigningKeypair C =
     (case ed_generate C of None \<Rightarrow> None | Some (pub, priv) \<Rightarrow> Some (b64_encode priv, b64_encode pub))"

definition Sign :: "crypto_libs \<Rightarrow> bytes \<Rightarrow> string \<Rightarrow> key_error + bytes" where
  "Sign C data privB64 =
     (case b64_decode (TrimSpace privB64) of
        None \<Rightarrow> Inl BadBase64
      | Some b \<Rightarrow> if length b \<noteq> 64 then Inl (WrongSize (length b)) else Inr (ed_sign C b data))"

definition ParseSigningPublicKey :: "string \<Rightarrow> key_error + bytes" where
  "ParseSigningPublicKey pubB64 =
     (case b64_decode (TrimSpace pubB64) of
        None \<Rightarrow> Inl BadBase64
      | Some b \<Rightarrow> if length b \<noteq> 32 then Inl (WrongSize (length b)) else Inr b)"

definition readOperatorPub :: "os_error + bytes \<Rightarrow> (os_error + key_error) + bytes" where
  "readOperatorPub file =
     (case file of
        Inl e \<Rightarrow> Inl (Inl e)
      | Inr b \<Rightarrow> (case ParseSigningPublicKey b of Inl e \<Rightarrow> Inl (Inr e) | Inr pub \<Rightarrow> Inr pub))"

section \<open>The command line tool (cmd/ladd-upload/main.go)\<close>

text \<open>A call of \<^verbatim>\<open>fatalf\<close> ends the program; its message is the error.\<close>

datatype cli_fatal =
    FatalGenerate
  | FatalWrite string
  | FatalFlags
  | FatalExclusive string
  | FatalReadKey string os_error
  | FatalRequired string
  | FatalReadFile os_error
  | FatalEncrypt
  | FatalSign key_error
  | FatalPost
  | FatalRejected nat message

text \<open>The files \<^verbatim>\<open>keygen\<close> writes, in order: name, content and mode. A write that fails ends it; the
  files before it stay.\<close>

definition keygen_files :: "crypto_libs \<Rightarrow> cli_fatal + (string \<times> bytes \<times> nat) list" where
  "keygen_files C =
     (case GenerateSigningKeypair C of
        None \<Rightarrow> Inl FatalGenerate
      | Some (signPriv, signPub) \<Rightarrow>
          (case age_generate C of
             None \<Rightarrow> Inl FatalGenerate
           | Some (identity, recipient) \<Rightarrow> Inr
               [(''operator-signing.key'', signPriv @ [newline], 384),
                (''operator-signing.pub'', signPub @ [newline], 420),
                (''server-identity.txt'', identity @ [newline], 384),
                (''server-recipient.pub'', recipient @ [newline], 420)]))"

fun write_files :: "(string \<Rightarrow> bool) \<Rightarrow> (string \<times> bytes \<times> nat) list \<Rightarrow> cli_fatal option \<times> (string \<times> bytes \<times> nat) list" where
  "write_files fails [] = (None, [])"
| "write_files fails ((n, c, mode) # fs) =
     (if fails n then (Some (FatalWrite n), [])
      else (let (e, done) = write_files fails fs in (e, (n, c, mode) # done)))"

definition keygen :: "crypto_libs \<Rightarrow> (string \<Rightarrow> bool) \<Rightarrow> cli_fatal option \<times> (string \<times> bytes \<times> nat) list" where
  "keygen C fails = (case keygen_files C of Inl e \<Rightarrow> (Some e, []) | Inr fs \<Rightarrow> write_files fails fs)"

definition firstLinePrefixed :: "string \<Rightarrow> string \<Rightarrow> string" where
  "firstLinePrefixed prefix s =
     (case find (\<lambda>line. HasPrefix line prefix) (map TrimSpace (split_byte newline s)) of
        Some line \<Rightarrow> line
      | None \<Rightarrow> TrimSpace s)"

definition valueOrFile :: "(string \<Rightarrow> os_error + bytes) \<Rightarrow> string \<Rightarrow> string \<Rightarrow> string \<Rightarrow> (string \<Rightarrow> string) \<Rightarrow> cli_fatal + string" where
  "valueOrFile rd name value path pick =
     (if value \<noteq> [] \<and> path \<noteq> [] then Inl (FatalExclusive name)
      else if value \<noteq> [] then Inr value
      else if path \<noteq> [] then (case rd path of Inl e \<Rightarrow> Inl (FatalReadKey name e) | Inr b \<Rightarrow> Inr (pick b))
      else Inl (FatalRequired name))"

text \<open>\<^verbatim>\<open>filepath.Base\<close>.\<close>

definition filepath_Base :: "string \<Rightarrow> string" where
  "filepath_Base p =
     (if p = [] then ''.''
      else (let q = rev (dropWhile (\<lambda>c. c = CHR ''/'') (rev p));
                b = rev (takeWhile (\<lambda>c. c \<noteq> CHR ''/'') (rev q))
            in if b = [] then ''/'' else b))"

record upload_flags =
  fl_file :: string
  fl_recipient :: string
  fl_recipient_file :: string
  fl_sign_key :: string
  fl_sign_key_file :: string
  fl_url :: string

text \<open>What the tool sends, and what it makes of the answer: the status and the decoded response (the
  zero response when the body does not decode), or no answer. \<open>enc\<close> is \<^verbatim>\<open>json.Marshal\<close>.\<close>

definition cli_request :: "crypto_libs \<Rightarrow> (string \<Rightarrow> os_error + bytes) \<Rightarrow> upload_flags \<Rightarrow> cli_fatal + UploadRequest" where
  "cli_request C rd fl =
     (if fl_file fl = [] \<or> fl_url fl = [] then Inl FatalFlags
      else case valueOrFile rd ''recipient'' (fl_recipient fl) (fl_recipient_file fl) (firstLinePrefixed ''age1'') of
             Inl e \<Rightarrow> Inl e
           | Inr pub \<Rightarrow>
               (case valueOrFile rd ''sign-key'' (fl_sign_key fl) (fl_sign_key_file fl) TrimSpace of
                  Inl e \<Rightarrow> Inl e
                | Inr priv \<Rightarrow>
                    (case rd (fl_file fl) of
                       Inl e \<Rightarrow> Inl (FatalReadFile e)
                     | Inr content \<Rightarrow>
                         (case age_encrypt C content pub of
                            None \<Rightarrow> Inl FatalEncrypt
                          | Some ct \<Rightarrow>
                              (let req = \<lparr>Filename = filepath_Base (fl_file fl), Ciphertext = ct, Signature = []\<rparr>
                               in case Sign C (SigningBytes req) priv of
                                    Inl e \<Rightarrow> Inl (FatalSign e)
                                  | Inr sig \<Rightarrow> Inr (req\<lparr>Signature := sig\<rparr>))))))"

definition cli_upload :: "crypto_libs \<Rightarrow> (string \<Rightarrow> os_error + bytes) \<Rightarrow> (UploadRequest \<Rightarrow> bytes) \<Rightarrow>
    (bytes \<Rightarrow> (nat \<times> UploadResponse) option) \<Rightarrow> upload_flags \<Rightarrow> cli_fatal + (string \<times> nat)" where
  "cli_upload C rd enc post fl =
     (case cli_request C rd fl of
        Inl e \<Rightarrow> Inl e
      | Inr req \<Rightarrow>
          (case post (enc req) of
             None \<Rightarrow> Inl FatalPost
           | Some (status, out) \<Rightarrow>
               if status \<noteq> 200 \<or> \<not> OK out then Inl (FatalRejected status (up_Message out))
               else Inr (filepath_Base (fl_file fl), up_Entries out)))"

section \<open>Keys survive their files\<close>

definition visible :: "string \<Rightarrow> bool" where
  "visible s \<longleftrightarrow> list_all (\<lambda>c. 33 \<le> byte_val c \<and> byte_val c < 127) s"

lemma visible_b64: "visible (b64_encode s)"
  using b64_encode_visible by (auto simp: visible_def list_all_iff)

lemma spaces_first: "w \<in> set spaces \<Longrightarrow> byte_val (hd w) < 33 \<or> 127 \<le> byte_val (hd w)"
  and spaces_last: "w \<in> set spaces \<Longrightarrow> byte_val (last w) < 33 \<or> 127 \<le> byte_val (last w)"
proof -
  have "list_all (\<lambda>w. (byte_val (hd w) < 33 \<or> 127 \<le> byte_val (hd w)) \<and> (byte_val (last w) < 33 \<or> 127 \<le> byte_val (last w))) spaces"
    by code_simp
  then show "w \<in> set spaces \<Longrightarrow> byte_val (hd w) < 33 \<or> 127 \<le> byte_val (hd w)"
    "w \<in> set spaces \<Longrightarrow> byte_val (last w) < 33 \<or> 127 \<le> byte_val (last w)"
    by (auto simp: list_all_iff)
qed

lemma leading_visible:
  assumes "\<And>w. w \<in> set ws \<Longrightarrow> byte_val (hd w) < 33 \<or> 127 \<le> byte_val (hd w)"
    and "33 \<le> byte_val c" "byte_val c < 127"
  shows "leading ws (c # s) = None"
  unfolding leading_None
proof (intro ballI impI)
  fix w assume w: "w \<in> set ws" "w \<noteq> []"
  then obtain d w' where "w = d # w'" by (meson neq_Nil_conv)
  then show "take (length w) (c # s) \<noteq> w" using assms(1) [OF w(1)] assms(2,3) by auto
qed

lemma TrimSpace_visible_line:
  assumes "visible s" "s \<noteq> []"
  shows "TrimSpace (s @ [newline]) = s" "TrimSpace s = s"
proof -
  obtain c t where s: "s = c # t" using assms(2) by (cases s) auto
  obtain t' d where s': "s = t' @ [d]" using assms(2) by (cases s rule: rev_cases) auto
  have c: "33 \<le> byte_val c" "byte_val c < 127" using assms(1) by (auto simp: s visible_def)
  have d: "33 \<le> byte_val d" "byte_val d < 127" using assms(1) by (auto simp: s' visible_def)
  have rl: "\<And>w. w \<in> set (map rev spaces) \<Longrightarrow> byte_val (hd w) < 33 \<or> 127 \<le> byte_val (hd w)"
    using spaces_last spaces_nonempty by (fastforce simp: hd_rev)
  have left: "trimLeft (s @ r) = s @ r" for r
    using leading_visible [OF spaces_first c] by (simp add: trimLeft_def s trim_by_None)
  have right: "trimRight s = s"
  proof -
    have "leading (map rev spaces) (d # rev t') = None" by (rule leading_visible [OF rl d])
    then show ?thesis by (simp add: trimRight_def s' trim_by_None)
  qed
  have "leading (map rev spaces) (newline # rev s) = Some [newline]"
    by (simp add: leading_def spaces_def asciiSpace_def newline_def)
  then have "trim_by (map rev spaces) (newline # rev s) = trim_by (map rev spaces) (rev s)"
    by (subst trim_by_Some) auto
  then have "trimRight (s @ [newline]) = s"
    using right by (simp add: trimRight_def)
  then show "TrimSpace (s @ [newline]) = s" "TrimSpace s = s"
    using left [of "[newline]"] left [of "[]"] right by (simp_all add: TrimSpace_def)
qed

lemma split_line: "newline \<notin> set s \<Longrightarrow> split_byte newline (s @ [newline]) = [s, []]"
  by (induction s) auto

lemma visible_no_newline: "visible s \<Longrightarrow> newline \<notin> set s"
  by (auto simp: visible_def list_all_iff newline_def byte_val_def dest!: bspec)

lemma b64_line:
  assumes "k \<noteq> []"
  shows "b64_decode (TrimSpace (b64_encode k @ [newline])) = Some k" "b64_decode (TrimSpace (b64_encode k)) = Some k"
proof -
  have "b64_encode k \<noteq> []" using assms by (cases k rule: b64_encode.cases) (simp_all add: Let_def)
  then show "b64_decode (TrimSpace (b64_encode k @ [newline])) = Some k" "b64_decode (TrimSpace (b64_encode k)) = Some k"
    using TrimSpace_visible_line [OF visible_b64] by (simp_all add: b64_roundtrip)
qed

lemma firstLinePrefixed_line:
  assumes "visible s" "HasPrefix s p" "p \<noteq> []"
  shows "firstLinePrefixed p (s @ [newline]) = s"
proof -
  have "s \<noteq> []" using assms(2,3) by (auto simp: HasPrefix_def)
  then show ?thesis
    using TrimSpace_visible_line(2) [OF assms(1)] assms(2) split_line [OF visible_no_newline [OF assms(1)]]
    by (simp add: firstLinePrefixed_def)
qed

lemma readIdentity_line:
  assumes "visible s" "HasPrefix s ''AGE-SECRET-KEY-''"
  shows "readIdentity (Inr (s @ [newline])) = Inr s"
proof -
  have "s \<noteq> []" using assms(2) by (auto simp: HasPrefix_def)
  then show ?thesis
    using TrimSpace_visible_line(2) [OF assms(1)] assms(2) split_line [OF visible_no_newline [OF assms(1)]]
    by (simp add: readIdentity_def)
qed

text \<open>What the primitives promise: key sizes, verification of a signature made with the other half
  of the pair, decryption of what was encrypted to the other half, and the form of age keys.\<close>

definition crypto_ok :: "crypto_libs \<Rightarrow> upload_libs \<Rightarrow> bool" where
  "crypto_ok C L \<longleftrightarrow>
     (\<forall>pub priv. ed_generate C = Some (pub, priv) \<longrightarrow> length pub = 32 \<and> length priv = 64 \<and>
        (\<forall>data. verify L pub data (ed_sign C priv data))) \<and>
     (\<forall>identity recipient. age_generate C = Some (identity, recipient) \<longrightarrow>
        visible identity \<and> HasPrefix identity ''AGE-SECRET-KEY-'' \<and> visible recipient \<and> HasPrefix recipient ''age1'' \<and>
        (\<forall>p. \<exists>ct. age_encrypt C p recipient = Some ct \<and> decrypt L ct identity = Some p))"

section \<open>Property\<close>


text \<open>A concrete choice of the parameters: a length-prefixed encoding of requests, and keys that sign
  and encrypt by copying.\<close>

definition demo_enc :: "UploadRequest \<Rightarrow> bytes" where
  "demo_enc r = replicate (length (Filename r)) (CHR ''1'') @ CHR ''0'' #
     replicate (length (Ciphertext r)) (CHR ''1'') @ CHR ''0'' # Filename r @ Ciphertext r @ Signature r"

definition demo_dec :: "bytes \<Rightarrow> UploadRequest option" where
  "demo_dec b =
     (let n = length (takeWhile (\<lambda>c. c = CHR ''1'') b); b = drop (n + 1) b;
          m = length (takeWhile (\<lambda>c. c = CHR ''1'') b); b = drop (m + 1) b
      in Some \<lparr>Filename = take n b, Ciphertext = take m (drop n b), Signature = drop (n + m) b\<rparr>)"

lemma demo_dec_enc: "demo_dec (demo_enc r) = Some r"
proof -
  have "takeWhile (\<lambda>c. c = CHR ''1'') (replicate n (CHR ''1'') @ CHR ''0'' # s) = replicate n (CHR ''1'')" for n s
    by (induction n) auto
  then show ?thesis by (simp add: demo_dec_def demo_enc_def)
qed

definition demo_crypto :: crypto_libs where
  "demo_crypto = \<lparr>ed_generate = Some (replicate 32 (CHR ''p''), replicate 64 (CHR ''s'')), ed_sign = (\<lambda>k d. []),
     age_generate = Some (''AGE-SECRET-KEY-1X'', ''age1x''), age_encrypt = (\<lambda>p r. Some p)\<rparr>"

definition demo_key_files :: "(string \<times> bytes \<times> nat) list" where
  "demo_key_files = snd (keygen demo_crypto (\<lambda>n. False))"

definition demo_rd :: "string \<Rightarrow> os_error + bytes" where
  "demo_rd p = (if p = ''LADD_Industry_Filter_20250601.txt'' then Inr ''N123''
     else case map_of demo_key_files p of None \<Rightarrow> Inl ErrNotExist | Some (c, mode) \<Rightarrow> Inr c)"

definition keyed_server :: server where
  "keyed_server = demo_server\<lparr>srv_identity := ''AGE-SECRET-KEY-1X'', srv_operatorPub := replicate 32 (CHR ''p'')\<rparr>"


end
