(* ===== verification/Go_Strconv.thy ===== *)
theory Go_Strconv
  imports Go_Time
begin

text \<open>
  Go's \<^verbatim>\<open>strconv.ParseInt(s, 10, 64)\<close>, \<^verbatim>\<open>strconv.Atoi\<close> and \<^verbatim>\<open>strconv.ParseBool\<close>, and
  \<^verbatim>\<open>fmt.Sprintf("%d")\<close>.
\<close>

definition parse_sign :: "string \<Rightarrow> bool \<times> string" where
  "parse_sign s = (case s of
      c # t \<Rightarrow> if c = CHR ''-'' then (True, t) else if c = CHR ''+'' then (False, t) else (False, s)
    | [] \<Rightarrow> (False, s))"

definition ParseInt64 :: "string \<Rightarrow> int option" where
  "ParseInt64 s =
     (let (neg, ds) = parse_sign s
      in if ds = [] \<or> \<not> list_all is_digit ds then None
         else (let n = read_nat ds; v = (if neg then - n else n)
               in if - (2 ^ 63) \<le> v \<and> v < 2 ^ 63 then Some v else None))"

text \<open>An \<^verbatim>\<open>int\<close> has 64 bits on the platforms the services are built for.\<close>

definition Atoi :: "string \<Rightarrow> int option" where
  "Atoi s = ParseInt64 s"

definition ParseBool :: "string \<Rightarrow> bool option" where
  "ParseBool s =
     (if s \<in> set [''1'', ''t'', ''T'', ''true'', ''TRUE'', ''True''] then Some True
      else if s \<in> set [''0'', ''f'', ''F'', ''false'', ''FALSE'', ''False''] then Some False
      else None)"

definition show_int :: "int \<Rightarrow> string" where
  "show_int n = (if n < 0 then CHR ''-'' # show_nat (nat (- n)) else show_nat (nat n))"

lemma show_nat_not_Nil [simp]: "show_nat n \<noteq> []"
  by (subst show_nat.simps) simp

lemma Atoi_show_nat: "int n < 2 ^ 63 \<Longrightarrow> Atoi (show_nat n) = Some (int n)"
proof -
  assume n: "int n < 2 ^ 63"
  obtain c t where s: "show_nat n = c # t" by (cases "show_nat n") auto
  have "is_digit c" using show_nat_digits [of n] by (simp add: s)
  then have "c \<noteq> CHR ''-''" "c \<noteq> CHR ''+''" by (auto simp: is_digit_def byte_val_def)
  then have "parse_sign (show_nat n) = (False, show_nat n)" by (simp add: parse_sign_def s)
  then show ?thesis
    using n show_nat_digits [of n] by (simp add: Atoi_def ParseInt64_def)
qed

lemma Atoi_range: "Atoi s = Some n \<Longrightarrow> - (2 ^ 63) \<le> n \<and> n < 2 ^ 63"
  by (auto simp: Atoi_def ParseInt64_def Let_def split: prod.splits if_splits)

end
