(* ===== verification/Db_Migrate.thy ===== *)
theory Db_Migrate
  imports Go_Strconv Os_Files
begin

text \<open>
  database-writer/internal/migrate/migrate.go: the SQL files embedded in the program, applied in the
  order of their version numbers above the highest recorded one. PostgreSQL is a parameter: what a
  script does to a database, with the contract that a script is one transaction.
\<close>

section \<open>Model\<close>

record migration =
  version :: int
  mig_name :: string
  mig_sql :: string

datatype load_migration_error =
    MigOs os_error
  | BadFilename string
  | BadVersion string

text \<open>\<^verbatim>\<open>strings.SplitN(s, "_", 2)\<close>.\<close>

definition splitN2 :: "string \<Rightarrow> string list" where
  "splitN2 s = (case dropWhile (\<lambda>c. c \<noteq> CHR ''_'') s of
      [] \<Rightarrow> [s]
    | _ # t \<Rightarrow> [takeWhile (\<lambda>c. c \<noteq> CHR ''_'') s, t])"

text \<open>The loop of \<^verbatim>\<open>load\<close> over the directory entries, with the migrations read so far.\<close>

fun load_loop :: "osenv \<Rightarrow> fsys \<Rightarrow> migration list \<Rightarrow> dirent list \<Rightarrow> load_migration_error + migration list" where
  "load_loop env fs migs [] = Inr migs"
| "load_loop env fs migs ((n, e) # es) =
     (if e = Dir \<or> \<not> HasSuffix n ''.sql'' then load_loop env fs migs es
      else case splitN2 (TrimSuffix n ''.sql'') of
             [v, nm] \<Rightarrow>
               (case Atoi v of
                  None \<Rightarrow> Inl (BadVersion n)
                | Some k \<Rightarrow>
                    (case ReadFile env fs ''sql'' n of
                       Inl err \<Rightarrow> Inl (MigOs err)
                     | Inr b \<Rightarrow> load_loop env fs (migs @ [\<lparr>version = k, mig_name = nm, mig_sql = b\<rparr>]) es))
           | _ \<Rightarrow> Inl (BadFilename n))"

text \<open>\<open>srt\<close> is \<^verbatim>\<open>sort.Slice\<close> by version, which does not say how it orders equal versions.\<close>

definition sorts :: "(migration list \<Rightarrow> migration list) \<Rightarrow> bool" where
  "sorts srt \<longleftrightarrow> (\<forall>ms. mset (srt ms) = mset ms \<and> sorted (map version (srt ms)))"

definition load :: "(migration list \<Rightarrow> migration list) \<Rightarrow> osenv \<Rightarrow> fsys \<Rightarrow> load_migration_error + migration list" where
  "load srt env fs =
     (case ReadDir env fs ''sql'' of
        Inl e \<Rightarrow> Inl (MigOs e)
      | Inr es \<Rightarrow> (case load_loop env fs [] es of Inl e \<Rightarrow> Inl e | Inr ms \<Rightarrow> Inr (srt ms)))"

fun replaceQuotes :: "string \<Rightarrow> string" where
  "replaceQuotes [] = []"
| "replaceQuotes (c # s) = (if c = CHR 0x27 then [CHR 0x27, CHR 0x27] else [c]) @ replaceQuotes s"

definition quoteLiteral :: "string \<Rightarrow> string" where
  "quoteLiteral s = CHR 0x27 # replaceQuotes s @ [CHR 0x27]"

definition insert_stmt :: "int \<Rightarrow> string \<Rightarrow> string" where
  "insert_stmt v lit =
     newline # ''INSERT INTO schema_migrations (version, name) VALUES ('' @ show_int v @ '', '' @ lit @ '');''"

definition script :: "migration \<Rightarrow> string" where
  "script m = mig_sql m @ insert_stmt (version m) (quoteLiteral (mig_name m))"

text \<open>A database: the rest of it, and the rows of \<^verbatim>\<open>schema_migrations\<close>, once that table exists.\<close>

record 's pgdb =
  schema :: 's
  applied :: "(int \<times> string) list option"

text \<open>The steps that may fail before the first script.\<close>

record mig_env =
  acquire_ok :: bool
  lock_ok :: bool
  ensure_ok :: bool
  read_ok :: bool

datatype 'e mig_error =
    LoadFailed load_migration_error
  | AcquireFailed
  | LockFailed
  | EnsureFailed
  | ReadVersionFailed
  | MigrationFailed migration 'e

type_synonym ('s, 'e) pg = "string \<Rightarrow> 's pgdb \<Rightarrow> 'e + 's pgdb"

definition ensure_table :: "'s pgdb \<Rightarrow> 's pgdb" where
  "ensure_table d = (case applied d of None \<Rightarrow> d\<lparr>applied := Some []\<rparr> | Some _ \<Rightarrow> d)"

text \<open>\<^verbatim>\<open>COALESCE(max(version), 0)\<close>.\<close>

definition current_version :: "'s pgdb \<Rightarrow> int" where
  "current_version d = (case applied d of
      None \<Rightarrow> 0
    | Some rows \<Rightarrow> if rows = [] then 0 else Max (fst ` set rows))"

fun apply_loop :: "('s, 'e) pg \<Rightarrow> int \<Rightarrow> migration list \<Rightarrow> nat \<Rightarrow> 's pgdb \<Rightarrow> ('e mig_error + nat) \<times> 's pgdb" where
  "apply_loop P current [] n d = (Inr n, d)"
| "apply_loop P current (m # ms) n d =
     (if version m \<le> current then apply_loop P current ms n d
      else case P (script m) d of
             Inl e \<Rightarrow> (Inl (MigrationFailed m e), d)
           | Inr d' \<Rightarrow> apply_loop P current ms (n + 1) d')"

text \<open>The result of \<^verbatim>\<open>Run\<close>: the number of migrations applied, or the error.\<close>

definition Run :: "(migration list \<Rightarrow> migration list) \<Rightarrow> osenv \<Rightarrow> fsys \<Rightarrow> ('s, 'e) pg \<Rightarrow> mig_env \<Rightarrow> 's pgdb \<Rightarrow>
    ('e mig_error + nat) \<times> 's pgdb" where
  "Run srt oenv fs P env d =
     (case load srt oenv fs of
        Inl e \<Rightarrow> (Inl (LoadFailed e), d)
      | Inr migs \<Rightarrow>
          if \<not> acquire_ok env then (Inl AcquireFailed, d)
          else if \<not> lock_ok env then (Inl LockFailed, d)
          else if \<not> ensure_ok env then (Inl EnsureFailed, d)
          else (let d1 = ensure_table d
                in if \<not> read_ok env then (Inl ReadVersionFailed, d1)
                   else apply_loop P (current_version d1) migs 0 d1))"

section \<open>The literal reads back\<close>

text \<open>A standard SQL string literal at the start of a text: its value and what follows it.\<close>

fun literal_body :: "string \<Rightarrow> (string \<times> string) option" where
  "literal_body [] = None"
| "literal_body [c] = (if c = CHR 0x27 then Some ([], []) else None)"
| "literal_body (c # d # s) =
     (if c = CHR 0x27
      then (if d = CHR 0x27 then map_option (\<lambda>(a, r). (c # a, r)) (literal_body s) else Some ([], d # s))
      else map_option (\<lambda>(a, r). (c # a, r)) (literal_body (d # s)))"

definition read_literal :: "string \<Rightarrow> (string \<times> string) option" where
  "read_literal s = (case s of c # t \<Rightarrow> if c = CHR 0x27 then literal_body t else None | [] \<Rightarrow> None)"

lemma literal_body_quoted:
  assumes "r \<noteq> []" "hd r \<noteq> CHR 0x27"
  shows "literal_body (replaceQuotes s @ CHR 0x27 # r) = Some (s, r)"
proof (induction s)
  case Nil
  then show ?case using assms by (cases r) auto
next
  case (Cons c s)
  obtain d t where t: "replaceQuotes s @ CHR 0x27 # r = d # t" by (cases "replaceQuotes s") auto
  then show ?case using Cons by (auto simp: t)
qed

theorem quoteLiteral_reads_back:
  "r \<noteq> [] \<Longrightarrow> hd r \<noteq> CHR 0x27 \<Longrightarrow> read_literal (quoteLiteral s @ r) = Some (s, r)"
  using literal_body_quoted by (simp add: read_literal_def quoteLiteral_def)

section \<open>What a run does\<close>

text \<open>A script as one transaction: the SQL of the migration, then the row, whose key must be new and fit
  an \<^verbatim>\<open>integer\<close>.\<close>

definition pg_step :: "(string \<Rightarrow> 's \<Rightarrow> 's option) \<Rightarrow> string \<Rightarrow> int \<Rightarrow> string \<Rightarrow> 's pgdb \<Rightarrow> 's pgdb option" where
  "pg_step sqlrun sql v name d =
     (case (sqlrun sql (schema d), applied d) of
        (Some s', Some rows) \<Rightarrow>
          if v \<in> fst ` set rows \<or> v < - (2 ^ 31) \<or> 2 ^ 31 \<le> v then None
          else Some \<lparr>schema = s', applied = Some (rows @ [(v, name)])\<rparr>
      | _ \<Rightarrow> None)"

definition pg_contract :: "('s, 'e) pg \<Rightarrow> (string \<Rightarrow> 's \<Rightarrow> 's option) \<Rightarrow> migration list \<Rightarrow> bool" where
  "pg_contract P sqlrun ms \<longleftrightarrow>
     (\<forall>m \<in> set ms. \<forall>d name. read_literal (quoteLiteral (mig_name m) @ '');'') = Some (name, '');'') \<longrightarrow>
        (case pg_step sqlrun (mig_sql m) (version m) name d of
           None \<Rightarrow> \<exists>e. P (script m) d = Inl e
         | Some d' \<Rightarrow> P (script m) d = Inr d'))"

lemma pg_contract_script:
  assumes "pg_contract P sqlrun ms" "m \<in> set ms"
  shows "case pg_step sqlrun (mig_sql m) (version m) (mig_name m) d of
     None \<Rightarrow> \<exists>e. P (script m) d = Inl e | Some d' \<Rightarrow> P (script m) d = Inr d'"
proof -
  have "read_literal (quoteLiteral (mig_name m) @ '');'') = Some (mig_name m, '');'')"
    by (rule quoteLiteral_reads_back) simp_all
  then show ?thesis using assms unfolding pg_contract_def by blast
qed

definition mig_row :: "migration \<Rightarrow> int \<times> string" where
  "mig_row m = (version m, mig_name m)"

text \<open>\<open>applied_to sqlrun ms d d'\<close>: \<open>d'\<close> is \<open>d\<close> after the migrations \<open>ms\<close>, in order, all of them whole.\<close>

fun applied_to :: "(string \<Rightarrow> 's \<Rightarrow> 's option) \<Rightarrow> migration list \<Rightarrow> 's pgdb \<Rightarrow> 's pgdb \<Rightarrow> bool" where
  "applied_to sqlrun [] d d' \<longleftrightarrow> d' = d"
| "applied_to sqlrun (m # ms) d d' \<longleftrightarrow>
     (\<exists>d1. pg_step sqlrun (mig_sql m) (version m) (mig_name m) d = Some d1 \<and> applied_to sqlrun ms d1 d')"

lemma applied_to_rows:
  "applied_to sqlrun ms d d' \<Longrightarrow> applied d = Some rows \<Longrightarrow> distinct (map fst rows) \<Longrightarrow>
   applied d' = Some (rows @ map mig_row ms) \<and> distinct (map fst (rows @ map mig_row ms))"
proof (induction ms arbitrary: d rows)
  case (Cons m ms)
  obtain d1 where d1: "pg_step sqlrun (mig_sql m) (version m) (mig_name m) d = Some d1" "applied_to sqlrun ms d1 d'"
    using Cons.prems by auto
  have "applied d1 = Some (rows @ [mig_row m])" "version m \<notin> fst ` set rows"
    using d1(1) Cons.prems(2) by (auto simp: pg_step_def mig_row_def split: option.splits if_splits)
  then show ?case
    using Cons.IH [OF d1(2), of "rows @ [mig_row m]"] Cons.prems(3) by (simp add: mig_row_def)
qed simp

text \<open>Where the loop over the pending migrations stopped: after all of them, or at the one that failed.\<close>

definition stopped_at :: "migration list \<Rightarrow> nat \<Rightarrow> nat \<Rightarrow> 'e mig_error + nat \<Rightarrow> bool" where
  "stopped_at pend n k res = (case res of
      Inr n' \<Rightarrow> n' = n + k \<and> k = length pend
    | Inl e \<Rightarrow> k < length pend \<and> (\<exists>err. e = MigrationFailed (pend ! k) err))"

lemma stopped_at_simps [simp]:
  "stopped_at [] n 0 (Inr n)"
  "stopped_at (m # pend) n (Suc k) res \<longleftrightarrow> stopped_at pend (Suc n) k res"
  "stopped_at (m # pend) n 0 (Inl (MigrationFailed m e))"
  by (auto simp: stopped_at_def split: sum.splits)

lemma apply_loop_spec:
  assumes "pg_contract P sqlrun all" "set ms \<subseteq> set all" "apply_loop P cur ms n d = (res, d')"
  shows "\<exists>k. stopped_at (filter (\<lambda>m. cur < version m) ms) n k res \<and>
     applied_to sqlrun (take k (filter (\<lambda>m. cur < version m) ms)) d d'"
  using assms(2,3)
proof (induction ms arbitrary: n d)
  case (Cons m ms)
  show ?case
  proof (cases "version m \<le> cur")
    case True
    then show ?thesis using Cons by simp
  next
    case False
    have step: "case pg_step sqlrun (mig_sql m) (version m) (mig_name m) d of
        None \<Rightarrow> \<exists>e. P (script m) d = Inl e | Some d' \<Rightarrow> P (script m) d = Inr d'"
      using pg_contract_script [OF assms(1)] Cons.prems(1) by simp
    show ?thesis
    proof (cases "pg_step sqlrun (mig_sql m) (version m) (mig_name m) d")
      case None
      then show ?thesis
        using step Cons.prems(2) False by (intro exI [of _ 0]) auto
    next
      case (Some d1)
      then have "apply_loop P cur ms (n + 1) d1 = (res, d')"
        using step Cons.prems(2) False by simp
      from Cons.IH [OF _ this] Cons.prems(1) obtain k where
        "stopped_at (filter (\<lambda>m. cur < version m) ms) (n + 1) k res"
        "applied_to sqlrun (take k (filter (\<lambda>m. cur < version m) ms)) d1 d'"
        by auto
      then show ?thesis
        using False Some by (intro exI [of _ "Suc k"]) simp
    qed
  qed
qed (auto simp: stopped_at_def)

definition all_ok :: mig_env where
  "all_ok = \<lparr>acquire_ok = True, lock_ok = True, ensure_ok = True, read_ok = True\<rparr>"

definition wf_rows :: "'s pgdb \<Rightarrow> bool" where
  "wf_rows d \<longleftrightarrow> (case applied d of None \<Rightarrow> True | Some rows \<Rightarrow> distinct (map fst rows))"

lemma Run_all_ok:
  "load srt oenv fs = Inr migs \<Longrightarrow>
   Run srt oenv fs P all_ok d = apply_loop P (current_version (ensure_table d)) migs 0 (ensure_table d)"
  by (simp add: Run_def all_ok_def Let_def)

lemma load_sorted: "sorts srt \<Longrightarrow> load srt oenv fs = Inr migs \<Longrightarrow> sorted (map version migs)"
  by (auto simp: load_def sorts_def split: sum.splits)

lemma current_version_max: "applied d = Some rows \<Longrightarrow> v \<in> fst ` set rows \<Longrightarrow> v \<le> current_version d"
  by (auto simp: current_version_def)

lemma current_version_mono:
  assumes "applied d = Some rows" "applied d' = Some (rows @ new)" "v \<in> fst ` set new" "current_version d \<le> v"
  shows "current_version d \<le> current_version d'"
proof -
  have "v \<in> fst ` set (rows @ new)" using assms(3) by (simp add: image_Un)
  then show ?thesis using current_version_max [OF assms(2)] assms(4) by (meson order_trans)
qed

section \<open>Properties\<close>

lemma Run_spec:
  assumes "load srt oenv fs = Inr migs" "pg_contract P sqlrun migs" "Run srt oenv fs P all_ok d = (res, d')"
  shows "\<exists>k. stopped_at (filter (\<lambda>m. current_version (ensure_table d) < version m) migs) 0 k res \<and>
     applied_to sqlrun (take k (filter (\<lambda>m. current_version (ensure_table d) < version m) migs)) (ensure_table d) d'"
  by (rule apply_loop_spec [OF assms(2) order_refl assms(3) [unfolded Run_all_ok [OF assms(1)]]])

lemma ensure_applied: "\<exists>rows. applied (ensure_table d) = Some rows"
  by (auto simp: ensure_table_def split: option.split)

lemma all_versions_covered:
  fixes P :: "('s, 'e) pg"
  assumes "wf_rows d" "load srt oenv fs = Inr migs" "pg_contract P sqlrun migs"
    and "Run srt oenv fs P all_ok d = (Inr n, d')" "m \<in> set migs"
  shows "version m \<le> current_version d'"
proof -
  let ?pend = "filter (\<lambda>m. current_version (ensure_table d) < version m) migs"
  obtain k where k: "stopped_at ?pend 0 k (Inr n :: 'e mig_error + nat)" "applied_to sqlrun (take k ?pend) (ensure_table d) d'"
    using Run_spec [OF assms(2-4)] by blast
  obtain rows where rows: "applied (ensure_table d) = Some rows" using ensure_applied by blast
  have "distinct (map fst rows)"
    using assms(1) rows by (auto simp: wf_rows_def ensure_table_def split: option.splits)
  then have r: "applied d' = Some (rows @ map mig_row ?pend)"
    using applied_to_rows [OF k(2) rows] k(1) by (simp add: stopped_at_def)
  have keep: "current_version (ensure_table d) \<le> current_version d'"
  proof (cases ?pend)
    case Nil
    then show ?thesis using r rows by (simp add: current_version_def)
  next
    case (Cons m' ms)
    then have m': "m' \<in> set ?pend" by (metis list.set_intros(1))
    then have le: "current_version (ensure_table d) \<le> version m'" by simp
    have "fst (mig_row m') \<in> fst ` set (map mig_row ?pend)"
      unfolding set_map by (rule imageI [OF imageI [OF m']])
    then have "version m' \<in> fst ` set (map mig_row ?pend)" unfolding mig_row_def by (simp only: fst_conv)
    then show ?thesis using le by (rule current_version_mono [OF rows r])
  qed
  show ?thesis
  proof (cases "current_version (ensure_table d) < version m")
    case True
    then have "fst (mig_row m) \<in> fst ` set (rows @ map mig_row ?pend)"
      using assms(5) by (intro imageI) simp
    then have "version m \<in> fst ` set (rows @ map mig_row ?pend)" by (simp add: mig_row_def)
    then show ?thesis by (rule current_version_max [OF r])
  qed (use keep in simp)
qed

lemma Run_rows:
  assumes "wf_rows d" "load srt oenv fs = Inr migs" "pg_contract P sqlrun migs"
    and "Run srt oenv fs P all_ok d = (res, d')"
  defines "pend \<equiv> filter (\<lambda>m. current_version (ensure_table d) < version m) migs"
  shows "\<exists>k rows. stopped_at pend 0 k res \<and> applied_to sqlrun (take k pend) (ensure_table d) d' \<and>
       applied (ensure_table d) = Some rows \<and> applied d' = Some (rows @ map mig_row (take k pend))"
proof -
  obtain k where k: "stopped_at pend 0 k res" "applied_to sqlrun (take k pend) (ensure_table d) d'"
    using Run_spec [OF assms(2-4)] unfolding pend_def by blast
  obtain rows where rows: "applied (ensure_table d) = Some rows" using ensure_applied by blast
  have "distinct (map fst rows)"
    using assms(1) rows by (auto simp: wf_rows_def ensure_table_def split: option.splits)
  then show ?thesis using applied_to_rows [OF k(2) rows] k rows by blast
qed

lemma rerun_changes_nothing:
  assumes "wf_rows d" "load srt oenv fs = Inr migs" "pg_contract P sqlrun migs"
    and "Run srt oenv fs P all_ok d = (Inr n, d')"
  shows "Run srt oenv fs P all_ok d' = (Inr 0, d')"
proof -
  have "ensure_table d' = d'" using Run_rows [OF assms] by (auto simp: ensure_table_def)
  moreover have "apply_loop P cur ms i d' = (Inr i, d')" if "\<forall>m \<in> set ms. version m \<le> cur" for cur ms i
    using that by (induction ms) auto
  ultimately show ?thesis
    using all_versions_covered [OF assms] by (simp add: Run_all_ok [OF assms(2)])
qed

text \<open>
  C19: a run applies the pending migrations (those above the highest recorded version) in ascending
  order, each whole or not at all: it stops after all of them or, with an error, at the first that
  fails, everything before it being applied and recorded and nothing else changed. After a run that
  succeeded, another run changes nothing.
\<close>

theorem migrations_applied_in_order:
  assumes "sorts srt" "wf_rows d" "load srt oenv fs = Inr migs" "pg_contract P sqlrun migs"
    and "Run srt oenv fs P all_ok d = (res, d')"
  defines "pend \<equiv> filter (\<lambda>m. current_version (ensure_table d) < version m) migs"
  shows "(\<exists>k rows. stopped_at pend 0 k res \<and> applied_to sqlrun (take k pend) (ensure_table d) d' \<and>
       applied (ensure_table d) = Some rows \<and> applied d' = Some (rows @ map mig_row (take k pend))) \<and>
     sorted (map version pend) \<and> (\<forall>n. res = Inr n \<longrightarrow> Run srt oenv fs P all_ok d' = (Inr 0, d'))"
proof (intro conjI allI impI)
  show "\<exists>k rows. stopped_at pend 0 k res \<and> applied_to sqlrun (take k pend) (ensure_table d) d' \<and>
       applied (ensure_table d) = Some rows \<and> applied d' = Some (rows @ map mig_row (take k pend))"
    using Run_rows [OF assms(2-5)] unfolding pend_def .
  show "sorted (map version pend)"
    using load_sorted [OF assms(1,3)] by (simp add: pend_def sorted_filter)
  fix n assume n: "res = Inr n"
  show "Run srt oenv fs P all_ok d' = (Inr 0, d')"
    using rerun_changes_nothing [OF assms(2-4)] assms(5) n by simp
qed

section \<open>A concrete run\<close>

text \<open>A database whose schema is the list of the scripts it ran; \<^verbatim>\<open>bad\<close> is the one that fails.\<close>

definition log_sql :: "string \<Rightarrow> string list \<Rightarrow> string list option" where
  "log_sql sql s = (if sql = ''bad'' then None else Some (s @ [sql]))"

fun list_pg :: "migration list \<Rightarrow> (string list, unit) pg" where
  "list_pg [] txt d = Inl ()"
| "list_pg (m # ms) txt d =
     (if txt = script m
      then case pg_step log_sql (mig_sql m) (version m) (mig_name m) d of None \<Rightarrow> Inl () | Some d' \<Rightarrow> Inr d'
      else list_pg ms txt d)"

lemma list_pg_contract:
  assumes "distinct (map script ms)"
  shows "pg_contract (list_pg ms) log_sql ms"
proof -
  have run: "m \<in> set ms \<Longrightarrow> list_pg ms (script m) d =
      (case pg_step log_sql (mig_sql m) (version m) (mig_name m) d of None \<Rightarrow> Inl () | Some d' \<Rightarrow> Inr d')" for m d
    using assms by (induction ms) (auto simp: image_iff)
  show ?thesis
    unfolding pg_contract_def by (auto simp: run quoteLiteral_reads_back split: option.split)
qed

lemma sorts_sort_key: "sorts (sort_key version)"
  by (simp add: sorts_def)

definition demo_fs :: fsys where
  "demo_fs = [''sql'' \<mapsto> [(''2_b.sql'', File ''bad''), (''1_a.sql'', File ''x''), (''README'', File [])]]"

definition demo_migs :: "migration list" where
  "demo_migs = [\<lparr>version = 1, mig_name = ''a'', mig_sql = ''x''\<rparr>, \<lparr>version = 2, mig_name = ''b'', mig_sql = ''bad''\<rparr>]"

definition fresh_db :: "string list pgdb" where
  "fresh_db = \<lparr>schema = [], applied = None\<rparr>"

lemma demo_load: "load (sort_key version) no_faults demo_fs = Inr demo_migs"
  by code_simp

lemma demo_contract: "pg_contract (list_pg demo_migs) log_sql demo_migs"
  by (rule list_pg_contract) (simp add: demo_migs_def script_def)

theorem migrations_applied_in_order_witness:
  "\<exists>k. stopped_at demo_migs 0 k (Inl (MigrationFailed (demo_migs ! 1) ())) \<and>
     applied_to log_sql (take k demo_migs) (ensure_table fresh_db) \<lparr>schema = [''x''], applied = Some [(1, ''a'')]\<rparr>"
proof -
  have run: "Run (sort_key version) no_faults demo_fs (list_pg demo_migs) all_ok fresh_db =
      (Inl (MigrationFailed (demo_migs ! 1) ()), \<lparr>schema = [''x''], applied = Some [(1, ''a'')]\<rparr>)"
    by code_simp
  have "wf_rows fresh_db" "filter (\<lambda>m. current_version (ensure_table fresh_db) < version m) demo_migs = demo_migs"
    by code_simp+
  then show ?thesis
    using migrations_applied_in_order [OF sorts_sort_key _ demo_load demo_contract run] by auto
qed

text \<open>
  Two files with the same version: the first run applies the one that sorts first and fails with
  an error at the other; but from then on every run succeeds with nothing to do, and the other file
  is never applied.
\<close>

theorem duplicate_version_never_applied:
  assumes "load srt oenv fs = Inr [m1, m2]" "pg_contract P sqlrun [m1, m2]" "version m1 = version m2"
    and "wf_rows d" "current_version (ensure_table d) < version m1"
    and "pg_step sqlrun (mig_sql m1) (version m1) (mig_name m1) (ensure_table d) = Some d1"
  shows "(\<exists>e. Run srt oenv fs P all_ok d = (Inl (MigrationFailed m2 e), d1)) \<and>
     Run srt oenv fs P all_ok d1 = (Inr 0, d1)"
proof -
  obtain rows where rows: "applied (ensure_table d) = Some rows" using ensure_applied by blast
  then have r: "applied d1 = Some (rows @ [(version m1, mig_name m1)])"
    using assms(6) by (auto simp: pg_step_def split: option.splits if_splits)
  have "version m1 \<le> current_version d1"
    by (rule current_version_max [OF r]) simp
  moreover have "ensure_table d1 = d1" using r by (simp add: ensure_table_def)
  moreover have "P (script m1) (ensure_table d) = Inr d1"
    using pg_contract_script [OF assms(2), of m1 "ensure_table d"] assms(6) by simp
  moreover have "pg_step sqlrun (mig_sql m2) (version m2) (mig_name m2) d1 = None"
    using r assms(3) by (auto simp: pg_step_def split: option.splits)
  then have "\<exists>e. P (script m2) d1 = Inl e"
    using pg_contract_script [OF assms(2), of m2 d1] by simp
  ultimately show ?thesis
    using assms(3,5) by (auto simp: Run_all_ok [OF assms(1)])
qed

definition twin_migs :: "migration list" where
  "twin_migs = [\<lparr>version = 1, mig_name = ''a'', mig_sql = ''x''\<rparr>, \<lparr>version = 1, mig_name = ''b'', mig_sql = ''y''\<rparr>]"

theorem duplicate_version_never_applied_witness:
  "Run (sort_key version) no_faults [''sql'' \<mapsto> [(''1_a.sql'', File ''x''), (''1_b.sql'', File ''y'')]]
     (list_pg twin_migs) all_ok \<lparr>schema = [''x''], applied = Some [(1, ''a'')]\<rparr> =
   (Inr 0, \<lparr>schema = [''x''], applied = Some [(1, ''a'')]\<rparr>)"
proof -
  have l: "load (sort_key version) no_faults [''sql'' \<mapsto> [(''1_a.sql'', File ''x''), (''1_b.sql'', File ''y'')]] =
      Inr [twin_migs ! 0, twin_migs ! 1]"
    by code_simp
  have t: "[twin_migs ! 0, twin_migs ! 1] = twin_migs" by code_simp
  have "pg_contract (list_pg twin_migs) log_sql [twin_migs ! 0, twin_migs ! 1]"
    unfolding t by (rule list_pg_contract) (simp add: twin_migs_def script_def)
  moreover have "version (twin_migs ! 0) = version (twin_migs ! 1)" "wf_rows fresh_db"
    "current_version (ensure_table fresh_db) < version (twin_migs ! 0)"
    "pg_step log_sql (mig_sql (twin_migs ! 0)) (version (twin_migs ! 0)) (mig_name (twin_migs ! 0))
       (ensure_table fresh_db) = Some \<lparr>schema = [''x''], applied = Some [(1, ''a'')]\<rparr>"
    by code_simp+
  ultimately show ?thesis using duplicate_version_never_applied [OF l] by blast
qed

end
