(* ===== verification/Go_Duration.thy ===== *)
theory Go_Duration
  imports Go_Strconv
begin

text \<open>
  Go's \<^verbatim>\<open>time.ParseDuration\<close>. The one floating-point step, the nanoseconds of a fraction \<open>f / 10 ^ k\<close> of
  a unit, is the parameter \<open>fr f unit k\<close>.
\<close>

text \<open>\<^verbatim>\<open>leadingInt\<close>: the leading digits, or nothing when they exceed \<open>2 ^ 63\<close>.\<close>

fun leadingInt :: "int \<Rightarrow> string \<Rightarrow> (int \<times> string) option" where
  "leadingInt x [] = Some (x, [])"
| "leadingInt x (c # s) =
     (if \<not> is_digit c then Some (x, c # s)
      else if 2 ^ 63 div 10 < x then None
      else if 2 ^ 63 < 10 * x + digit_val c then None
      else leadingInt (10 * x + digit_val c) s)"

text \<open>\<^verbatim>\<open>leadingFraction\<close>: the leading digits as a number, with the exponent of its scale; digits that no
  longer fit are dropped.\<close>

fun leadingFraction :: "int \<Rightarrow> nat \<Rightarrow> bool \<Rightarrow> string \<Rightarrow> int \<times> nat \<times> string" where
  "leadingFraction x k overflow [] = (x, k, [])"
| "leadingFraction x k overflow (c # s) =
     (if \<not> is_digit c then (x, k, c # s)
      else if overflow then leadingFraction x k True s
      else if (2 ^ 63 - 1) div 10 < x then leadingFraction x k True s
      else if 2 ^ 63 < 10 * x + digit_val c then leadingFraction x k True s
      else leadingFraction (10 * x + digit_val c) (Suc k) False s)"

definition unitMap :: "string \<Rightarrow> int option" where
  "unitMap = map_of [(''ns'', 1), (''us'', 1000), ([CHR 0xC2, CHR 0xB5, CHR ''s''], 1000),
     ([CHR 0xCE, CHR 0xBC, CHR ''s''], 1000), (''ms'', 1000000), (''s'', second), (''m'', 60 * second), (''h'', hour)]"

definition unit_char :: "char \<Rightarrow> bool" where
  "unit_char c \<longleftrightarrow> c \<noteq> CHR ''.'' \<and> \<not> is_digit c"

text \<open>One number with its unit: its nanoseconds and the rest.\<close>

definition dur_term :: "(int \<Rightarrow> int \<Rightarrow> nat \<Rightarrow> int) \<Rightarrow> string \<Rightarrow> (int \<times> string) option" where
  "dur_term fr s =
     (case leadingInt 0 s of
        None \<Rightarrow> None
      | Some (v, s1) \<Rightarrow>
          (let dot = (s1 \<noteq> [] \<and> hd s1 = CHR ''.'');
               (f, k, s2) = (if dot then leadingFraction 0 0 False (tl s1) else (0, 0, s1));
               pre = (length s1 \<noteq> length s);
               post = (dot \<and> length s2 \<noteq> length (tl s1));
               u = takeWhile unit_char s2
           in if \<not> pre \<and> \<not> post then None
              else if u = [] then None
              else (case unitMap u of
                      None \<Rightarrow> None
                    | Some unit \<Rightarrow>
                        if 2 ^ 63 div unit < v then None
                        else (let w = (if 0 < f then (v * unit + fr f unit k) mod 2 ^ 64 else v * unit)
                              in if 0 < f \<and> 2 ^ 63 < w then None
                                 else Some (w, dropWhile unit_char s2)))))"

lemma leadingInt_length: "leadingInt x s = Some (v, r) \<Longrightarrow> length r \<le> length s"
  by (induction x s rule: leadingInt.induct) (auto split: if_splits)

lemma leadingFraction_length: "leadingFraction x k ov s = (f, k', r) \<Longrightarrow> length r \<le> length s"
  by (induction x k ov s rule: leadingFraction.induct) (auto split: if_splits)

lemma dropWhile_shorter: "takeWhile P s \<noteq> [] \<Longrightarrow> length (dropWhile P s) < length s"
  by (cases s) (auto simp: length_dropWhile_le less_Suc_eq_le split: if_splits)

lemma dur_term_shorter:
  assumes "dur_term fr s = Some (v, r)"
  shows "length r < length s"
proof -
  obtain v1 s1 where s1: "leadingInt 0 s = Some (v1, s1)"
    using assms by (cases "leadingInt 0 s") (auto simp: dur_term_def)
  let ?dot = "s1 \<noteq> [] \<and> hd s1 = CHR ''.''"
  obtain f k s2 where s2: "(if ?dot then leadingFraction 0 0 False (tl s1) else (0, 0, s1)) = (f, k, s2)"
    by (metis prod_cases3)
  have "takeWhile unit_char s2 \<noteq> []" "r = dropWhile unit_char s2"
    using assms unfolding dur_term_def s1 option.case prod.case Let_def s2
    by (auto split: if_splits option.splits)
  then have "length r < length s2" by (simp add: dropWhile_shorter)
  also have "length s2 \<le> length s1"
    using s2 leadingFraction_length [of 0 0 False "tl s1" f k s2] by (auto split: if_splits)
  also have "length s1 \<le> length s" by (rule leadingInt_length [OF s1])
  finally show ?thesis .
qed

function dur_loop :: "(int \<Rightarrow> int \<Rightarrow> nat \<Rightarrow> int) \<Rightarrow> int \<Rightarrow> string \<Rightarrow> int option" where
  "dur_loop fr d s =
     (if s = [] then Some d
      else (case dur_term fr s of
              None \<Rightarrow> None
            | Some (v, r) \<Rightarrow>
                (let d' = (d + v) mod 2 ^ 64 in if 2 ^ 63 < d' then None else dur_loop fr d' r)))"
  by pat_completeness auto
termination
  by (relation "measure (\<lambda>(fr, d, s). length s)") (auto dest: dur_term_shorter)

declare dur_loop.simps [simp del]

definition ParseDuration :: "(int \<Rightarrow> int \<Rightarrow> nat \<Rightarrow> int) \<Rightarrow> string \<Rightarrow> duration option" where
  "ParseDuration fr s =
     (let (neg, t) = parse_sign s
      in if t = ''0'' then Some 0
         else if t = [] then None
         else (case dur_loop fr 0 t of
                 None \<Rightarrow> None
               | Some d \<Rightarrow> if neg then Some (- d) else if 2 ^ 63 - 1 < d then None else Some d))"

lemma dur_loop_range: "dur_loop fr d s = Some n \<Longrightarrow> 0 \<le> d \<Longrightarrow> d \<le> 2 ^ 63 \<Longrightarrow> 0 \<le> n \<and> n \<le> 2 ^ 63"
proof (induction fr d s rule: dur_loop.induct)
  case (1 fr d s)
  show ?case
  proof (cases "s = []")
    case True
    then show ?thesis using "1.prems" by (simp add: dur_loop.simps)
  next
    case False
    then obtain v r where t: "dur_term fr s = Some (v, r)" "(d + v) mod 2 ^ 64 \<le> 2 ^ 63"
        "dur_loop fr ((d + v) mod 2 ^ 64) r = Some n"
      using "1.prems"(1) by (auto simp: dur_loop.simps [of fr d s] Let_def split: option.splits if_splits)
    show ?thesis
      using "1.IH" [OF False t(1) refl refl] t(2,3) by simp
  qed
qed

lemma ParseDuration_range: "ParseDuration fr s = Some d \<Longrightarrow> - (2 ^ 63) \<le> d \<and> d < 2 ^ 63"
  by (auto simp: ParseDuration_def Let_def dest!: dur_loop_range split: prod.splits if_splits option.splits)

end
