(* ===== verification/Go_Json.thy ===== *)
theory Go_Json
  imports Go_Strings
begin

text \<open>
  Go's \<^verbatim>\<open>encoding/json\<close> as the services use it to read a message: the syntax check and
  parse of the bytes, and the decoding of the parsed value into a struct type by its field
  tags. A struct type is a value of \<open>gty\<close> (strings, structs with JSON names, slices), and a
  decoded struct a value of \<open>gval\<close>.
\<close>

section \<open>Values\<close>

datatype json =
    JNull
  | JBool bool
  | JNum string
  | JStr string
  | JArr "json list"
  | JObj "(string \<times> json) list"

section \<open>UTF-8\<close>

definition between :: "int \<Rightarrow> char \<Rightarrow> int \<Rightarrow> bool" where
  "between lo c hi \<longleftrightarrow> lo \<le> byte_val c \<and> byte_val c \<le> hi"

text \<open>The length of the well-formed multi-byte sequence at the start of the string, or 0.\<close>

fun utf8_len :: "string \<Rightarrow> nat" where
  "utf8_len (a # b # c # d # s) =
     (if between 194 a 223 \<and> between 128 b 191 then 2
      else if (byte_val a = 224 \<and> between 160 b 191 \<or> between 225 a 236 \<and> between 128 b 191
               \<or> byte_val a = 237 \<and> between 128 b 159 \<or> between 238 a 239 \<and> between 128 b 191)
              \<and> between 128 c 191 then 3
      else if (byte_val a = 240 \<and> between 144 b 191 \<or> between 241 a 243 \<and> between 128 b 191
               \<or> byte_val a = 244 \<and> between 128 b 143)
              \<and> between 128 c 191 \<and> between 128 d 191 then 4
      else 0)"
| "utf8_len [a, b, c] =
     (if between 194 a 223 \<and> between 128 b 191 then 2
      else if (byte_val a = 224 \<and> between 160 b 191 \<or> between 225 a 236 \<and> between 128 b 191
               \<or> byte_val a = 237 \<and> between 128 b 159 \<or> between 238 a 239 \<and> between 128 b 191)
              \<and> between 128 c 191 then 3
      else 0)"
| "utf8_len [a, b] = (if between 194 a 223 \<and> between 128 b 191 then 2 else 0)"
| "utf8_len _ = 0"

definition replacement :: string where
  "replacement = [CHR 0xEF, CHR 0xBF, CHR 0xBD]"

definition encodeRune :: "int \<Rightarrow> string" where
  "encodeRune r =
     (if r < 128 then [char_of r]
      else if r < 2048 then [char_of (192 + r div 64), char_of (128 + r mod 64)]
      else if 55296 \<le> r \<and> r \<le> 57343 then replacement
      else if r < 65536 then
        [char_of (224 + r div 4096), char_of (128 + r div 64 mod 64), char_of (128 + r mod 64)]
      else [char_of (240 + r div 262144), char_of (128 + r div 4096 mod 64),
            char_of (128 + r div 64 mod 64), char_of (128 + r mod 64)])"

section \<open>Strings\<close>

definition quote_char :: char where "quote_char = CHR 0x22"
definition backslash :: char where "backslash = CHR 0x5C"

definition is_hex :: "char \<Rightarrow> bool" where
  "is_hex c \<longleftrightarrow> is_digit c \<or> between 65 c 70 \<or> between 97 c 102"

definition hex_val :: "char \<Rightarrow> int" where
  "hex_val c = (if is_digit c then byte_val c - 48
                else if between 65 c 70 then byte_val c - 55 else byte_val c - 87)"

definition hex4 :: "char \<Rightarrow> char \<Rightarrow> char \<Rightarrow> char \<Rightarrow> int" where
  "hex4 a b c d = ((hex_val a * 16 + hex_val b) * 16 + hex_val c) * 16 + hex_val d"

definition is_escape :: "char \<Rightarrow> bool" where
  "is_escape c \<longleftrightarrow> c \<in> set (quote_char # backslash # ''/bfnrt'')"

text \<open>The body of a string literal, up to its closing quote, still escaped.\<close>

fun str_body :: "string \<Rightarrow> (string \<times> string) option" where
  "str_body [] = None"
| "str_body (c # cs) =
     (if c = quote_char then Some ([], cs)
      else if c = backslash then
        (case cs of
           [] \<Rightarrow> None
         | e # r \<Rightarrow>
             if is_escape e then map_option (\<lambda>(a, b). (c # e # a, b)) (str_body r)
             else if e = CHR ''u'' then
               (case r of
                  h1 # h2 # h3 # h4 # r' \<Rightarrow>
                    if is_hex h1 \<and> is_hex h2 \<and> is_hex h3 \<and> is_hex h4
                    then map_option (\<lambda>(a, b). (c # e # h1 # h2 # h3 # h4 # a, b)) (str_body r')
                    else None
                | _ \<Rightarrow> None)
             else None)
      else if byte_val c < 32 then None
      else map_option (\<lambda>(a, b). (c # a, b)) (str_body cs))"

definition unescape :: "char \<Rightarrow> char" where
  "unescape c = (if c = CHR ''b'' then CHR 0x08 else if c = CHR ''f'' then CHR 0x0C
     else if c = CHR ''n'' then CHR 0x0A else if c = CHR ''r'' then CHR 0x0D
     else if c = CHR ''t'' then CHR 0x09 else c)"

text \<open>\<^verbatim>\<open>unquoteBytes\<close>: escapes are decoded, a lone surrogate and every byte that starts no
  UTF-8 sequence become the replacement character.\<close>

function unquote :: "string \<Rightarrow> string" where
  "unquote s =
     (case s of
        [] \<Rightarrow> []
      | c # cs \<Rightarrow>
          if c = backslash then
            (case cs of
               e # r \<Rightarrow>
                 if e = CHR ''u'' then
                   (case r of
                      a # b # d # f # t \<Rightarrow>
                        (let x = hex4 a b d f
                         in if 55296 \<le> x \<and> x \<le> 57343
                            then (case t of
                                p # q # a' # b' # d' # f' # t' \<Rightarrow>
                                  (let y = hex4 a' b' d' f'
                                   in if p = backslash \<and> q = CHR ''u'' \<and> x \<le> 56319
                                         \<and> is_hex a' \<and> is_hex b' \<and> is_hex d' \<and> is_hex f'
                                         \<and> 56320 \<le> y \<and> y \<le> 57343
                                      then encodeRune ((x - 55296) * 1024 + (y - 56320) + 65536) @ unquote t'
                                      else replacement @ unquote t)
                              | _ \<Rightarrow> replacement @ unquote t)
                            else encodeRune x @ unquote t)
                    | _ \<Rightarrow> [])
                 else unescape e # unquote r
             | [] \<Rightarrow> [])
          else if byte_val c < 128 then c # unquote cs
          else if utf8_len s = 0 then replacement @ unquote cs
          else take (utf8_len s) s @ unquote (drop (utf8_len s) s))"
  by pat_completeness auto
termination
  by (relation "measure length") (auto simp: Let_def)

declare unquote.simps [simp del]

section \<open>Numbers, literals and white space\<close>

definition skip_ws :: "string \<Rightarrow> string" where
  "skip_ws s = dropWhile (\<lambda>c. c \<in> {CHR 0x20, CHR 0x09, CHR 0x0A, CHR 0x0D}) s"

definition num_int :: "string \<Rightarrow> (string \<times> string) option" where
  "num_int s = (case s of
      [] \<Rightarrow> None
    | c # t \<Rightarrow> if c = CHR ''0'' then Some ([c], t)
               else if is_digit c then Some (takeWhile is_digit s, dropWhile is_digit s)
               else None)"

definition num_frac :: "string \<Rightarrow> (string \<times> string) option" where
  "num_frac s = (case s of
      c # t \<Rightarrow> if c = CHR ''.'' then
                 (let ds = takeWhile is_digit t
                  in if ds = [] then None else Some (c # ds, dropWhile is_digit t))
               else Some ([], s)
    | [] \<Rightarrow> Some ([], s))"

definition num_exp :: "string \<Rightarrow> (string \<times> string) option" where
  "num_exp s = (case s of
      c # t \<Rightarrow> if c = CHR ''e'' \<or> c = CHR ''E'' then
                 (let (sg, t') = (case t of x # t' \<Rightarrow> if x = CHR ''+'' \<or> x = CHR ''-'' then ([x], t') else ([], t)
                                  | [] \<Rightarrow> ([], t));
                      ds = takeWhile is_digit t'
                  in if ds = [] then None else Some (c # sg @ ds, dropWhile is_digit t'))
               else Some ([], s)
    | [] \<Rightarrow> Some ([], s))"

definition number :: "string \<Rightarrow> (string \<times> string) option" where
  "number s =
     (let (sg, t) = (case s of c # t \<Rightarrow> if c = CHR ''-'' then ([c], t) else ([], s) | [] \<Rightarrow> ([], s))
      in case num_int t of
           None \<Rightarrow> None
         | Some (i, t1) \<Rightarrow> (case num_frac t1 of
             None \<Rightarrow> None
           | Some (f, t2) \<Rightarrow> (case num_exp t2 of
               None \<Rightarrow> None
             | Some (x, t3) \<Rightarrow> Some (sg @ i @ f @ x, t3))))"

definition word :: "string \<Rightarrow> json \<Rightarrow> string \<Rightarrow> (json \<times> string) option" where
  "word w v s = (if HasPrefix s w then Some (v, drop (length w) s) else None)"

section \<open>The parser\<close>

definition maxNestingDepth :: nat where
  "maxNestingDepth = 10000"

text \<open>
  Parsing with fuel \<open>f\<close> at nesting depth \<open>d\<close>. Every second call consumes a byte, so fuel
  \<open>2 * length s + 1\<close> is always enough (lemma \<open>jvalue_fuel\<close>).
\<close>

fun jvalue :: "nat \<Rightarrow> nat \<Rightarrow> string \<Rightarrow> (json \<times> string) option"
and jmembers :: "nat \<Rightarrow> nat \<Rightarrow> string \<Rightarrow> ((string \<times> json) list \<times> string) option"
and jelems :: "nat \<Rightarrow> nat \<Rightarrow> string \<Rightarrow> (json list \<times> string) option" where
  "jvalue 0 d s = None"
| "jvalue (Suc f) d s =
     (case skip_ws s of
        [] \<Rightarrow> None
      | c # t \<Rightarrow>
          if c = CHR ''{'' then
            (if maxNestingDepth \<le> d then None
             else (case skip_ws t of
                     [] \<Rightarrow> None
                   | x # r \<Rightarrow> if x = CHR ''}'' then Some (JObj [], r)
                              else map_option (\<lambda>(ms, r). (JObj ms, r)) (jmembers f (Suc d) (x # r))))
          else if c = CHR ''['' then
            (if maxNestingDepth \<le> d then None
             else (case skip_ws t of
                     [] \<Rightarrow> None
                   | x # r \<Rightarrow> if x = CHR '']'' then Some (JArr [], r)
                              else map_option (\<lambda>(es, r). (JArr es, r)) (jelems f (Suc d) (x # r))))
          else if c = quote_char then map_option (\<lambda>(b, r). (JStr (unquote b), r)) (str_body t)
          else if c = CHR ''t'' then word ''true'' (JBool True) (c # t)
          else if c = CHR ''f'' then word ''false'' (JBool False) (c # t)
          else if c = CHR ''n'' then word ''null'' JNull (c # t)
          else map_option (\<lambda>(n, r). (JNum n, r)) (number (c # t)))"
| "jmembers 0 d s = None"
| "jmembers (Suc f) d s =
     (case skip_ws s of
        [] \<Rightarrow> None
      | c # t \<Rightarrow>
          if c \<noteq> quote_char then None
          else (case str_body t of
                  None \<Rightarrow> None
                | Some (k, r) \<Rightarrow>
                    (case skip_ws r of
                       [] \<Rightarrow> None
                     | x # r1 \<Rightarrow>
                         if x \<noteq> CHR '':'' then None
                         else (case jvalue f d r1 of
                                 None \<Rightarrow> None
                               | Some (v, r2) \<Rightarrow>
                                   (case skip_ws r2 of
                                      [] \<Rightarrow> None
                                    | y # r3 \<Rightarrow>
                                        if y = CHR ''}'' then Some ([(unquote k, v)], r3)
                                        else if y = CHR '','' then
                                          map_option (\<lambda>(ms, r). ((unquote k, v) # ms, r)) (jmembers f d r3)
                                        else None)))))"
| "jelems 0 d s = None"
| "jelems (Suc f) d s =
     (case jvalue f d s of
        None \<Rightarrow> None
      | Some (v, r2) \<Rightarrow>
          (case skip_ws r2 of
             [] \<Rightarrow> None
           | y # r3 \<Rightarrow>
               if y = CHR '']'' then Some ([v], r3)
               else if y = CHR '','' then map_option (\<lambda>(es, r). (v # es, r)) (jelems f d r3)
               else None))"

definition json_parse :: "string \<Rightarrow> json option" where
  "json_parse s =
     (case jvalue (2 * length s + 1) 0 s of
        None \<Rightarrow> None
      | Some (v, r) \<Rightarrow> if skip_ws r = [] then Some v else None)"

section \<open>Go values\<close>

text \<open>The types the services decode into, with the JSON names of their fields, and the values
  of these types. A slice keeps, behind its visible elements, the slots that decoding left
  behind in its backing array: growing the slice again makes them visible again.\<close>

datatype gty = TStr | TStruct "(string \<times> gty) list" | TSlice gty

datatype gval = VStr string | VStruct "(string \<times> gval) list" | VSlice "gval list" "gval list"

fun zero :: "gty \<Rightarrow> gval" where
  "zero TStr = VStr []"
| "zero (TStruct fs) = VStruct (map (\<lambda>(n, t). (n, zero t)) fs)"
| "zero (TSlice t) = VSlice [] []"

fun fields :: "gval \<Rightarrow> (string \<times> gval) list" where
  "fields (VStruct vs) = vs"
| "fields _ = []"

fun slots :: "gval \<Rightarrow> gval list" where
  "slots (VSlice vs spare) = vs @ spare"
| "slots _ = []"

definition getv :: "gval \<Rightarrow> string \<Rightarrow> gval" where
  "getv v n = (case map_of (fields v) n of Some x \<Rightarrow> x | None \<Rightarrow> VStr [])"

fun update_field :: "string \<Rightarrow> gval \<Rightarrow> (string \<times> gval) list \<Rightarrow> (string \<times> gval) list" where
  "update_field n x [] = [(n, x)]"
| "update_field n x ((m, y) # vs) = (if m = n then (n, x) # vs else (m, y) # update_field n x vs)"

definition setv :: "gval \<Rightarrow> string \<Rightarrow> gval \<Rightarrow> gval" where
  "setv v n x = VStruct (update_field n x (fields v))"

definition gpath :: "gval \<Rightarrow> string list \<Rightarrow> gval" where
  "gpath v ns = foldl getv v ns"

definition gstr :: "gval \<Rightarrow> string list \<Rightarrow> string" where
  "gstr v ns = (case gpath v ns of VStr s \<Rightarrow> s | _ \<Rightarrow> [])"

definition glist :: "gval \<Rightarrow> string list \<Rightarrow> gval list" where
  "glist v ns = (case gpath v ns of VSlice xs spare \<Rightarrow> xs | _ \<Rightarrow> [])"

lemma map_of_update_field:
  "map_of (update_field n x vs) m = (if m = n then Some x else map_of vs m)"
  by (induction vs) auto

lemma getv_setv [simp]: "getv (setv v n x) m = (if m = n then x else getv v m)"
  by (simp add: getv_def setv_def map_of_update_field)

section \<open>Matching a key to a field\<close>

text \<open>\<^verbatim>\<open>foldName\<close> on names whose letters are ASCII: case is ignored, the Kelvin sign counts as a
  k and the long s as an s.\<close>

fun fold_name :: "string \<Rightarrow> string" where
  "fold_name [] = []"
| "fold_name (a # s) =
     (if a = CHR 0xE2 \<and> take 2 s = [CHR 0x84, CHR 0xAA] then CHR ''K'' # fold_name (drop 2 s)
      else if a = CHR 0xC5 \<and> take 1 s = [CHR 0xBF] then CHR ''S'' # fold_name (drop 1 s)
      else upper_byte a # fold_name s)"

definition match_field :: "(string \<times> gty) list \<Rightarrow> string \<Rightarrow> (string \<times> gty) option" where
  "match_field fs k =
     (case find (\<lambda>(n, t). n = k) fs of
        Some f \<Rightarrow> Some f
      | None \<Rightarrow> find (\<lambda>(n, t). fold_name n = fold_name k) fs)"

section \<open>Decoding\<close>

text \<open>
  Decoding into an existing value: \<^verbatim>\<open>null\<close> leaves a string or a struct as it is and empties a
  slice, a value of the wrong kind is skipped and recorded as an error (the flag), an unknown
  key is skipped, a repeated key decodes into what the earlier one left, and the elements of an
  array decode into the slots of the slice.
\<close>

fun dec :: "gty \<Rightarrow> gval \<Rightarrow> json \<Rightarrow> gval \<times> bool"
and dec_members :: "(string \<times> gty) list \<Rightarrow> gval \<Rightarrow> (string \<times> json) list \<Rightarrow> gval \<times> bool"
and dec_elems :: "gty \<Rightarrow> gval list \<Rightarrow> json list \<Rightarrow> gval list \<times> bool" where
  "dec ty v JNull = (case ty of TSlice _ \<Rightarrow> VSlice [] [] | _ \<Rightarrow> v, False)"
| "dec ty v (JStr s) = (case ty of TStr \<Rightarrow> (VStr s, False) | _ \<Rightarrow> (v, True))"
| "dec ty v (JBool b) = (v, True)"
| "dec ty v (JNum n) = (v, True)"
| "dec ty v (JObj ms) =
     (case ty of TStruct fs \<Rightarrow> dec_members fs v ms | _ \<Rightarrow> (v, True))"
| "dec ty v (JArr es) =
     (case ty of
        TSlice t \<Rightarrow>
          (let (xs, e) = dec_elems t (slots v) es
           in (if es = [] then VSlice [] [] else VSlice xs (drop (length es) (slots v)), e))
      | _ \<Rightarrow> (v, True))"
| "dec_members fs v [] = (v, False)"
| "dec_members fs v ((k, j) # ms) =
     (case match_field fs k of
        None \<Rightarrow> dec_members fs v ms
      | Some (n, t) \<Rightarrow>
          (let (x, e) = dec t (getv v n) j;
               (v', e') = dec_members fs (setv v n x) ms
           in (v', e \<or> e')))"
| "dec_elems t old [] = ([], False)"
| "dec_elems t old (j # js) =
     (let (x, e) = dec t (case old of [] \<Rightarrow> zero t | y # _ \<Rightarrow> y) j;
          (xs, e') = dec_elems t (tl old) js
      in (x # xs, e \<or> e'))"

datatype unmarshal_error = SyntaxError | UnmarshalTypeError

definition Unmarshal :: "gty \<Rightarrow> bytes \<Rightarrow> unmarshal_error + gval" where
  "Unmarshal ty s =
     (case json_parse s of
        None \<Rightarrow> Inl SyntaxError
      | Some j \<Rightarrow> (let (v, e) = dec ty (zero ty) j in if e then Inl UnmarshalTypeError else Inr v))"

section \<open>The parser consumes its input, and its fuel is enough\<close>

lemma skip_ws_length: "length (skip_ws s) \<le> length s"
  by (simp add: skip_ws_def length_dropWhile_le)

lemma skip_ws_Cons_length: "skip_ws s = c # t \<Longrightarrow> length t < length s"
  using skip_ws_length [of s] by simp

lemma str_body_shorter: "str_body s = Some (a, b) \<Longrightarrow> length b < length s"
proof (induction s arbitrary: a b rule: measure_induct_rule [of length])
  case (less s)
  then obtain c cs where s: "s = c # cs"
    by (cases s) auto
  have "b = cs \<or> (\<exists>k a'. str_body (drop k cs) = Some (a', b))"
  proof (cases "c = quote_char \<or> c \<noteq> backslash")
    case True
    then show ?thesis
      using less(2) by (auto simp: s split: if_splits intro: exI [of _ 0])
  next
    case False
    then obtain e r where cs: "cs = e # r"
      using less(2) by (cases cs) (auto simp: s)
    show ?thesis
    proof (cases "is_escape e")
      case True
      then show ?thesis
        using less(2) False by (auto simp: s cs intro!: exI [of _ 1])
    next
      case no: False
      then show ?thesis
        using less(2) False by (auto simp: s cs split: if_splits list.splits intro!: exI [of _ 5])
    qed
  qed
  moreover have "length b < length s" if "str_body (drop k cs) = Some (a', b)" for k a'
  proof -
    have "length (drop k cs) < length s" by (simp add: s)
    from less(1) [OF this that] show ?thesis by (simp add: s)
  qed
  ultimately show ?case
    by (auto simp: s)
qed

lemma num_int_shorter: "num_int s = Some (n, r) \<Longrightarrow> length r < length s"
  by (auto simp: num_int_def split: list.splits if_splits)
    (simp add: le_imp_less_Suc length_dropWhile_le)

lemma num_frac_length: "num_frac s = Some (n, r) \<Longrightarrow> length r \<le> length s"
  by (auto simp: num_frac_def Let_def le_SucI length_dropWhile_le split: list.splits if_splits)

lemma num_exp_length: "num_exp s = Some (n, r) \<Longrightarrow> length r \<le> length s"
  by (auto simp: num_exp_def Let_def le_SucI length_dropWhile_le split: list.splits if_splits)

lemma number_shorter: "number s = Some (n, r) \<Longrightarrow> length r < length s"
  by (fastforce simp: number_def Let_def split: option.splits list.splits if_splits prod.splits
      dest: num_int_shorter num_frac_length num_exp_length)

lemma parser_shorter:
  shows "jvalue f d s = Some (v, r) \<Longrightarrow> length r < length s"
    and "jmembers f d s = Some (ms, r) \<Longrightarrow> length r < length s"
    and "jelems f d s = Some (es, r) \<Longrightarrow> length r < length s"
proof (induction f arbitrary: d s v ms es r)
  case (Suc f)
  {
    case 1
    then obtain c t where c: "skip_ws s = c # t"
      by (auto split: list.splits)
    have "(\<exists>x. skip_ws t = x # r) \<or> (\<exists>ms. jmembers f (Suc d) (skip_ws t) = Some (ms, r)) \<or>
      (\<exists>es. jelems f (Suc d) (skip_ws t) = Some (es, r)) \<or> (\<exists>b. str_body t = Some (b, r)) \<or>
      (\<exists>n. number (c # t) = Some (n, r)) \<or> (\<exists>k. r = drop k t)"
      using 1 by (simp add: c word_def split: if_splits list.splits) auto
    then have "length r < length (c # t)"
      using Suc.IH(2,3) [of "Suc d" "skip_ws t"] skip_ws_length [of t]
      by (auto dest!: skip_ws_Cons_length str_body_shorter number_shorter simp: length_drop)
    then show ?case
      using skip_ws_length [of s] c by simp
  next
    case 2
    then obtain c t k r1 x r2 v r3 y r4 where e: "skip_ws s = c # t" "str_body t = Some (k, r1)"
      "skip_ws r1 = x # r2" "jvalue f d r2 = Some (v, r3)" "skip_ws r3 = y # r4"
      and last: "r4 = r \<or> (\<exists>ms'. jmembers f d r4 = Some (ms', r))"
      by (auto split: list.splits option.splits if_splits prod.splits)
    have "length r \<le> length r4"
      using last Suc.IH(2) by (auto intro: less_imp_le)
    then show ?case
      using skip_ws_Cons_length [OF e(1)] str_body_shorter [OF e(2)] skip_ws_Cons_length [OF e(3)]
        Suc.IH(1) [OF e(4)] skip_ws_Cons_length [OF e(5)] by linarith
  next
    case 3
    then obtain v r2 y r3 where e: "jvalue f d s = Some (v, r2)" "skip_ws r2 = y # r3"
      and last: "r3 = r \<or> (\<exists>es'. jelems f d r3 = Some (es', r))"
      by (auto split: list.splits option.splits if_splits prod.splits)
    have "length r \<le> length r3"
      using last Suc.IH(3) by (auto intro: less_imp_le)
    then show ?case
      using Suc.IH(1) [OF e(1)] skip_ws_Cons_length [OF e(2)] by linarith
  }
qed simp_all

lemma parser_fuel:
  shows "\<lbrakk>2 * length s + 1 \<le> f; 2 * length s + 1 \<le> g\<rbrakk> \<Longrightarrow> jvalue f d s = jvalue g d s"
    and "\<lbrakk>2 * length s + 2 \<le> f; 2 * length s + 2 \<le> g\<rbrakk> \<Longrightarrow> jmembers f d s = jmembers g d s"
    and "\<lbrakk>2 * length s + 2 \<le> f; 2 * length s + 2 \<le> g\<rbrakk> \<Longrightarrow> jelems f d s = jelems g d s"
proof (induction f arbitrary: d s g)
  case (Suc f)
  {
    case 1
    then obtain g' where g: "g = Suc g'"
      by (cases g) auto
    show ?case
    proof (cases "skip_ws s")
      case (Cons c t)
      then have "2 * length (skip_ws t) + 2 \<le> f" "2 * length (skip_ws t) + 2 \<le> g'"
        using 1 g skip_ws_Cons_length [OF Cons] skip_ws_length [of t] by simp_all
      then have "jmembers f (Suc d) (skip_ws t) = jmembers g' (Suc d) (skip_ws t)"
        "jelems f (Suc d) (skip_ws t) = jelems g' (Suc d) (skip_ws t)"
        using Suc.IH(2,3) by blast+
      note eqs = this
      show ?thesis
      proof (cases "skip_ws t")
        case (Cons x r)
        from eqs show ?thesis
          by (cases "x = CHR '']''") (simp_all add: g \<open>skip_ws s = c # t\<close> Cons)
      qed (simp add: g Cons)
    qed (simp add: g)
  next
    case 2
    then obtain g' where g: "g = Suc g'"
      by (cases g) auto
    have eq: "jvalue f d r = jvalue g' d r" "jmembers f d r = jmembers g' d r"
      if "length r < length s" for r
      using that Suc.IH(1,2) 2 g by auto
    show ?case
    proof (cases "skip_ws s")
      case (Cons c t)
      show ?thesis
      proof (cases "str_body t")
        case (Some kr)
        obtain k r where kr: "kr = (k, r)" by (cases kr)
        show ?thesis
        proof (cases "skip_ws r")
          case (Cons x r1)
          have r1: "length r1 < length s"
            using skip_ws_Cons_length [OF Cons] str_body_shorter [OF Some [unfolded kr]]
              skip_ws_Cons_length [OF \<open>skip_ws s = c # t\<close>] by simp
          have "jmembers f d r3 = jmembers g' d r3"
            if "jvalue g' d r1 = Some (v, r2)" "skip_ws r2 = y # r3" for v r2 y r3
            using r1 parser_shorter(1) [OF that(1)] skip_ws_Cons_length [OF that(2)] eq(2) by simp
          then show ?thesis
            using \<open>skip_ws s = c # t\<close> Some kr Cons eq(1) [OF r1]
            by (simp add: g split: option.split list.split)
        qed (simp add: g \<open>skip_ws s = c # t\<close> Some kr)
      qed (simp add: g Cons)
    qed (simp add: g)
  next
    case 3
    then obtain g' where g: "g = Suc g'"
      by (cases g) auto
    have v: "jvalue f d s = jvalue g' d s"
      by (rule Suc.IH(1)) (use 3 g in auto)
    have "jelems f d r3 = jelems g' d r3"
      if "jvalue g' d s = Some (v, r2)" "skip_ws r2 = y # r3" for v r2 y r3
      using parser_shorter(1) [OF that(1)] skip_ws_Cons_length [OF that(2)] Suc.IH(3) 3 g by simp
    then show ?case
      by (simp add: g v split: option.split list.split)
  }
qed simp_all

lemma jvalue_fuel: "2 * length s + 1 \<le> f \<Longrightarrow> jvalue f d s = jvalue (2 * length s + 1) d s"
  by (rule parser_fuel(1)) auto

section \<open>Two readers of one document\<close>

text \<open>
  The services decode the same bytes into different structs. \<open>narrows A B\<close> holds when every
  field of \<open>A\<close> is a field of \<open>B\<close>, and \<open>agrees A v w\<close> when the values \<open>v\<close> and \<open>w\<close> coincide on
  the fields of \<open>A\<close>: what the wider reader accepts, the narrower one accepts, and both see the
  same there.
\<close>

fun narrows :: "gty \<Rightarrow> gty \<Rightarrow> bool" where
  "narrows (TStruct A) t =
     (case t of
        TStruct B \<Rightarrow> distinct (map (fold_name \<circ> fst) B) \<and> distinct (map fst A)
          \<and> list_all (\<lambda>(n, a). case map_of B n of None \<Rightarrow> False | Some b \<Rightarrow> narrows a b) A
      | _ \<Rightarrow> False)"
| "narrows a t \<longleftrightarrow> a = t"

fun agrees :: "gty \<Rightarrow> gval \<Rightarrow> gval \<Rightarrow> bool" where
  "agrees (TStruct A) v w \<longleftrightarrow> list_all (\<lambda>(n, a). agrees a (getv v n) (getv w n)) A"
| "agrees t v w \<longleftrightarrow> v = w"

lemma find_distinct_key:
  "distinct (map f xs) \<Longrightarrow> find (\<lambda>x. f x = k) xs = Some y \<longleftrightarrow> y \<in> set xs \<and> f y = k"
  by (induction xs) (auto simp: image_iff)

lemma match_field_folded:
  assumes "distinct (map (fold_name \<circ> fst) fs)"
  shows "match_field fs k = Some nt \<longleftrightarrow> nt \<in> set fs \<and> fold_name (fst nt) = fold_name k"
proof -
  have "find (\<lambda>(n, t). fold_name n = fold_name k) fs = Some nt
      \<longleftrightarrow> nt \<in> set fs \<and> fold_name (fst nt) = fold_name k"
    using find_distinct_key [OF assms] by (simp add: case_prod_beta')
  moreover have "nt \<in> set fs \<and> fold_name (fst nt) = fold_name k \<longleftrightarrow> nt = x"
    if "find (\<lambda>(n, t). n = k) fs = Some x" for x
  proof -
    from that have "x \<in> set fs" "fst x = k"
      by (auto dest!: find_SomeD)
    with assms show ?thesis
      by (auto simp: distinct_map inj_on_def)
  qed
  ultimately show ?thesis
    by (auto simp: match_field_def split: option.split)
qed

lemma narrows_fields:
  assumes "narrows (TStruct A) (TStruct B)"
  shows "distinct (map (fold_name \<circ> fst) A)" "distinct (map (fold_name \<circ> fst) B)"
    and "(n, a) \<in> set A \<Longrightarrow> \<exists>b. (n, b) \<in> set B \<and> map_of B n = Some b \<and> narrows a b"
proof -
  show sub: "\<exists>b. (n, b) \<in> set B \<and> map_of B n = Some b \<and> narrows a b" if "(n, a) \<in> set A" for n a
    using assms that by (fastforce simp: list_all_iff split: option.splits dest: map_of_SomeD)
  show B: "distinct (map (fold_name \<circ> fst) B)"
    using assms by simp
  have "inj_on fold_name (fst ` set B)"
    using B by (auto simp: distinct_map inj_on_def)
  moreover have "fst ` set A \<subseteq> fst ` set B"
    using sub by force
  ultimately have "inj_on fold_name (set (map fst A))"
    by (auto intro: inj_on_subset)
  then have "distinct (map fold_name (map fst A))"
    using assms by (subst distinct_map) auto
  then show "distinct (map (fold_name \<circ> fst) A)"
    by simp
qed

lemma option_eq_by_Some: "(\<And>x. a = Some x \<longleftrightarrow> b = Some x) \<Longrightarrow> a = b"
  by (cases a; cases b) auto

lemma match_field_narrows:
  assumes "narrows (TStruct A) (TStruct B)"
  shows "match_field A k = (case match_field B k of
      None \<Rightarrow> None
    | Some (n, t) \<Rightarrow> (case map_of A n of None \<Rightarrow> None | Some a \<Rightarrow> Some (n, a)))" (is "_ = ?r")
proof (rule option_eq_by_Some)
  fix nt :: "string \<times> gty"
  obtain n a where nt: "nt = (n, a)" by (cases nt)
  have A: "map_of A n = Some a \<longleftrightarrow> (n, a) \<in> set A"
    using assms by simp
  have "?r = Some nt \<longleftrightarrow> (\<exists>t. match_field B k = Some (n, t)) \<and> map_of A n = Some a"
    by (auto simp: nt split: option.split)
  also have "\<dots> \<longleftrightarrow> match_field A k = Some nt"
    using narrows_fields [OF assms]
    by (auto simp: nt A match_field_folded)
  finally show "match_field A k = Some nt \<longleftrightarrow> ?r = Some nt" ..
qed

lemma agrees_setv:
  assumes "agrees (TStruct A) v w" "distinct (map fst A)"
    and "\<And>a. (n, a) \<in> set A \<Longrightarrow> agrees a x y"
  shows "agrees (TStruct A) (setv v n x) (setv w n y)"
  using assms by (auto simp: list_all_iff)

lemma agrees_setv_other:
  assumes "agrees (TStruct A) v w" and "(n :: string) \<notin> fst ` set A"
  shows "agrees (TStruct A) v (setv w n y)"
  using assms by (force simp: list_all_iff)

lemma dec_members_step:
  "dec_members fs v ((k, j) # ms) =
     (case match_field fs k of
        None \<Rightarrow> dec_members fs v ms
      | Some (n, t) \<Rightarrow>
          (fst (dec_members fs (setv v n (fst (dec t (getv v n) j))) ms),
           snd (dec t (getv v n) j) \<or> snd (dec_members fs (setv v n (fst (dec t (getv v n) j))) ms)))"
  by (auto simp: Let_def split: option.split prod.split)

lemma dec_agrees:
  shows "\<lbrakk>narrows a b; agrees a v w\<rbrakk>
    \<Longrightarrow> agrees a (fst (dec a v j)) (fst (dec b w j)) \<and> (snd (dec a v j) \<longrightarrow> snd (dec b w j))"
    and "\<lbrakk>narrows (TStruct A) (TStruct B); agrees (TStruct A) v w\<rbrakk>
    \<Longrightarrow> agrees (TStruct A) (fst (dec_members A v ms)) (fst (dec_members B w ms))
       \<and> (snd (dec_members A v ms) \<longrightarrow> snd (dec_members B w ms))"
    and "dec_elems t old js = dec_elems t old js"
proof (induction a v j and A v ms and t old js arbitrary: b w and B w
    rule: dec_dec_members_dec_elems.induct)
  case (8 A v k j ms)
  note [simp del] = narrows.simps agrees.simps dec_members.simps
    and [simp] = dec_members_step match_field_narrows [OF 8(4)]
  show ?case
  proof (cases "match_field B k")
    case None
    with 8(1) [OF _ 8(4,5)] show ?thesis by simp
  next
    case (Some nt)
    obtain n t where nt: "nt = (n, t)" by (cases nt)
    define y where "y = fst (dec t (getv w n) j)"
    show ?thesis
    proof (cases "map_of A n")
      case None
      then have "agrees (TStruct A) v (setv w n y)"
        using agrees_setv_other [OF 8(5)] by (simp add: map_of_eq_None_iff)
      with 8(1) [OF _ 8(4)] Some nt None show ?thesis
        by (simp add: y_def)
    next
      case A: (Some a)
      have "distinct (map fst B)" "(n, t) \<in> set B"
        using narrows_fields(2) [OF 8(4)] Some nt match_field_folded
        by (auto simp: distinct_map inj_on_def simp del: match_field_narrows)
      then have "narrows a t" "agrees a (getv v n) (getv w n)"
        using narrows_fields(3) [OF 8(4) map_of_SomeD [OF A]] map_of_SomeD [OF A] 8(5)
        by (auto simp: list_all_iff agrees.simps)
      with 8(2) [of "(n, a)" n a] Some nt A
      have x: "agrees a (fst (dec a (getv v n) j)) y" 
          "snd (dec a (getv v n) j) \<longrightarrow> snd (dec t (getv w n) j)"
        by (simp_all add: y_def)
      have "a' = a" if "(n, a') \<in> set A" for a'
        using that A 8(4) by (simp add: narrows.simps)
      then have "agrees (TStruct A) (setv v n (fst (dec a (getv v n) j))) (setv w n y)"
        using 8(4) x(1) by (intro agrees_setv [OF 8(5)]) (auto simp: narrows.simps)
      with 8(3) [OF _ refl refl prod.collapse 8(4), of n a "setv w n y"]
        x Some nt A
      show ?thesis
        by (auto simp: y_def)
    qed
  qed
next
  case (1 ty v)
  then show ?case by (cases ty; cases b) (auto simp: list_all_iff)
next
  case (2 ty v s)
  then show ?case by (cases ty; cases b) (auto simp: list_all_iff)
next
  case (5 ty v ms)
  then show ?case by (cases ty; cases b)
    (auto simp del: narrows.simps(1) agrees.simps(1) simp: narrows.simps(1) [of _ TStr]
      narrows.simps(1) [of _ "TSlice _"])
next
  case (6 ty v es)
  then show ?case by (cases ty; cases b) (auto simp: list_all_iff)
qed auto

lemma getv_zero:
  "getv (zero (TStruct fs)) n = (case map_of fs n of Some t \<Rightarrow> zero t | None \<Rightarrow> VStr [])"
  by (simp add: getv_def map_of_map split: option.split)

lemma zero_agrees: "narrows a b \<Longrightarrow> agrees a (zero a) (zero b)"
proof (induction a b rule: narrows.induct)
  case (1 A t)
  then obtain B where B: "t = TStruct B"
    by (cases t) auto
  have "agrees a (getv (zero (TStruct A)) n) (getv (zero (TStruct B)) n)" if n: "(n, a) \<in> set A" for n a
  proof -
    obtain b where "map_of B n = Some b" "narrows a b"
      using narrows_fields(3) [OF 1(2) [unfolded B] n] by auto
    moreover have "map_of A n = Some a"
      using 1(2) n B by simp
    ultimately show ?thesis
      using 1(1) [OF B n refl] by (simp add: getv_zero del: zero.simps(2))
  qed
  then show ?case
    by (auto simp: B list_all_iff simp del: zero.simps)
qed auto

theorem Unmarshal_narrows:
  assumes "narrows a b" "Unmarshal b s = Inr w"
  shows "\<exists>v. Unmarshal a s = Inr v \<and> agrees a v w"
  using assms dec_agrees(1) [OF assms(1) zero_agrees [OF assms(1)]]
  by (fastforce simp: Unmarshal_def case_prod_beta Let_def split: option.splits if_splits)

end
