(* ===== verification/Kafka_Msg.thy ===== *)
theory Kafka_Msg
  imports Go_Time Go_Json
begin

text \<open>
  What the pipeline services share of Kafka: messages, the dead-letter envelope
  (platform/kafkax/dlq.go), and the contract of the loops that read a batch.
  The broker itself is not modelled: fetching is a parameter, a function on an arbitrary
  consumer state, and the result of every write is an input of the step that makes it.
\<close>

section \<open>Messages and dead letters\<close>

record kmsg =
  Topic :: string
  Partition :: int
  Offset :: int
  Value :: bytes

record 'e Envelope =
  OriginalTopic :: string
  EnvPartition :: int
  EnvOffset :: int
  FailedAt :: gotime
  Stage :: string
  ErrorClass :: string
  Cause :: 'e
  Payload :: bytes

text \<open>\<^verbatim>\<open>json.Marshal\<close> of the envelope fails only for a \<^verbatim>\<open>time.Time\<close> whose year has not four
  digits.\<close>

definition four_digit_year :: "gotime \<Rightarrow> bool" where
  "four_digit_year t \<longleftrightarrow> dateTime 0 1 1 0 0 0 0 \<le> t \<and> t < dateTime 10000 1 1 0 0 0 0"

datatype dlq_error = MarshalError | WriteError

text \<open>\<open>ok\<close> is the broker's acknowledgement; the second component is the envelope handed to the
  writer. The cause is kept as the error, where the envelope has its text.\<close>

definition dlq_Publish :: "gotime \<Rightarrow> bool \<Rightarrow> kmsg \<Rightarrow> string \<Rightarrow> string \<Rightarrow> 'e \<Rightarrow>
    dlq_error err \<times> 'e Envelope option" where
  "dlq_Publish now ok orig stage cls cause =
     (let env = \<lparr>OriginalTopic = Topic orig, EnvPartition = Partition orig, EnvOffset = Offset orig,
                 FailedAt = now, Stage = stage, ErrorClass = cls, Cause = cause,
                 Payload = Value orig\<rparr>
      in if \<not> four_digit_year now then (Some MarshalError, None)
         else if ok then (None, Some env) else (Some WriteError, Some env))"

lemma dlq_Publish_ok:
  "dlq_Publish now ok m st cls e = (None, env) \<longleftrightarrow>
     ok \<and> four_digit_year now \<and>
     env = Some \<lparr>OriginalTopic = Topic m, EnvPartition = Partition m, EnvOffset = Offset m,
                 FailedAt = now, Stage = st, ErrorClass = cls, Cause = e, Payload = Value m\<rparr>"
  by (auto simp: dlq_Publish_def Let_def)

lemma dlq_Publish_payload:
  "snd (dlq_Publish now ok m st cls e) = Some env \<Longrightarrow> Payload env = Value m \<and> EnvOffset env = Offset m"
  by (auto simp: dlq_Publish_def Let_def split: if_splits)

section \<open>Reading a batch\<close>

text \<open>The context of a fetch: the run's own, or the one with the flush deadline.\<close>

datatype ctx = RunCtx | FlushCtx

datatype fetch_error = FetchFailed | DeadlineExceeded

type_synonym 'c fetcher = "ctx \<Rightarrow> 'c \<Rightarrow> (fetch_error + kmsg) \<times> 'c"

text \<open>
  A consumer delivers in order: a successful fetch takes the next pending message, a failed one
  takes none. \<open>pending\<close> is any view of the consumer's state as a sequence of messages.
\<close>

definition in_order :: "'c fetcher \<Rightarrow> ('c \<Rightarrow> kmsg list) \<Rightarrow> bool" where
  "in_order fetch pending \<longleftrightarrow>
     (\<forall>x c. case fetch x c of
        (Inr m, c') \<Rightarrow> pending c = m # pending c'
      | (Inl e, c') \<Rightarrow> pending c' = pending c)"

text \<open>The loop that fills a batch up to a size, as the filter, the normalizer and the database
  writer each have it.\<close>

locale batch_filler =
  fixes fill :: "'c fetcher \<Rightarrow> int \<Rightarrow> kmsg list \<Rightarrow> 'c \<Rightarrow> kmsg list \<times> 'c"
  assumes fill_full: "\<not> int (length b) < n \<Longrightarrow> fill fetch n b c = (b, c)"
    and fill_stop: "\<lbrakk>int (length b) < n; fetch FlushCtx c = (Inl e, c')\<rbrakk> \<Longrightarrow> fill fetch n b c = (b, c')"
    and fill_more: "\<lbrakk>int (length b) < n; fetch FlushCtx c = (Inr m, c')\<rbrakk>
      \<Longrightarrow> fill fetch n b c = fill fetch n (b @ [m]) c'"
begin

lemma fill_spec:
  "\<exists>ms c'. fill fetch n b c = (b @ ms, c') \<and> int (length ms) \<le> max 0 (n - int (length b)) \<and>
     (in_order fetch pending \<longrightarrow> pending c = ms @ pending c')"
proof (induction "nat (n - int (length b))" arbitrary: b c)
  case 0
  then show ?case
    using fill_full [of b n fetch c] by auto
next
  case (Suc k)
  then have lt: "int (length b) < n" by linarith
  show ?case
  proof (cases "fetch FlushCtx c")
    case (Pair r c1)
    show ?thesis
    proof (cases r)
      case (Inl e)
      then show ?thesis
        using fill_stop [OF lt, of fetch c e c1] Pair
        by (auto simp: in_order_def dest!: spec [of _ FlushCtx] spec [of _ c])
    next
      case (Inr m)
      have "k = nat (n - int (length (b @ [m])))"
        using Suc(2) by simp
      from Suc(1) [OF this, of c1] obtain ms c'
        where "fill fetch n (b @ [m]) c1 = ((b @ [m]) @ ms, c')"
          "int (length ms) \<le> max 0 (n - int (length (b @ [m])))"
          "in_order fetch pending \<longrightarrow> pending c1 = ms @ pending c'"
        by blast
      then show ?thesis
        using fill_more [OF lt, of fetch c m c1] Pair Inr lt
        by (intro exI [of _ "m # ms"] exI [of _ c'])
          (auto simp: in_order_def dest!: spec [of _ FlushCtx] spec [of _ c])
    qed
  qed
qed

lemma fill_first:
  assumes "fill fetch n [m] c = (b, c')"
  shows "b \<noteq> [] \<and> int (length b) \<le> max 1 n \<and> hd b = m"
    and "in_order fetch pending \<Longrightarrow> b @ pending c' = m # pending c"
  using fill_spec [of fetch n "[m]" c pending] assms by (auto simp: max_def)

end

section \<open>Workers in any order\<close>

text \<open>
  Several workers handle the messages of a batch in an order nobody controls. A handler whose
  effect on a view of the state commutes gives the same view in every order.
\<close>

locale commuting_handler =
  fixes handle :: "'m \<Rightarrow> 's \<Rightarrow> 's"
    and view :: "'s \<Rightarrow> 'v"
    and vstep :: "'m \<Rightarrow> 'v \<Rightarrow> 'v"
  assumes view_handle: "view (handle m s) = vstep m (view s)"
    and vstep_comm: "vstep m (vstep m' v) = vstep m' (vstep m v)"
begin

lemma view_fold: "view (fold handle ms s) = fold vstep ms (view s)"
  by (induction ms arbitrary: s) (simp_all add: view_handle)

lemma view_any_order: "mset ms = mset ms' \<Longrightarrow> view (fold handle ms s) = view (fold handle ms' s)"
  unfolding view_fold
  by (intro fun_cong [OF fold_multiset_equiv] fold_multiset_equiv)
    (auto simp: fun_eq_iff vstep_comm)

end

section \<open>Commits close their batch\<close>

text \<open>
  The log of a loop whose workers handle a batch and which then commits its last message.
  \<open>batch_open\<close> relates the end of the log to the batch being worked on and the messages still
  queued, \<open>closes_batch\<close> says that every message of a batch was handled, just before, without a
  failure.
\<close>

locale worker_log =
  fixes ev_msg :: "'e \<Rightarrow> kmsg" and handled :: "'e \<Rightarrow> bool" and ev_ok :: "'e \<Rightarrow> bool"
begin

definition batch_open :: "'e list \<Rightarrow> bool \<Rightarrow> kmsg list \<Rightarrow> kmsg list \<Rightarrow> bool" where
  "batch_open l fl batch queue \<longleftrightarrow> batch \<noteq> [] \<and>
     (\<exists>l0 outs. l = l0 @ outs \<and> mset (map ev_msg outs) + mset queue = mset batch \<and>
        list_all handled outs \<and> (fl \<longleftrightarrow> \<not> list_all ev_ok outs))"

definition closes_batch :: "'e list \<Rightarrow> kmsg list \<Rightarrow> kmsg \<Rightarrow> bool" where
  "closes_batch l batch m \<longleftrightarrow> batch \<noteq> [] \<and> m = last batch \<and>
     (\<exists>l0 outs. l = l0 @ outs \<and> mset (map ev_msg outs) = mset batch \<and>
        list_all (\<lambda>e. handled e \<and> ev_ok e) outs)"

lemma batch_open_closes: "batch_open l False batch [] \<Longrightarrow> closes_batch l batch (last batch)"
  by (auto simp: batch_open_def closes_batch_def list_all_iff)

lemma batch_open_start: "batch \<noteq> [] \<Longrightarrow> batch_open l False batch batch"
  unfolding batch_open_def by (intro conjI exI [of _ l] exI [of _ "[]"]) auto

lemma batch_open_work:
  assumes "batch_open l fl batch (xs @ m # ys)" "ev_msg e = m" "handled e"
  shows "batch_open (l @ [e]) (fl \<or> \<not> ev_ok e) batch (xs @ ys)"
proof -
  obtain l0 outs where o: "l = l0 @ outs" "mset (map ev_msg outs) + mset (xs @ m # ys) = mset batch"
    "list_all handled outs" "fl \<longleftrightarrow> \<not> list_all ev_ok outs" "batch \<noteq> []"
    using assms(1) by (auto simp: batch_open_def)
  show ?thesis
    unfolding batch_open_def
    by (intro conjI exI [of _ l0] exI [of _ "outs @ [e]"]) (use o assms(2,3) in auto)
qed

end

end
