(* ===== verification/Filter_Flight.thy ===== *)
theory Filter_Flight
  imports Kafka_Msg
begin

text \<open>
  filter/internal/flight/flight.go: the part of a normalized flight message the filter reads.
\<close>

record Ident =
  CallSign :: string
  Registration :: string

definition element :: gty where
  "element = TStruct [(''flight'', TStruct
     [(''flightIdentification'', TStruct [(''aircraftIdentification'', TStr)]),
      (''aircraftDescription'', TStruct [(''registration'', TStr)]),
      (''gufi'', TStruct [(''code'', TStr)])])]"

record Message =
  Raw :: bytes
  ident :: Ident
  Gufi :: string

definition Parse :: "bytes \<Rightarrow> unmarshal_error + Message" where
  "Parse payload =
     (case Unmarshal element payload of
        Inl e \<Rightarrow> Inl e
      | Inr e \<Rightarrow> Inr \<lparr>
          Raw = payload,
          ident = \<lparr>CallSign = gstr e [''flight'', ''flightIdentification'', ''aircraftIdentification''],
                   Registration = gstr e [''flight'', ''aircraftDescription'', ''registration'']\<rparr>,
          Gufi = gstr e [''flight'', ''gufi'', ''code'']\<rparr>)"

lemma Parse_Raw: "Parse p = Inr m \<Longrightarrow> Raw m = p"
  by (auto simp: Parse_def split: sum.splits)

text \<open>A reader with a wider struct sees the identity the filter sees.\<close>

lemma Parse_agrees:
  assumes "narrows element b" "Unmarshal b p = Inr w"
  shows "\<exists>m. Parse p = Inr m \<and>
     CallSign (ident m) = gstr w [''flight'', ''flightIdentification'', ''aircraftIdentification''] \<and>
     Registration (ident m) = gstr w [''flight'', ''aircraftDescription'', ''registration''] \<and>
     Gufi m = gstr w [''flight'', ''gufi'', ''code'']"
proof -
  obtain v where v: "Unmarshal element p = Inr v" and a: "agrees element v w"
    using Unmarshal_narrows [OF assms] by blast
  show ?thesis
    using a [unfolded element_def] by (auto simp: Parse_def v gstr_def gpath_def)
qed

end
