(* ===== verification/Filter_Pipeline.thy ===== *)
theory Filter_Pipeline
  imports Filter_Flight Ladd_Store
begin

text \<open>
  filter/internal/pipeline/filter.go: the filter's batch loop. A batch is read, every message is
  handled by some worker (\<open>process\<close>), and the last message is committed when no write failed.
  A call of \<open>process\<close> is one step, placed at its single read of the shared block list
  (\<^verbatim>\<open>Blocks\<close> loads the snapshot pointer once); the other shared state of the workers is a set of
  atomic counters and the flag \<^verbatim>\<open>failed\<close>. What the environment decides in a call (the clock of the
  dead-letter envelope and the acknowledgements) is the record \<open>call_env\<close>.
\<close>

section \<open>State\<close>

record Filter =
  workers :: int
  batchSize :: int

definition defaultBatchSize :: int where "defaultBatchSize = 100"

definition New :: "int \<Rightarrow> Filter" where
  "New w = \<lparr>workers = (if w < 1 then 1 else w), batchSize = defaultBatchSize\<rparr>"

text \<open>The counters of metrics/stats.go, and the Prometheus counters of metrics/prom.go.\<close>

record Stats =
  Flights :: int64
  BytesRead :: int64
  ParseErrors :: int64
  Blocked :: int64
  Forwarded :: int64

definition NewStats :: Stats where
  "NewStats = \<lparr>Flights = 0, BytesRead = 0, ParseErrors = 0, Blocked = 0, Forwarded = 0\<rparr>"

record Prom =
  FlightsProcessed :: nat
  PromParseErrors :: nat
  PromBlocked :: nat
  PromForwarded :: nat
  PublishErrors :: nat
  DLQPublished :: nat

definition zeroProm :: Prom where
  "zeroProm = \<lparr>FlightsProcessed = 0, PromParseErrors = 0, PromBlocked = 0, PromForwarded = 0,
     PublishErrors = 0, DLQPublished = 0\<rparr>"

text \<open>
  The writes the filter makes, in order: a publish with the block list it was screened against
  and its result, a dead letter with its result, a suppressed message, and a commit with the
  batch it concludes.
\<close>

datatype event =
    Publish snapshot kmsg bytes bytes bool
  | Dead kmsg "unmarshal_error Envelope option" bool
  | Suppress snapshot kmsg
  | Commit "kmsg list" kmsg bool

record acc =
  stats :: Stats
  prom :: Prom
  failed :: bool
  log :: "event list"

definition zeroAcc :: acc where
  "zeroAcc = \<lparr>stats = NewStats, prom = zeroProm, failed = False, log = []\<rparr>"

record call_env =
  call_now :: gotime
  pub_ok :: bool
  dlq_ok :: bool

section \<open>Operations\<close>

definition emit :: "event \<Rightarrow> acc \<Rightarrow> acc" where
  "emit e a = a\<lparr>log := log a @ [e]\<rparr>"

definition deadLetter :: "call_env \<Rightarrow> kmsg \<Rightarrow> unmarshal_error \<Rightarrow> acc \<Rightarrow> acc" where
  "deadLetter env msg cause a =
     (case dlq_Publish (call_now env) (dlq_ok env) msg ''filter'' ''poison'' cause of
        (Some err, sent) \<Rightarrow> (emit (Dead msg sent False) a)\<lparr>failed := True\<rparr>
      | (None, sent) \<Rightarrow>
          (emit (Dead msg sent True) a)\<lparr>prom := (prom a)\<lparr>DLQPublished := DLQPublished (prom a) + 1\<rparr>\<rparr>)"

definition count_message :: "kmsg \<Rightarrow> acc \<Rightarrow> acc" where
  "count_message msg a = a\<lparr>
     stats := (stats a)\<lparr>Flights := Flights (stats a) + 1,
                        BytesRead := BytesRead (stats a) + of_nat (length (Value msg))\<rparr>,
     prom := (prom a)\<lparr>FlightsProcessed := FlightsProcessed (prom a) + 1\<rparr>\<rparr>"

definition process :: "(string \<Rightarrow> string) \<Rightarrow> store \<Rightarrow> call_env \<Rightarrow> kmsg \<Rightarrow> acc \<Rightarrow> acc" where
  "process u blocklist env msg a0 =
     (let a = count_message msg a0
      in case Parse (Value msg) of
           Inl err \<Rightarrow>
             deadLetter env msg err (a\<lparr>
               stats := (stats a)\<lparr>ParseErrors := ParseErrors (stats a) + 1\<rparr>,
               prom := (prom a)\<lparr>PromParseErrors := PromParseErrors (prom a) + 1\<rparr>\<rparr>)
         | Inr m \<Rightarrow>
             if store_Blocks u blocklist (CallSign (ident m)) (Registration (ident m)) then
               emit (Suppress (current blocklist) msg) (a\<lparr>
                 stats := (stats a)\<lparr>Blocked := Blocked (stats a) + 1\<rparr>,
                 prom := (prom a)\<lparr>PromBlocked := PromBlocked (prom a) + 1\<rparr>\<rparr>)
             else if \<not> pub_ok env then
               emit (Publish (current blocklist) msg (Gufi m) (Raw m) False) (a\<lparr>
                 prom := (prom a)\<lparr>PublishErrors := PublishErrors (prom a) + 1\<rparr>,
                 failed := True\<rparr>)
             else
               emit (Publish (current blocklist) msg (Gufi m) (Raw m) True) (a\<lparr>
                 stats := (stats a)\<lparr>Forwarded := Forwarded (stats a) + 1\<rparr>,
                 prom := (prom a)\<lparr>PromForwarded := PromForwarded (prom a) + 1\<rparr>\<rparr>))"

function fill :: "'c fetcher \<Rightarrow> int \<Rightarrow> kmsg list \<Rightarrow> 'c \<Rightarrow> kmsg list \<times> 'c" where
  "fill fetch n batch c =
     (if int (length batch) < n
      then (case fetch FlushCtx c of
              (Inl err, c') \<Rightarrow> (batch, c')
            | (Inr msg, c') \<Rightarrow> fill fetch n (batch @ [msg]) c')
      else (batch, c))"
  by pat_completeness auto
termination
  by (relation "measure (\<lambda>(fetch, n, batch, c). nat (n - int (length batch)))") auto

declare fill.simps [simp del]

definition readBatch :: "Filter \<Rightarrow> 'c fetcher \<Rightarrow> 'c \<Rightarrow> (fetch_error + kmsg list) \<times> 'c" where
  "readBatch f fetch c =
     (case fetch RunCtx c of
        (Inl err, c') \<Rightarrow> (Inl err, c')
      | (Inr first, c') \<Rightarrow> (let (batch, c'') = fill fetch (batchSize f) [first] c' in (Inr batch, c'')))"

definition commit :: "bool \<Rightarrow> kmsg list \<Rightarrow> acc \<Rightarrow> acc" where
  "commit ok batch a = emit (Commit batch (last batch) ok) a"

section \<open>The loop\<close>

text \<open>
  Where the loop is. \<open>Reading\<close> and \<open>Working\<close> keep, for the proofs, the clock and the store at the
  readiness test that opened the iteration; \<open>Working\<close> holds the batch and the messages no worker
  has taken yet. Any queued message may be the next one handled.
\<close>

datatype phase =
    Top
  | Reading gotime store
  | Working gotime store "kmsg list" "kmsg list"
  | Halted not_ready
  | Returned

record 'c run =
  blocklist :: store
  clock :: gotime
  consumer :: 'c
  acc_of :: acc
  phase :: phase

definition initial :: "store \<Rightarrow> gotime \<Rightarrow> 'c \<Rightarrow> 'c run" where
  "initial s t c = \<lparr>blocklist = s, clock = t, consumer = c, acc_of = zeroAcc, phase = Top\<rparr>"

inductive run_step :: "(string \<Rightarrow> string) \<Rightarrow> Dirs \<Rightarrow> Filter \<Rightarrow> 'c fetcher \<Rightarrow> 'c run \<Rightarrow> 'c run \<Rightarrow> bool"
  for u d f fetch where
  halt: "\<lbrakk>phase r = Top; Ready (clock r) (blocklist r) = Some why\<rbrakk>
    \<Longrightarrow> run_step u d f fetch r (r\<lparr>phase := Halted why\<rparr>)"
| gate: "\<lbrakk>phase r = Top; Ready (clock r) (blocklist r) = None\<rbrakk>
    \<Longrightarrow> run_step u d f fetch r (r\<lparr>phase := Reading (clock r) (blocklist r)\<rparr>)"
| read_done: "\<lbrakk>phase r = Reading t s; readBatch f fetch (consumer r) = (Inl err, c')\<rbrakk>
    \<Longrightarrow> run_step u d f fetch r (r\<lparr>consumer := c', phase := Returned\<rparr>)"
| read_error: "\<lbrakk>phase r = Reading t s; readBatch f fetch (consumer r) = (Inl err, c')\<rbrakk>
    \<Longrightarrow> run_step u d f fetch r (r\<lparr>consumer := c', phase := Top\<rparr>)"
| read_empty: "\<lbrakk>phase r = Reading t s; readBatch f fetch (consumer r) = (Inr [], c')\<rbrakk>
    \<Longrightarrow> run_step u d f fetch r (r\<lparr>consumer := c', phase := Top\<rparr>)"
| read: "\<lbrakk>phase r = Reading t s; readBatch f fetch (consumer r) = (Inr batch, c'); batch \<noteq> []\<rbrakk>
    \<Longrightarrow> run_step u d f fetch r (r\<lparr>consumer := c', phase := Working t s batch batch,
          acc_of := (acc_of r)\<lparr>failed := False\<rparr>\<rparr>)"
| work: "\<lbrakk>phase r = Working t s batch (xs @ m # ys)\<rbrakk>
    \<Longrightarrow> run_step u d f fetch r (r\<lparr>acc_of := process u (blocklist r) env m (acc_of r),
          phase := Working t s batch (xs @ ys)\<rparr>)"
| batch_failed: "\<lbrakk>phase r = Working t s batch []; failed (acc_of r)\<rbrakk>
    \<Longrightarrow> run_step u d f fetch r (r\<lparr>phase := Top\<rparr>)"
| batch_done: "\<lbrakk>phase r = Working t s batch []; \<not> failed (acc_of r)\<rbrakk>
    \<Longrightarrow> run_step u d f fetch r (r\<lparr>acc_of := commit ok batch (acc_of r), phase := Top\<rparr>)"
| tick: "run_step u d f fetch r (r\<lparr>clock := t\<rparr>)"
| reload: "\<lbrakk>\<not> dev (blocklist r); Reload u env d fs (blocklist r) = (res, fs', s')\<rbrakk>
    \<Longrightarrow> run_step u d f fetch r (r\<lparr>blocklist := s'\<rparr>)"

inductive_cases run_stepE: "run_step u d f fetch r r'"

definition reachable :: "(string \<Rightarrow> string) \<Rightarrow> Dirs \<Rightarrow> Filter \<Rightarrow> 'c fetcher \<Rightarrow> 'c run \<Rightarrow> 'c run \<Rightarrow> bool" where
  "reachable u d f fetch = (run_step u d f fetch)\<^sup>*\<^sup>*"

section \<open>What a call does\<close>

fun handled :: "event \<Rightarrow> bool" where
  "handled (Commit b m ok) = False"
| "handled _ = True"

fun ev_msg :: "event \<Rightarrow> kmsg" where
  "ev_msg (Publish snap m key data ok) = m"
| "ev_msg (Dead m env ok) = m"
| "ev_msg (Suppress snap m) = m"
| "ev_msg (Commit b m ok) = m"

fun ev_ok :: "event \<Rightarrow> bool" where
  "ev_ok (Publish snap m key data ok) = ok"
| "ev_ok (Dead m env ok) = ok"
| "ev_ok (Suppress snap m) = True"
| "ev_ok (Commit b m ok) = ok"

fun is_Dead :: "event \<Rightarrow> bool" where
  "is_Dead (Dead m env ok) = True"
| "is_Dead _ = False"

fun is_Suppress :: "event \<Rightarrow> bool" where
  "is_Suppress (Suppress snap m) = True"
| "is_Suppress _ = False"

fun is_Publish :: "event \<Rightarrow> bool" where
  "is_Publish (Publish snap m key data ok) = True"
| "is_Publish _ = False"

text \<open>The event one call of \<open>process\<close> ends in.\<close>

definition outcome :: "(string \<Rightarrow> string) \<Rightarrow> store \<Rightarrow> call_env \<Rightarrow> kmsg \<Rightarrow> event" where
  "outcome u s env msg =
     (case Parse (Value msg) of
        Inl err \<Rightarrow> (case dlq_Publish (call_now env) (dlq_ok env) msg ''filter'' ''poison'' err of
            (e, sent) \<Rightarrow> Dead msg sent (e = None))
      | Inr m \<Rightarrow>
          if store_Blocks u s (CallSign (ident m)) (Registration (ident m))
          then Suppress (current s) msg
          else Publish (current s) msg (Gufi m) (Value msg) (pub_ok env))"

lemmas process_defs = process_def count_message_def deadLetter_def emit_def outcome_def Let_def

lemma process_log [go_simps]: "log (process u s env m a) = log a @ [outcome u s env m]"
  by (auto simp: process_defs Parse_Raw split: sum.splits prod.splits option.splits)

lemma process_failed [go_simps]:
  "failed (process u s env m a) \<longleftrightarrow> failed a \<or> \<not> ev_ok (outcome u s env m)"
  by (auto simp: process_defs split: sum.splits prod.splits option.splits)

lemma process_stats [go_simps]:
  "stats (process u s env m a) = (let e = outcome u s env m; st = stats a in
     \<lparr>Flights = Flights st + 1,
      BytesRead = BytesRead st + of_nat (length (Value m)),
      ParseErrors = ParseErrors st + of_bool (is_Dead e),
      Blocked = Blocked st + of_bool (is_Suppress e),
      Forwarded = Forwarded st + of_bool (is_Publish e \<and> ev_ok e)\<rparr>)"
  by (auto simp: process_defs split: sum.splits prod.splits option.splits)

lemma process_prom [go_simps]:
  "prom (process u s env m a) = (let e = outcome u s env m; p = prom a in
     \<lparr>FlightsProcessed = FlightsProcessed p + 1,
      PromParseErrors = PromParseErrors p + of_bool (is_Dead e),
      PromBlocked = PromBlocked p + of_bool (is_Suppress e),
      PromForwarded = PromForwarded p + of_bool (is_Publish e \<and> ev_ok e),
      PublishErrors = PublishErrors p + of_bool (is_Publish e \<and> \<not> ev_ok e),
      DLQPublished = DLQPublished p + of_bool (is_Dead e \<and> ev_ok e)\<rparr>)"
  by (auto simp: process_defs split: sum.splits prod.splits option.splits)

lemma outcome_msg [simp]: "ev_msg (outcome u s env m) = m" "handled (outcome u s env m)"
  by (auto simp: outcome_def split: sum.splits prod.splits)

section \<open>Batches and their order\<close>

interpretation bf: batch_filler fill
  by unfold_locales (subst fill.simps, simp)+

lemma readBatch_Inr:
  assumes "readBatch f fetch c = (Inr b, c')"
  shows "b \<noteq> [] \<and> int (length b) \<le> max 1 (batchSize f)"
    and "in_order fetch pending \<Longrightarrow> pending c = b @ pending c'"
proof -
  obtain m c1 where m: "fetch RunCtx c = (Inr m, c1)" "fill fetch (batchSize f) [m] c1 = (b, c')"
    using assms by (auto simp: readBatch_def split: prod.splits sum.splits)
  show "b \<noteq> [] \<and> int (length b) \<le> max 1 (batchSize f)"
    using bf.fill_first(1) [OF m(2)] by simp
  show "pending c = b @ pending c'" if "in_order fetch pending"
    using bf.fill_first(2) [OF m(2) that] that m(1)
    by (auto simp: in_order_def dest!: spec [of _ RunCtx] spec [of _ c])
qed

text \<open>What is left of an accumulator when the order of its events is forgotten.\<close>

definition acc_view :: "acc \<Rightarrow> Stats \<times> Prom \<times> bool \<times> event multiset" where
  "acc_view a = (stats a, prom a, failed a, mset (log a))"

definition view_step :: "(string \<Rightarrow> string) \<Rightarrow> store \<Rightarrow> (kmsg \<Rightarrow> call_env) \<Rightarrow> kmsg \<Rightarrow>
    Stats \<times> Prom \<times> bool \<times> event multiset \<Rightarrow> Stats \<times> Prom \<times> bool \<times> event multiset" where
  "view_step u s env m = (\<lambda>(st, p, fl, evs).
     (let a = process u s (env m) m \<lparr>stats = st, prom = p, failed = fl, log = []\<rparr>
      in (stats a, prom a, failed a, evs + mset (log a))))"

interpretation ch: commuting_handler "\<lambda>m. process u s (env m) m" acc_view "view_step u s env"
  for u s env
proof (unfold_locales, goal_cases)
  case (1 m a)
  show ?case
    by (simp add: acc_view_def view_step_def go_simps Let_def)
next
  case (2 m m' v)
  show ?case
    by (cases v) (simp add: view_step_def go_simps Let_def ac_simps disj_commute disj_left_commute)
qed

section \<open>Invariants of the loop\<close>

text \<open>Every write follows from the message: what is published parsed and was not blocked by the
  list consulted, what is suppressed parsed and was blocked, what is dead-lettered did not parse.\<close>

definition justified :: "(string \<Rightarrow> string) \<Rightarrow> event \<Rightarrow> bool" where
  "justified u e =
     (case e of
        Publish snap m key data ok \<Rightarrow>
          (case Parse (Value m) of
             Inl _ \<Rightarrow> False
           | Inr fm \<Rightarrow> key = Gufi fm \<and> data = Value m \<and>
               \<not> Blocks u (snap_set snap) (CallSign (ident fm)) (Registration (ident fm)))
      | Suppress snap m \<Rightarrow>
          (case Parse (Value m) of
             Inl _ \<Rightarrow> False
           | Inr fm \<Rightarrow> Blocks u (snap_set snap) (CallSign (ident fm)) (Registration (ident fm)))
      | Dead m sent ok \<Rightarrow>
          (case Parse (Value m) of
             Inl _ \<Rightarrow> ok \<longrightarrow> (\<exists>env. sent = Some env \<and> Payload env = Value m \<and> EnvOffset env = Offset m)
           | Inr fm \<Rightarrow> False)
      | Commit b m ok \<Rightarrow> True)"

lemma outcome_justified: "justified u (outcome u s env m)"
  by (auto simp: justified_def outcome_def store_Blocks_def dlq_Publish_def Let_def
      split: sum.splits prod.splits if_splits)

text \<open>The counters are functions of the log.\<close>

definition count_ev :: "(event \<Rightarrow> bool) \<Rightarrow> event list \<Rightarrow> nat" where
  "count_ev P l = length (filter P l)"

lemma count_ev_simps [simp]:
  "count_ev P [] = 0" "count_ev P (l @ l') = count_ev P l + count_ev P l'"
  "count_ev P [e] = of_bool (P e)"
  by (simp_all add: count_ev_def)

definition tallied :: "acc \<Rightarrow> bool" where
  "tallied a \<longleftrightarrow>
     prom a = \<lparr>FlightsProcessed = count_ev handled (log a),
       PromParseErrors = count_ev is_Dead (log a),
       PromBlocked = count_ev is_Suppress (log a),
       PromForwarded = count_ev (\<lambda>e. is_Publish e \<and> ev_ok e) (log a),
       PublishErrors = count_ev (\<lambda>e. is_Publish e \<and> \<not> ev_ok e) (log a),
       DLQPublished = count_ev (\<lambda>e. is_Dead e \<and> ev_ok e) (log a)\<rparr> \<and>
     stats a = \<lparr>Flights = of_nat (FlightsProcessed (prom a)),
       BytesRead = of_nat (\<Sum>e\<leftarrow>filter handled (log a). length (Value (ev_msg e))),
       ParseErrors = of_nat (PromParseErrors (prom a)),
       Blocked = of_nat (PromBlocked (prom a)),
       Forwarded = of_nat (PromForwarded (prom a))\<rparr>"

lemma tallied_process [inv_intros]: "tallied a \<Longrightarrow> tallied (process u s env m a)"
  by (simp add: tallied_def go_simps Let_def)

lemma tallied_zero [inv_intros]: "tallied zeroAcc"
  by (simp add: tallied_def zeroAcc_def NewStats_def zeroProm_def)

lemma tallied_failed [inv_intros]: "tallied a \<Longrightarrow> tallied (a\<lparr>failed := b\<rparr>)"
  by (simp add: tallied_def)

lemma tallied_commit [inv_intros]: "tallied a \<Longrightarrow> tallied (commit ok b a)"
  by (simp add: tallied_def commit_def emit_def)

lemma handled_kinds:
  "count_ev handled l = count_ev is_Dead l + count_ev is_Suppress l
     + count_ev (\<lambda>e. is_Publish e \<and> ev_ok e) l + count_ev (\<lambda>e. is_Publish e \<and> \<not> ev_ok e) l"
proof (induction l)
  case (Cons e l)
  then show ?case by (cases e) (auto simp: count_ev_def)
qed simp

text \<open>A commit closes a batch all of whose messages were handled, just before it, without a
  failure.\<close>

interpretation wl: worker_log ev_msg handled ev_ok .

definition commits_closed :: "event list \<Rightarrow> bool" where
  "commits_closed = every_prefix (\<lambda>l1 e. \<forall>batch m ok. e = Commit batch m ok \<longrightarrow> wl.closes_batch l1 batch m)"

text \<open>The store used since the readiness test: the one tested, or a list dated later.\<close>

definition since_gate :: "gotime \<Rightarrow> store \<Rightarrow> store \<Rightarrow> bool" where
  "since_gate t g s \<longleftrightarrow> Ready t g = None \<and> dev s = dev g \<and> maxAge s = maxAge g \<and>
     (s = g \<or> \<not> dev g \<and> effectiveDate (current g) < effectiveDate (current s))"

lemma since_gate_refl [inv_intros]: "Ready t s = None \<Longrightarrow> since_gate t s s"
  by (simp add: since_gate_def)

lemma since_gate_Reload [inv_intros]:
  assumes "since_gate t g s" "\<not> dev s" and R: "Reload u env d fs s = (res, fs', s')"
  shows "since_gate t g s'"
proof -
  obtain swapped e where "res = (swapped, e)" by (cases res)
  with R have "Reload u env d fs s = ((swapped, e), fs', s')" by simp
  then show ?thesis
    using assms(1,2)
    by (cases rule: Reload_cases) (auto simp: since_gate_def After_def)
qed

definition gated :: "bool \<Rightarrow> duration \<Rightarrow> event \<Rightarrow> bool" where
  "gated dv age e = (case e of
      Publish snap m key data ok \<Rightarrow> 
        (\<exists>t g s. since_gate t g s \<and> wf_store s \<and> current s = snap \<and> dev g = dv \<and> maxAge g = age)
    | _ \<Rightarrow> True)"

lemma outcome_gated:
  "since_gate t g s \<Longrightarrow> wf_store s \<Longrightarrow> gated (dev s) (maxAge s) (outcome u s env m)"
  by (auto simp: gated_def outcome_def since_gate_def split: sum.splits prod.splits)

fun phase_inv :: "store \<Rightarrow> acc \<Rightarrow> phase \<Rightarrow> bool" where
  "phase_inv s a (Reading t g) \<longleftrightarrow> since_gate t g s"
| "phase_inv s a (Working t g batch queue) \<longleftrightarrow>
     since_gate t g s \<and> wl.batch_open (log a) (failed a) batch queue"
| "phase_inv s a (Halted why) \<longleftrightarrow> True"
| "phase_inv s a _ \<longleftrightarrow> True"

definition run_inv :: "(string \<Rightarrow> string) \<Rightarrow> bool \<Rightarrow> duration \<Rightarrow> 'c run \<Rightarrow> bool" where
  "run_inv u dv age r \<longleftrightarrow> wf_store (blocklist r) \<and> dev (blocklist r) = dv \<and> maxAge (blocklist r) = age \<and> phase_inv (blocklist r) (acc_of r) (phase r) \<and>
     tallied (acc_of r) \<and> commits_closed (log (acc_of r)) \<and>
     list_all (justified u) (log (acc_of r)) \<and> list_all (gated dv age) (log (acc_of r))"

lemma run_inv_initial [inv_intros]: "wf_store s \<Longrightarrow> run_inv u (dev s) (maxAge s) (initial s t c)"
  using tallied_zero by (simp add: run_inv_def initial_def zeroAcc_def commits_closed_def)

lemma run_inv_step:
  assumes "run_step u d f fetch r r'" "run_inv u dv age r"
  shows "run_inv u dv age r'"
  using assms
proof (cases rule: run_step.cases)
  case (work t s batch xs m ys env)
  let ?e = "outcome u (blocklist r) env m"
  have "\<not> (\<exists>b m ok. ?e = Commit b m ok)"
    using outcome_msg(2) [of u "blocklist r" env m] by (auto simp del: outcome_msg)
  moreover have "gated dv age ?e"
    using assms(2) work by (auto simp: run_inv_def intro: outcome_gated)
  moreover have "wl.batch_open (log (acc_of r) @ [?e]) (failed (acc_of r) \<or> \<not> ev_ok ?e) batch (xs @ ys)"
    using assms(2) work by (auto simp: run_inv_def intro!: wl.batch_open_work)
  ultimately show ?thesis
    using assms(2) work
    by (simp add: run_inv_def go_simps commits_closed_def outcome_justified tallied_process)
next
  case (batch_done t s batch ok)
  then show ?thesis
    using assms(2) tallied_commit [of "acc_of r" ok batch]
    by (auto simp: run_inv_def commit_def emit_def commits_closed_def justified_def gated_def
        wl.batch_open_closes)
next
  case (reload env fs res fs' s')
  then have "wf_store s' \<and> dev s' = dv \<and> maxAge s' = age"
    using assms(2) wf_store_Reload Reload_frame by (cases res) (fastforce simp: run_inv_def)
  moreover have "phase_inv s' (acc_of r) (phase r)"
    using assms(2) reload by (cases "phase r") (auto simp: run_inv_def intro: since_gate_Reload)
  ultimately show ?thesis
    using assms(2) reload by (auto simp: run_inv_def)
qed (auto simp: run_inv_def since_gate_refl tallied_failed intro: wl.batch_open_start)

lemma run_inv_reachable:
  assumes "reachable u d f fetch r r'" "run_inv u dv age r"
  shows "run_inv u dv age r'"
  using assms unfolding reachable_def
  by (induction rule: rtranclp_induct) (auto intro: run_inv_step)

lemma run_inv_startup:
  assumes "reachable u d f fetch (initial (snd (startup u env d age isDev fs)) t c) r"
  shows "run_inv u isDev age r"
proof -
  let ?s = "snd (startup u env d age isDev fs)"
  have "dev ?s = isDev" "maxAge ?s = age"
    by (auto simp: startup_def SetDev_def NewStore_def Let_def split: sum.splits)
  then have "run_inv u isDev age (initial ?s t c)"
    using run_inv_initial [OF wf_store_startup [of u env d age isDev fs], of u t c] by simp
  then show ?thesis
    by (rule run_inv_reachable [OF assms])
qed

lemma halted_stays:
  assumes "reachable u d f fetch r r'" "phase r = Halted why"
  shows "phase r' = Halted why \<and> acc_of r' = acc_of r"
  using assms unfolding reachable_def
  by (induction rule: rtranclp_induct) (auto elim!: run_stepE)

text \<open>A whole iteration with a batch of one message.\<close>

lemma run_one_message:
  assumes "phase r = Top" "Ready (clock r) (blocklist r) = None"
    and "readBatch f fetch (consumer r) = (Inr [m], c')"
    and a: "a = process u (blocklist r) env m ((acc_of r)\<lparr>failed := False\<rparr>)"
  shows "reachable u d f fetch r (r\<lparr>consumer := c',
     acc_of := (if failed a then a else commit ok [m] a), phase := Top\<rparr>)"
proof -
  let ?g = "r\<lparr>phase := Reading (clock r) (blocklist r)\<rparr>"
  let ?b = "?g\<lparr>consumer := c', phase := Working (clock r) (blocklist r) [m] [m],
    acc_of := (acc_of r)\<lparr>failed := False\<rparr>\<rparr>"
  let ?w = "?b\<lparr>acc_of := a, phase := Working (clock r) (blocklist r) [m] ([] @ [])\<rparr>"
  let ?step = "run_step u d f fetch"
  have "?step r ?g"
    using assms by (intro run_step.gate) auto
  moreover have "?step ?g ?b"
    using run_step.read [of ?g _ _ f fetch "[m]" c'] assms by simp
  moreover have "?step ?b ?w"
    using run_step.work [of ?b _ _ "[m]" "[]" m "[]"] a by simp
  moreover have "?step ?w (r\<lparr>consumer := c',
      acc_of := (if failed a then a else commit ok [m] a), phase := Top\<rparr>)"
    using run_step.batch_failed [of ?w _ _ "[m]" u d f fetch]
      run_step.batch_done [of ?w _ _ "[m]" u d f fetch ok]
    by (cases "failed a") simp_all
  ultimately show ?thesis
    unfolding reachable_def by (meson converse_rtranclp_into_rtranclp rtranclp.rtrancl_refl)
qed

section \<open>A concrete run\<close>

text \<open>A staged list, a consumer with two messages that flushes after each, and the state after
  both batches: the first publish failed, the second succeeded and was committed.\<close>

definition demo_dirs :: Dirs where
  "demo_dirs = \<lparr>Staging = ''staging'', Active = ''active'', Archived = ''archived''\<rparr>"

definition demo_disk :: fsys where
  "demo_disk = [''staging'' \<mapsto>
     [(''LADD_Industry_Filter_20250601.txt'', File (''# list'' @ [newline] @ ''n123'' @ [newline]))]]"

definition demo_store :: store where
  "demo_store = snd (startup id no_faults demo_dirs 0 False demo_disk)"

definition demo_msg :: "int \<Rightarrow> kmsg" where
  "demo_msg n = \<lparr>Topic = ''normalized'', Partition = 0, Offset = n, Value = ''{}''\<rparr>"

definition demo_fetch :: "kmsg list fetcher" where
  "demo_fetch x c = (case x of
      RunCtx \<Rightarrow> (case c of [] \<Rightarrow> (Inl FetchFailed, []) | m # ms \<Rightarrow> (Inr m, ms))
    | FlushCtx \<Rightarrow> (Inl DeadlineExceeded, c))"

definition demo_now :: gotime where
  "demo_now = dateTime 2025 6 2 0 0 0 0"

definition demo_env :: "bool \<Rightarrow> call_env" where
  "demo_env ok = \<lparr>call_now = demo_now, pub_ok = ok, dlq_ok = True\<rparr>"

abbreviation demo_init :: "kmsg list run" where
  "demo_init \<equiv> initial demo_store demo_now [demo_msg 7, demo_msg 8]"

abbreviation demo_snap :: snapshot where
  "demo_snap \<equiv> \<lparr>snap_set = Some \<lparr>entries = [''N123'']\<rparr>, effectiveDate = dateTime 2025 6 1 0 0 0 0\<rparr>"

lemma demo_store: "demo_store = \<lparr>current = demo_snap, maxAge = 0, dev = False\<rparr>"
  by code_simp

lemma demo_ready: "Ready demo_now demo_store = None"
  unfolding demo_store by code_simp

lemma demo_outcome:
  "outcome id demo_store (demo_env ok) (demo_msg n) = Publish demo_snap (demo_msg n) [] ''{}'' ok"
proof -
  have "Parse (Value (demo_msg n)) = Inr \<lparr>Raw = ''{}'', ident = \<lparr>CallSign = [], Registration = []\<rparr>, Gufi = []\<rparr>"
    unfolding demo_msg_def by code_simp
  moreover have "\<not> store_Blocks id demo_store [] []"
    unfolding demo_store by code_simp
  ultimately show ?thesis
    by (simp add: outcome_def demo_env_def) (simp add: demo_store demo_msg_def)
qed

lemma demo_read: "readBatch f demo_fetch (m # ms) = (Inr [m], ms)"
  by (simp add: readBatch_def demo_fetch_def fill.simps)

lemma demo_run:
  "\<exists>r. reachable id demo_dirs (New 1) demo_fetch demo_init r \<and>
     log (acc_of r) = [Publish demo_snap (demo_msg 7) [] ''{}'' False,
       Publish demo_snap (demo_msg 8) [] ''{}'' True, Commit [demo_msg 8] (demo_msg 8) True]"
proof -
  let ?a1 = "process id demo_store (demo_env False) (demo_msg 7) (zeroAcc\<lparr>failed := False\<rparr>)"
  let ?r1 = "demo_init\<lparr>consumer := [demo_msg 8], acc_of := ?a1, phase := Top\<rparr>"
  let ?a2 = "process id demo_store (demo_env True) (demo_msg 8) (?a1\<lparr>failed := False\<rparr>)"
  let ?r2 = "?r1\<lparr>consumer := [], acc_of := commit True [demo_msg 8] ?a2, phase := Top\<rparr>"
  have "failed ?a1" "\<not> failed ?a2"
    by (simp_all add: process_failed demo_outcome)
  then have "reachable id demo_dirs (New 1) demo_fetch demo_init ?r1"
    "reachable id demo_dirs (New 1) demo_fetch ?r1 ?r2"
    using run_one_message [of demo_init "New 1" demo_fetch "demo_msg 7" "[demo_msg 8]" ?a1 id "demo_env False"]
      run_one_message [of ?r1 "New 1" demo_fetch "demo_msg 8" "[]" ?a2 id "demo_env True" _ True]
    by (simp_all add: initial_def demo_ready demo_read)
  then have "reachable id demo_dirs (New 1) demo_fetch demo_init ?r2"
    by (simp add: reachable_def)
  moreover have "log (acc_of ?r2) = [Publish demo_snap (demo_msg 7) [] ''{}'' False,
       Publish demo_snap (demo_msg 8) [] ''{}'' True, Commit [demo_msg 8] (demo_msg 8) True]"
    by (simp add: commit_def emit_def process_log demo_outcome zeroAcc_def)
  ultimately show ?thesis by blast
qed

lemma screened_publish:
  assumes "reachable u d f fetch (initial (snd (startup u env d age isDev fs)) t c) r"
    and "Publish snap m key data ok \<in> set (log (acc_of r))"
  shows "\<exists>fm. Parse data = Inr fm \<and> key = Gufi fm \<and> data = Value m \<and>
       \<not> Blocks u (snap_set snap) (CallSign (ident fm)) (Registration (ident fm))"
  using run_inv_startup [OF assms(1)] assms(2)
  by (auto simp: run_inv_def list_all_iff justified_def split: sum.splits dest!: bspec)

lemma gated_publish:
  assumes "reachable u d f fetch (initial (snd (startup u env d age False fs)) t c) r"
    and "Publish snap m key data ok \<in> set (log (acc_of r))"
  shows "\<exists>t' g. Ready t' g = None \<and> \<not> dev g \<and> maxAge g = age \<and>
       (snap = current g \<or> After (effectiveDate snap) (effectiveDate (current g)))"
  using run_inv_startup [OF assms(1)] assms(2)
  by (fastforce simp: run_inv_def list_all_iff gated_def since_gate_def After_def dest!: bspec)

section \<open>Properties of the filter\<close>



text \<open>
  C4: an offset is committed only for a non-empty batch whose last message it is, and only right
  after every message of that batch, in some order, was handled without a failed write: published,
  suppressed or dead-lettered.
\<close>

theorem commit_covers_batch:
  assumes "reachable u d f fetch (initial (snd (startup u env d age isDev fs)) t c) r"
    and "log (acc_of r) = l1 @ Commit batch m ok # l2"
  shows "\<exists>l0 outs. l1 = l0 @ outs \<and> mset (map ev_msg outs) = mset batch \<and>
     (\<forall>e \<in> set outs. handled e \<and> ev_ok e) \<and> batch \<noteq> [] \<and> m = last batch"
  using run_inv_startup [OF assms(1)] assms(2)
  by (fastforce simp: run_inv_def commits_closed_def every_prefix_def wl.closes_batch_def list_all_iff)

theorem commit_covers_batch_witness:
  "\<exists>outs l0. mset (map ev_msg outs) = mset [demo_msg 8] \<and> (\<forall>e \<in> set outs. handled e \<and> ev_ok e) \<and>
     [Publish demo_snap (demo_msg 7) [] ''{}'' False, Publish demo_snap (demo_msg 8) [] ''{}'' True] = l0 @ outs"
proof -
  obtain r :: "kmsg list run" where r: "reachable id demo_dirs (New 1) demo_fetch demo_init r"
    "log (acc_of r) = [Publish demo_snap (demo_msg 7) [] ''{}'' False,
       Publish demo_snap (demo_msg 8) [] ''{}'' True] @ Commit [demo_msg 8] (demo_msg 8) True # []"
    using demo_run by fastforce
  show ?thesis
    using commit_covers_batch [OF r(1) [unfolded demo_store_def] r(2)] by blast
qed



text \<open>
  C25: for a fixed block list and fixed acknowledgements, the workers' order does not matter: any
  two orders of handling a batch end with the same counters, the same failure flag and the same
  writes.
\<close>

theorem batch_order_irrelevant:
  fixes u :: "string \<Rightarrow> string" and s :: store and env :: "kmsg \<Rightarrow> call_env" and a0 :: acc
  assumes "mset ms = mset ms'"
  defines "a \<equiv> fold (\<lambda>m. process u s (env m) m) ms a0"
    and "a' \<equiv> fold (\<lambda>m. process u s (env m) m) ms' a0"
  shows "stats a = stats a' \<and> prom a = prom a' \<and> failed a = failed a' \<and> mset (log a) = mset (log a')"
  using ch.view_any_order [OF assms(1), of u s env a0] by (simp add: acc_view_def a_def a'_def)

theorem batch_order_irrelevant_witness:
  "stats (fold (\<lambda>m. process id demo_store (demo_env True) m) [demo_msg 7, demo_msg 8] zeroAcc)
     = stats (fold (\<lambda>m. process id demo_store (demo_env True) m) [demo_msg 8, demo_msg 7] zeroAcc)"
  using batch_order_irrelevant [of "[demo_msg 7, demo_msg 8]" "[demo_msg 8, demo_msg 7]" id demo_store
      "\<lambda>_. demo_env True" zeroAcc] by (simp add: add_mset_commute)

text \<open>
  C27: reading a batch returns at least one and at most \<^verbatim>\<open>batchSize\<close> messages, and from a consumer
  that delivers in order it takes exactly the next pending ones: none is skipped or taken twice.
\<close>

theorem readBatch_window:
  assumes "readBatch (New w) fetch c = (Inr batch, c')" and "in_order fetch pending"
  shows "pending c = batch @ pending c' \<and> batch \<noteq> [] \<and> length batch \<le> 100"
  using readBatch_Inr(1) [OF assms(1)] readBatch_Inr(2) [OF assms]
  by (simp add: New_def defaultBatchSize_def)

theorem readBatch_window_witness:
  "[demo_msg 7, demo_msg 8] = [demo_msg 7] @ [demo_msg 8] \<and> [demo_msg 7] \<noteq> [] \<and> length [demo_msg 7] \<le> 100"
proof -
  have "in_order demo_fetch (\<lambda>c. c)"
    by (auto simp: in_order_def demo_fetch_def split: ctx.split list.split)
  from readBatch_window [OF demo_read [of "New 4" "demo_msg 7" "[demo_msg 8]"] this] show ?thesis .
qed



text \<open>
  C28: a batch whose publish failed is not reprocessed by the running filter, and its messages can
  be committed past: there is a run in which message 7 is never published, and message 8, read in
  the next batch, is published and committed.
\<close>

theorem failed_batch_committed_past:
  "\<exists>r. reachable id demo_dirs (New 1) demo_fetch demo_init r \<and>
     Commit [demo_msg 8] (demo_msg 8) True \<in> set (log (acc_of r)) \<and>
     filter (\<lambda>e. ev_msg e = demo_msg 7) (log (acc_of r)) \<noteq> [] \<and>
     filter (\<lambda>e. ev_msg e = demo_msg 7 \<and> ev_ok e) (log (acc_of r)) = [] \<and>
     Offset (demo_msg 7) < Offset (demo_msg 8)"
proof -
  have "demo_msg 7 \<noteq> demo_msg 8" "Offset (demo_msg 7) < Offset (demo_msg 8)"
    by (simp_all add: demo_msg_def)
  then show ?thesis
    using demo_run by (elim exE conjE, intro exI conjI) auto
qed

end
