(* ===== verification/Go_Float.thy ===== *)
theory Go_Float
  imports Go_Strings
begin

text \<open>
  The floating-point operations the writers use, as a parameter: a record over the type of
  \<^verbatim>\<open>float64\<close> values. Nothing is assumed of them. Also the contract of the loop that picks the
  latest usable position of a flight, which both writers have.
\<close>

record 'f float64 =
  ParseFloat :: "string \<Rightarrow> 'f option"
  fconst :: "int \<Rightarrow> 'f"
  fPi :: 'f
  fAtan2 :: "'f \<Rightarrow> 'f \<Rightarrow> 'f"
  fHypot :: "'f \<Rightarrow> 'f \<Rightarrow> 'f"
  fRound :: "'f \<Rightarrow> 'f"
  fadd :: "'f \<Rightarrow> 'f \<Rightarrow> 'f"
  fmul :: "'f \<Rightarrow> 'f \<Rightarrow> 'f"
  fdiv :: "'f \<Rightarrow> 'f \<Rightarrow> 'f"
  feq :: "'f \<Rightarrow> 'f \<Rightarrow> bool"
  flt :: "'f \<Rightarrow> 'f \<Rightarrow> bool"

text \<open>An instance to evaluate the model on: integers written in decimal.\<close>

definition int_floats :: "int float64" where
  "int_floats = \<lparr>ParseFloat = (\<lambda>s. if s \<noteq> [] \<and> list_all is_digit s then Some (read_nat s) else None),
     fconst = (\<lambda>n. n), fPi = 3, fAtan2 = (\<lambda>x y. x - y), fHypot = (\<lambda>x y. abs x + abs y), fRound = (\<lambda>x. x),
     fadd = (+), fmul = (*), fdiv = (div), feq = (=), flt = (<)\<rparr>"

section \<open>The latest position\<close>

text \<open>The last of the usable elements with the greatest time.\<close>

definition latest_in :: "('p \<Rightarrow> bool) \<Rightarrow> ('p \<Rightarrow> string) \<Rightarrow> 'p list \<Rightarrow> 'p \<Rightarrow> bool" where
  "latest_in usable ptime ps p \<longleftrightarrow> (\<exists>as bs. ps = as @ p # bs \<and> usable p \<and>
     (\<forall>q \<in> set as. usable q \<longrightarrow> ptime q \<le> ptime p) \<and> (\<forall>q \<in> set bs. usable q \<longrightarrow> ptime q < ptime p))"

locale latest_position =
  fixes step :: "'p \<Rightarrow> 'b \<Rightarrow> 'b"
    and ok :: "'b \<Rightarrow> bool"
    and btime :: "'b \<Rightarrow> string"
    and usable :: "'p \<Rightarrow> bool"
    and ptime :: "'p \<Rightarrow> string"
    and made :: "'p \<Rightarrow> 'b"
  assumes step_skip: "\<not> usable p \<Longrightarrow> step p b = b"
    and step_old: "usable p \<Longrightarrow> ok b \<Longrightarrow> ptime p < btime b \<Longrightarrow> step p b = b"
    and step_take: "usable p \<Longrightarrow> \<not> (ok b \<and> ptime p < btime b) \<Longrightarrow> step p b = made p"
    and ok_made: "usable p \<Longrightarrow> ok (made p) \<and> btime (made p) = ptime p"
begin

lemma latest_in_snoc:
  "latest_in usable ptime ps p \<Longrightarrow> (usable q \<Longrightarrow> ptime q < ptime p) \<Longrightarrow> latest_in usable ptime (ps @ [q]) p"
  unfolding latest_in_def by force

lemma latest_in_max: "latest_in usable ptime ps p \<Longrightarrow> q \<in> set ps \<Longrightarrow> usable q \<Longrightarrow> ptime q \<le> ptime p"
  unfolding latest_in_def by (auto dest!: bspec intro: order.strict_implies_order)

lemma fold_latest:
  assumes "\<not> ok b0"
  shows "if \<exists>p \<in> set ps. usable p then \<exists>p. latest_in usable ptime ps p \<and> fold step ps b0 = made p
         else fold step ps b0 = b0"
proof (induction ps rule: rev_induct)
  case (snoc q ps)
  show ?case
  proof (cases "usable q")
    case False
    with snoc show ?thesis
      by (auto simp: step_skip intro: latest_in_snoc split: if_splits)
  next
    case u: True
    show ?thesis
    proof (cases "(\<exists>p \<in> set ps. usable p) \<and> ptime q < btime (fold step ps b0)")
      case True
      then obtain p where p: "latest_in usable ptime ps p" "fold step ps b0 = made p" "ptime q < btime (made p)"
        using snoc by auto
      have "usable p" using p(1) by (auto simp: latest_in_def)
      then have "latest_in usable ptime (ps @ [q]) p" "fold step (ps @ [q]) b0 = made p"
        using p ok_made u by (auto intro: latest_in_snoc simp: step_old)
      then show ?thesis using u by auto
    next
      case False
      have take: "fold step (ps @ [q]) b0 = made q"
        using False u snoc assms ok_made by (auto simp: step_take split: if_splits)
      have "\<forall>p \<in> set ps. usable p \<longrightarrow> ptime p \<le> ptime q"
      proof (cases "\<exists>p \<in> set ps. usable p")
        case True
        then obtain p where p: "latest_in usable ptime ps p" "fold step ps b0 = made p"
          using snoc by auto
        then have "\<not> ptime q < ptime p"
          using False True ok_made by (auto simp: latest_in_def)
        then show ?thesis
          using latest_in_max [OF p(1)] by (auto simp: not_less intro: order.trans)
      qed blast
      then have "latest_in usable ptime (ps @ [q]) q"
        using u unfolding latest_in_def by (intro exI [of _ ps] exI [of _ "[]"]) auto
      then show ?thesis using u take by auto
    qed
  qed
qed simp

end

end
