(* ===== verification/Cache_Flight.thy ===== *)
theory Cache_Flight
  imports Kafka_Msg Go_Float Filter_Flight
begin

text \<open>
  cache-writer/internal/flight/flight.go: the fields of a flight message the cache writer keeps,
  and its latest usable position.
\<close>

section \<open>Data\<close>

record 'f cw_Position =
  cp_Lat :: 'f
  cp_Lon :: 'f
  cp_AltValue :: string
  cp_AltUOM :: string
  cp_PositionTime :: string
  cp_Heading :: 'f
  cp_SpeedKt :: 'f
  cp_HasHeading :: bool

record 'f cw_Flight =
  cw_Gufi :: string
  cw_CallSign :: string
  cw_Registration :: string
  cw_Status :: string
  cw_Timestamp :: string
  cw_position :: "'f cw_Position"
  cw_HasPosition :: bool

definition cw_positionType :: gty where
  "cw_positionType = TStruct
     [(''positionTime'', TStr),
      (''altitude'', TStruct [(''value'', TStr), (''uom'', TStr)]),
      (''location'', TStruct [(''srsName'', TStr), (''pos'', TStr)]),
      (''trackVelocity'', TStruct [(''x'', TStruct [(''value'', TStr)]), (''y'', TStruct [(''value'', TStr)])])]"

definition cw_element :: gty where
  "cw_element = TStruct [(''flight'', TStruct
     [(''timestamp'', TStr),
      (''flightIdentification'', TStruct [(''aircraftIdentification'', TStr)]),
      (''flightStatus'', TStruct [(''fdpsFlightStatus'', TStr)]),
      (''gufi'', TStruct [(''code'', TStr)]),
      (''aircraftDescription'', TStruct [(''registration'', TStr)]),
      (''enRoute'', TStruct [(''positions'', TSlice cw_positionType)])])]"

section \<open>Operations\<close>

definition cw_parsePos :: "'f float64 \<Rightarrow> string \<Rightarrow> ('f \<times> 'f) option" where
  "cw_parsePos F pos =
     (let fields = Fields pos
      in if length fields < 2 then None
         else (case ParseFloat F (fields ! 0) of
                 None \<Rightarrow> None
               | Some lat \<Rightarrow> (case ParseFloat F (fields ! 1) of None \<Rightarrow> None | Some lon \<Rightarrow> Some (lat, lon))))"

definition cw_velocity :: "'f float64 \<Rightarrow> string \<Rightarrow> string \<Rightarrow> ('f \<times> 'f) option" where
  "cw_velocity F xs ys =
     (case ParseFloat F (TrimSpace xs) of
        None \<Rightarrow> None
      | Some x \<Rightarrow> (case ParseFloat F (TrimSpace ys) of
          None \<Rightarrow> None
        | Some y \<Rightarrow>
            if feq F x (fconst F 0) \<and> feq F y (fconst F 0) then None
            else (let h0 = fdiv F (fmul F (fAtan2 F x y) (fconst F 180)) (fPi F);
                      h = (if flt F h0 (fconst F 0) then fadd F h0 (fconst F 360) else h0)
                  in Some (fdiv F (fRound F (fmul F h (fconst F 10))) (fconst F 10),
                           fdiv F (fRound F (fmul F (fHypot F x y) (fconst F 10))) (fconst F 10)))))"

record 'f cw_best =
  cb_time :: string
  cb_lat :: 'f
  cb_lon :: 'f
  cb_alt :: string
  cb_uom :: string
  cb_vx :: string
  cb_vy :: string
  cb_ok :: bool

definition cw_no_best :: "'f float64 \<Rightarrow> 'f cw_best" where
  "cw_no_best F = \<lparr>cb_time = [], cb_lat = fconst F 0, cb_lon = fconst F 0, cb_alt = [], cb_uom = [],
     cb_vx = [], cb_vy = [], cb_ok = False\<rparr>"

definition cw_best_step :: "'f float64 \<Rightarrow> gval \<Rightarrow> 'f cw_best \<Rightarrow> 'f cw_best" where
  "cw_best_step F p best =
     (case cw_parsePos F (gstr p [''location'', ''pos'']) of
        None \<Rightarrow> best
      | Some (lat, lon) \<Rightarrow>
          if cb_ok best \<and> gstr p [''positionTime''] < cb_time best then best
          else \<lparr>cb_time = gstr p [''positionTime''], cb_lat = lat, cb_lon = lon,
                cb_alt = gstr p [''altitude'', ''value''], cb_uom = gstr p [''altitude'', ''uom''],
                cb_vx = gstr p [''trackVelocity'', ''x'', ''value''],
                cb_vy = gstr p [''trackVelocity'', ''y'', ''value''], cb_ok = True\<rparr>)"

definition cw_best_Position :: "'f float64 \<Rightarrow> 'f cw_best \<Rightarrow> 'f cw_Position" where
  "cw_best_Position F best =
     (let pos = \<lparr>cp_Lat = cb_lat best, cp_Lon = cb_lon best, cp_AltValue = cb_alt best, cp_AltUOM = cb_uom best,
                 cp_PositionTime = cb_time best, cp_Heading = fconst F 0, cp_SpeedKt = fconst F 0, cp_HasHeading = False\<rparr>
      in case cw_velocity F (cb_vx best) (cb_vy best) of
           None \<Rightarrow> pos
         | Some (hdg, spd) \<Rightarrow> pos\<lparr>cp_Heading := hdg, cp_SpeedKt := spd, cp_HasHeading := True\<rparr>)"

definition cw_zero_Position :: "'f float64 \<Rightarrow> 'f cw_Position" where
  "cw_zero_Position F = \<lparr>cp_Lat = fconst F 0, cp_Lon = fconst F 0, cp_AltValue = [], cp_AltUOM = [],
     cp_PositionTime = [], cp_Heading = fconst F 0, cp_SpeedKt = fconst F 0, cp_HasHeading = False\<rparr>"

definition cw_flight_of :: "'f float64 \<Rightarrow> gval \<Rightarrow> 'f cw_Flight" where
  "cw_flight_of F e =
     (let fl = gpath e [''flight''];
          best = fold (cw_best_step F) (glist fl [''enRoute'', ''positions'']) (cw_no_best F)
      in \<lparr>cw_Gufi = gstr fl [''gufi'', ''code''],
          cw_CallSign = gstr fl [''flightIdentification'', ''aircraftIdentification''],
          cw_Registration = gstr fl [''aircraftDescription'', ''registration''],
          cw_Status = gstr fl [''flightStatus'', ''fdpsFlightStatus''],
          cw_Timestamp = gstr fl [''timestamp''],
          cw_position = (if cb_ok best then cw_best_Position F best else cw_zero_Position F),
          cw_HasPosition = cb_ok best\<rparr>)"

definition cw_Parse :: "'f float64 \<Rightarrow> bytes \<Rightarrow> unmarshal_error + 'f cw_Flight" where
  "cw_Parse F payload =
     (case Unmarshal cw_element payload of Inl e \<Rightarrow> Inl e | Inr e \<Rightarrow> Inr (cw_flight_of F e))"

section \<open>The position chosen, and the identity\<close>

definition cw_usable :: "'f float64 \<Rightarrow> gval \<Rightarrow> bool" where
  "cw_usable F p \<longleftrightarrow> cw_parsePos F (gstr p [''location'', ''pos'']) \<noteq> None"

interpretation cwpos: latest_position "cw_best_step F" cb_ok cb_time "cw_usable F"
    "\<lambda>p. gstr p [''positionTime'']" "\<lambda>p. cw_best_step F p (cw_no_best F)" for F
  by unfold_locales (auto simp: cw_best_step_def cw_usable_def cw_no_best_def split: option.splits prod.splits)

lemma cw_flight_position:
  defines "ps e \<equiv> glist (gpath e [''flight'']) [''enRoute'', ''positions'']"
  shows "cw_HasPosition (cw_flight_of F e) \<longleftrightarrow> (\<exists>p \<in> set (ps e). cw_usable F p)"
    and "cw_HasPosition (cw_flight_of F e) \<Longrightarrow>
      \<exists>p. latest_in (cw_usable F) (\<lambda>p. gstr p [''positionTime'']) (ps e) p \<and>
        cw_position (cw_flight_of F e) = cw_best_Position F (cw_best_step F p (cw_no_best F))"
proof -
  let ?b = "fold (cw_best_step F) (ps e) (cw_no_best F)"
  have L: "if \<exists>p \<in> set (ps e). cw_usable F p
      then \<exists>p. latest_in (cw_usable F) (\<lambda>p. gstr p [''positionTime'']) (ps e) p \<and>
        ?b = cw_best_step F p (cw_no_best F)
      else ?b = cw_no_best F"
    using cwpos.fold_latest [of "cw_no_best F" "ps e" F] by (simp add: cw_no_best_def)
  have ok: "cb_ok ?b \<longleftrightarrow> (\<exists>p \<in> set (ps e). cw_usable F p)"
    using L cwpos.ok_made [of F] by (auto simp: cw_no_best_def latest_in_def split: if_splits)
  then show "cw_HasPosition (cw_flight_of F e) \<longleftrightarrow> (\<exists>p \<in> set (ps e). cw_usable F p)"
    by (simp add: cw_flight_of_def Let_def ps_def)
  show "\<exists>p. latest_in (cw_usable F) (\<lambda>p. gstr p [''positionTime'']) (ps e) p \<and>
        cw_position (cw_flight_of F e) = cw_best_Position F (cw_best_step F p (cw_no_best F))"
    if "cw_HasPosition (cw_flight_of F e)"
  proof -
    have "cb_ok ?b" using that by (simp add: cw_flight_of_def Let_def ps_def)
    then show ?thesis
      using L ok by (auto simp: cw_flight_of_def Let_def ps_def)
  qed
qed

lemma narrows_cw: "narrows element cw_element"
  by code_simp

lemma cw_Parse_agrees:
  assumes "cw_Parse F p = Inr f"
  shows "\<exists>m. Parse p = Inr m \<and> CallSign (ident m) = cw_CallSign f \<and>
     Registration (ident m) = cw_Registration f \<and> Gufi m = cw_Gufi f"
proof -
  obtain e where e: "Unmarshal cw_element p = Inr e" "f = cw_flight_of F e"
    using assms by (auto simp: cw_Parse_def split: sum.splits)
  show ?thesis
    using Parse_agrees [OF narrows_cw e(1)] e(2) by (simp add: cw_flight_of_def Let_def gstr_def gpath_def)
qed

end
