(* ===== verification/Cache_Writer.thy ===== *)
theory Cache_Writer
  imports Cache_Flight
begin

text \<open>
  cache-writer/internal/store/redis.go and cache-writer/internal/pipeline/pipeline.go: the live
  view of active flights in Redis. Redis is a map from keys to hashes with an expiry; the commands
  used are \<^verbatim>\<open>HSET\<close>, \<^verbatim>\<open>EXPIRE\<close> and \<^verbatim>\<open>DEL\<close>. A field keeps the Go value handed to the client.
\<close>

section \<open>Redis\<close>

datatype 'f rval = RStr string | RFloat 'f | RTime gotime

record 'f rhash =
  rfields :: "string \<rightharpoonup> 'f rval"
  expires :: "gotime option"

type_synonym 'f rdb = "string \<rightharpoonup> 'f rhash"

text \<open>The hash under a key at a time: an expired key is gone.\<close>

definition lookup_key :: "gotime \<Rightarrow> 'f rdb \<Rightarrow> string \<Rightarrow> 'f rhash option" where
  "lookup_key now d k =
     (case d k of
        None \<Rightarrow> None
      | Some h \<Rightarrow> (case expires h of
          None \<Rightarrow> Some h
        | Some e \<Rightarrow> if e \<le> now then None else Some h))"

definition HSet :: "gotime \<Rightarrow> string \<Rightarrow> (string \<times> 'f rval) list \<Rightarrow> 'f rdb \<Rightarrow> 'f rdb" where
  "HSet now k fs d =
     (let h = (case lookup_key now d k of Some h \<Rightarrow> h | None \<Rightarrow> \<lparr>rfields = Map.empty, expires = None\<rparr>)
      in d(k \<mapsto> h\<lparr>rfields := rfields h ++ map_of fs\<rparr>))"

text \<open>The client sends whole seconds, at least one for a positive duration; a time that is not
  positive deletes the key.\<close>

definition formatSec :: "duration \<Rightarrow> int" where
  "formatSec d = (if 0 < d \<and> d < second then 1 else if d < 0 then - ((- d) div second) else d div second)"

definition Expire :: "gotime \<Rightarrow> string \<Rightarrow> duration \<Rightarrow> 'f rdb \<Rightarrow> 'f rdb" where
  "Expire now k ttl d =
     (case lookup_key now d k of
        None \<Rightarrow> d(k := None)
      | Some h \<Rightarrow> if formatSec ttl \<le> 0 then d(k := None)
                  else d(k \<mapsto> h\<lparr>expires := Some (now + formatSec ttl * second)\<rparr>))"

definition Del :: "string \<Rightarrow> 'f rdb \<Rightarrow> 'f rdb" where
  "Del k d = d(k := None)"

section \<open>The store\<close>

record cw_Store =
  keyPrefix :: string
  ttl :: duration

text \<open>A command acknowledged, applied with its answer lost, or not applied.\<close>

datatype redis_result = RAcked | RLost | RRefused

definition cw_fields :: "gotime \<Rightarrow> 'f cw_Flight \<Rightarrow> (string \<times> 'f rval) list" where
  "cw_fields now f =
     (let p = cw_position f
      in [(''gufi'', RStr (cw_Gufi f)), (''callSign'', RStr (cw_CallSign f)),
          (''registration'', RStr (cw_Registration f)), (''status'', RStr (cw_Status f)),
          (''lat'', RFloat (cp_Lat p)), (''lon'', RFloat (cp_Lon p)),
          (''alt'', RStr (cp_AltValue p)), (''altUom'', RStr (cp_AltUOM p)),
          (''positionTime'', RStr (cp_PositionTime p)), (''timestamp'', RStr (cw_Timestamp f)),
          (''updatedAt'', RTime now)]
         @ (if cp_HasHeading p then [(''heading'', RFloat (cp_Heading p)), (''speedKt'', RFloat (cp_SpeedKt p))]
            else []))"

definition UpsertFlight :: "cw_Store \<Rightarrow> gotime \<Rightarrow> redis_result \<Rightarrow> 'f cw_Flight \<Rightarrow> 'f rdb \<Rightarrow> bool \<times> 'f rdb" where
  "UpsertFlight s now res f d =
     (let key = keyPrefix s @ cw_Gufi f;
          d' = Expire now key (ttl s) (HSet now key (cw_fields now f) d)
      in (res = RAcked, if res = RRefused then d else d'))"

definition DeleteFlight :: "cw_Store \<Rightarrow> redis_result \<Rightarrow> string \<Rightarrow> 'f rdb \<Rightarrow> bool \<times> 'f rdb" where
  "DeleteFlight s res gufi d = (res = RAcked, if res = RRefused then d else Del (keyPrefix s @ gufi) d)"

section \<open>The pipeline\<close>

record cw_Stats =
  csMessages :: int64
  csBytesRead :: int64
  csParseErrors :: int64
  csNoPosition :: int64
  csStored :: int64
  csRemoved :: int64

record cw_Prom =
  cpMessages :: nat
  cpStored :: nat
  cpRemoved :: nat
  cpNoPosition :: nat
  cpParseErrors :: nat
  cpWriteErrors :: nat
  cpDLQPublished :: nat

datatype cw_event =
    CwDead kmsg "unmarshal_error Envelope option" bool
  | CwDelete kmsg string bool
  | CwUpsert kmsg string bool
  | CwNothing kmsg
  | CwCommit kmsg bool

record 'f cw_state =
  cw_stats :: cw_Stats
  cw_prom :: cw_Prom
  cw_redis :: "'f rdb"
  cw_log :: "cw_event list"

definition cw_zero :: "'f rdb \<Rightarrow> 'f cw_state" where
  "cw_zero d = \<lparr>
     cw_stats = \<lparr>csMessages = 0, csBytesRead = 0, csParseErrors = 0, csNoPosition = 0, csStored = 0, csRemoved = 0\<rparr>,
     cw_prom = \<lparr>cpMessages = 0, cpStored = 0, cpRemoved = 0, cpNoPosition = 0, cpParseErrors = 0, cpWriteErrors = 0,
       cpDLQPublished = 0\<rparr>,
     cw_redis = d, cw_log = []\<rparr>"

text \<open>What the environment decides while one message is processed.\<close>

record cw_env =
  cw_now :: gotime
  cw_dlq_ok :: bool
  cw_redis_res :: redis_result
  cw_commit_ok :: bool

definition statusActive :: string where "statusActive = ''ACTIVE''"

definition cw_emit :: "cw_event \<Rightarrow> 'f cw_state \<Rightarrow> 'f cw_state" where
  "cw_emit e s = s\<lparr>cw_log := cw_log s @ [e]\<rparr>"

definition cw_commit :: "cw_env \<Rightarrow> kmsg \<Rightarrow> 'f cw_state \<Rightarrow> 'f cw_state" where
  "cw_commit env msg s = cw_emit (CwCommit msg (cw_commit_ok env)) s"

definition cw_count :: "kmsg \<Rightarrow> 'f cw_state \<Rightarrow> 'f cw_state" where
  "cw_count msg s = s\<lparr>
     cw_stats := (cw_stats s)\<lparr>csMessages := csMessages (cw_stats s) + 1,
       csBytesRead := csBytesRead (cw_stats s) + of_nat (length (Value msg))\<rparr>,
     cw_prom := (cw_prom s)\<lparr>cpMessages := cpMessages (cw_prom s) + 1\<rparr>\<rparr>"

definition cw_writeError :: "'f cw_state \<Rightarrow> 'f cw_state" where
  "cw_writeError s = s\<lparr>cw_prom := (cw_prom s)\<lparr>cpWriteErrors := cpWriteErrors (cw_prom s) + 1\<rparr>\<rparr>"

definition cw_process :: "'f float64 \<Rightarrow> cw_Store \<Rightarrow> cw_env \<Rightarrow> kmsg \<Rightarrow> 'f cw_state \<Rightarrow> 'f cw_state" where
  "cw_process F st env msg s0 =
     (let s = cw_count msg s0
      in case cw_Parse F (Value msg) of
           Inl err \<Rightarrow>
             (let s = s\<lparr>cw_stats := (cw_stats s)\<lparr>csParseErrors := csParseErrors (cw_stats s) + 1\<rparr>,
                        cw_prom := (cw_prom s)\<lparr>cpParseErrors := cpParseErrors (cw_prom s) + 1\<rparr>\<rparr>
              in case dlq_Publish (cw_now env) (cw_dlq_ok env) msg ''cache-writer'' ''poison'' err of
                   (Some derr, sent) \<Rightarrow> cw_emit (CwDead msg sent False) s
                 | (None, sent) \<Rightarrow>
                     cw_commit env msg (cw_emit (CwDead msg sent True)
                       (s\<lparr>cw_prom := (cw_prom s)\<lparr>cpDLQPublished := cpDLQPublished (cw_prom s) + 1\<rparr>\<rparr>)))
         | Inr f \<Rightarrow>
             if cw_Status f \<noteq> statusActive then
               (let (ok, d) = DeleteFlight st (cw_redis_res env) (cw_Gufi f) (cw_redis s);
                    s = cw_emit (CwDelete msg (cw_Gufi f) ok) (s\<lparr>cw_redis := d\<rparr>)
                in if \<not> ok then cw_writeError s
                   else cw_commit env msg (s\<lparr>
                     cw_stats := (cw_stats s)\<lparr>csRemoved := csRemoved (cw_stats s) + 1\<rparr>,
                     cw_prom := (cw_prom s)\<lparr>cpRemoved := cpRemoved (cw_prom s) + 1\<rparr>\<rparr>))
             else if \<not> cw_HasPosition f then
               cw_commit env msg (cw_emit (CwNothing msg) (s\<lparr>
                 cw_stats := (cw_stats s)\<lparr>csNoPosition := csNoPosition (cw_stats s) + 1\<rparr>,
                 cw_prom := (cw_prom s)\<lparr>cpNoPosition := cpNoPosition (cw_prom s) + 1\<rparr>\<rparr>))
             else
               (let (ok, d) = UpsertFlight st (cw_now env) (cw_redis_res env) f (cw_redis s);
                    s = cw_emit (CwUpsert msg (cw_Gufi f) ok) (s\<lparr>cw_redis := d\<rparr>)
                in if \<not> ok then cw_writeError s
                   else cw_commit env msg (s\<lparr>
                     cw_stats := (cw_stats s)\<lparr>csStored := csStored (cw_stats s) + 1\<rparr>,
                     cw_prom := (cw_prom s)\<lparr>cpStored := cpStored (cw_prom s) + 1\<rparr>\<rparr>)))"

text \<open>The loop: a fetch that fails ends the run when the context is done and is repeated
  otherwise; a message fetched is processed.\<close>

record ('c, 'f) cw_run =
  cw_consumer :: 'c
  cw_state_of :: "'f cw_state"
  cw_returned :: bool

inductive cw_step :: "'f float64 \<Rightarrow> cw_Store \<Rightarrow> 'c fetcher \<Rightarrow> ('c, 'f) cw_run \<Rightarrow> ('c, 'f) cw_run \<Rightarrow> bool"
  for F st fetch where
  cw_done: "\<lbrakk>\<not> cw_returned r; fetch RunCtx (cw_consumer r) = (Inl err, c')\<rbrakk>
    \<Longrightarrow> cw_step F st fetch r (r\<lparr>cw_consumer := c', cw_returned := True\<rparr>)"
| cw_error: "\<lbrakk>\<not> cw_returned r; fetch RunCtx (cw_consumer r) = (Inl err, c')\<rbrakk>
    \<Longrightarrow> cw_step F st fetch r (r\<lparr>cw_consumer := c'\<rparr>)"
| cw_msg: "\<lbrakk>\<not> cw_returned r; fetch RunCtx (cw_consumer r) = (Inr msg, c')\<rbrakk>
    \<Longrightarrow> cw_step F st fetch r (r\<lparr>cw_consumer := c', cw_state_of := cw_process F st env msg (cw_state_of r)\<rparr>)"

definition cw_reachable :: "'f float64 \<Rightarrow> cw_Store \<Rightarrow> 'c fetcher \<Rightarrow> ('c, 'f) cw_run \<Rightarrow> ('c, 'f) cw_run \<Rightarrow> bool" where
  "cw_reachable F st fetch = (cw_step F st fetch)\<^sup>*\<^sup>*"

definition cw_initial :: "'f rdb \<Rightarrow> 'c \<Rightarrow> ('c, 'f) cw_run" where
  "cw_initial d c = \<lparr>cw_consumer = c, cw_state_of = cw_zero d, cw_returned = False\<rparr>"

section \<open>What the commands do\<close>

lemma map_of_cw_fields [simp]:
  "map_of (cw_fields now f) ''gufi'' = Some (RStr (cw_Gufi f))"
  "map_of (cw_fields now f) ''status'' = Some (RStr (cw_Status f))"
  by (simp_all add: cw_fields_def Let_def)

lemma cw_fields_distinct: "distinct (map fst (cw_fields now f))"
  by (cases "cp_HasHeading (cw_position f)") (simp_all add: cw_fields_def Let_def)

lemma rhash_update: "h\<lparr>rfields := a, expires := b\<rparr> = \<lparr>rfields = a, expires = b\<rparr>"
  by (cases h) simp

lemma lookup_key_upsert:
  assumes "0 < formatSec (ttl s)" "res \<noteq> RRefused"
  shows "snd (UpsertFlight s now res f d) = d(keyPrefix s @ cw_Gufi f \<mapsto>
     \<lparr>rfields = (case lookup_key now d (keyPrefix s @ cw_Gufi f) of Some h \<Rightarrow> rfields h | None \<Rightarrow> Map.empty)
        ++ map_of (cw_fields now f),
      expires = Some (now + formatSec (ttl s) * second)\<rparr>)"
proof -
  let ?k = "keyPrefix s @ cw_Gufi f"
  let ?h = "case lookup_key now d ?k of Some h \<Rightarrow> h | None \<Rightarrow> \<lparr>rfields = Map.empty, expires = None\<rparr>"
  have "lookup_key now (d(?k \<mapsto> ?h\<lparr>rfields := x\<rparr>)) ?k = Some (?h\<lparr>rfields := x\<rparr>)" for x
    by (auto simp: lookup_key_def split: option.splits if_splits)
  then show ?thesis
    using assms by (simp add: UpsertFlight_def HSet_def Expire_def Let_def rhash_update split: option.split)
qed

lemma upsert_frame: "k \<noteq> keyPrefix s @ cw_Gufi f \<Longrightarrow> snd (UpsertFlight s now res f d) k = d k"
  by (simp add: UpsertFlight_def HSet_def Expire_def Let_def split: option.split)

lemma upsert_deletes:
  "formatSec (ttl s) \<le> 0 \<Longrightarrow> res \<noteq> RRefused \<Longrightarrow> snd (UpsertFlight s now res f d) (keyPrefix s @ cw_Gufi f) = None"
  by (simp add: UpsertFlight_def Expire_def Let_def split: option.split)

section \<open>Invariant\<close>

text \<open>Every key of the cache is the prefix and the GUFI of its hash, which is of an active flight
  and has an expiry.\<close>

definition cache_ok :: "cw_Store \<Rightarrow> 'f rdb \<Rightarrow> bool" where
  "cache_ok s d \<longleftrightarrow> (\<forall>k h. d k = Some h \<longrightarrow>
     (\<exists>g. k = keyPrefix s @ g \<and> rfields h ''gufi'' = Some (RStr g)) \<and>
     rfields h ''status'' = Some (RStr statusActive) \<and> expires h \<noteq> None)"

lemma cache_ok_upsert [inv_intros]:
  assumes "cache_ok s d" "cw_Status f = statusActive"
  shows "cache_ok s (snd (UpsertFlight s now res f d))"
proof (cases "res = RRefused")
  case True
  then show ?thesis using assms(1) by (simp add: UpsertFlight_def Let_def)
next
  case False
  show ?thesis
  proof (cases "0 < formatSec (ttl s)")
    case True
    show ?thesis
      unfolding lookup_key_upsert [OF True False]
      using assms by (auto simp: cache_ok_def map_add_Some_iff)
  next
    case no: False
    then have "snd (UpsertFlight s now res f d) = d(keyPrefix s @ cw_Gufi f := None)"
      using upsert_deletes [of s res now f d] upsert_frame [of _ s f now res d] False by (auto simp: fun_eq_iff)
    then show ?thesis
      using assms(1) by (auto simp: cache_ok_def)
  qed
qed

lemma cache_ok_delete [inv_intros]: "cache_ok s d \<Longrightarrow> cache_ok s (snd (DeleteFlight s res g d))"
  by (auto simp: cache_ok_def DeleteFlight_def Del_def)

lemmas cw_defs = cw_process_def cw_count_def cw_commit_def cw_emit_def cw_writeError_def Let_def

lemma cw_process_redis:
  "cw_redis (cw_process F st env msg s) =
     (case cw_Parse F (Value msg) of
        Inl _ \<Rightarrow> cw_redis s
      | Inr f \<Rightarrow>
          if cw_Status f \<noteq> statusActive then snd (DeleteFlight st (cw_redis_res env) (cw_Gufi f) (cw_redis s))
          else if \<not> cw_HasPosition f then cw_redis s
          else snd (UpsertFlight st (cw_now env) (cw_redis_res env) f (cw_redis s)))"
  by (auto simp: cw_defs split: sum.split option.split prod.split)

lemma cache_ok_process [inv_intros]:
  "cache_ok st (cw_redis s) \<Longrightarrow> cache_ok st (cw_redis (cw_process F st env msg s))"
  by (auto simp: cw_process_redis intro: inv_intros split: sum.split)

text \<open>What one message is recorded as, and whether it went well.\<close>

fun cw_ok :: "cw_event \<Rightarrow> bool" where
  "cw_ok (CwDead m sent ok) = ok"
| "cw_ok (CwDelete m g ok) = ok"
| "cw_ok (CwUpsert m g ok) = ok"
| "cw_ok (CwNothing m) = True"
| "cw_ok (CwCommit m ok) = ok"

fun cw_msg_of :: "cw_event \<Rightarrow> kmsg" where
  "cw_msg_of (CwDead m sent ok) = m"
| "cw_msg_of (CwDelete m g ok) = m"
| "cw_msg_of (CwUpsert m g ok) = m"
| "cw_msg_of (CwNothing m) = m"
| "cw_msg_of (CwCommit m ok) = m"

fun is_commit :: "cw_event \<Rightarrow> bool" where
  "is_commit (CwCommit m ok) = True"
| "is_commit _ = False"

definition cw_outcome :: "'f float64 \<Rightarrow> cw_env \<Rightarrow> kmsg \<Rightarrow> cw_event" where
  "cw_outcome F env msg =
     (case cw_Parse F (Value msg) of
        Inl err \<Rightarrow> (let r = dlq_Publish (cw_now env) (cw_dlq_ok env) msg ''cache-writer'' ''poison'' err
                    in CwDead msg (snd r) (fst r = None))
      | Inr f \<Rightarrow>
          if cw_Status f \<noteq> statusActive then CwDelete msg (cw_Gufi f) (cw_redis_res env = RAcked)
          else if \<not> cw_HasPosition f then CwNothing msg
          else CwUpsert msg (cw_Gufi f) (cw_redis_res env = RAcked))"

lemma cw_outcome_simps [simp]: "cw_msg_of (cw_outcome F env msg) = msg" "\<not> is_commit (cw_outcome F env msg)"
  by (simp_all add: cw_outcome_def Let_def split: sum.split)

lemma cw_process_log:
  "cw_log (cw_process F st env msg s) = cw_log s @ [cw_outcome F env msg] @
     (if cw_ok (cw_outcome F env msg) then [CwCommit msg (cw_commit_ok env)] else [])"
  by (auto simp: cw_defs cw_outcome_def DeleteFlight_def UpsertFlight_def split: sum.split option.split prod.split)

definition cw_closes :: "cw_event list \<Rightarrow> cw_event \<Rightarrow> bool" where
  "cw_closes l e \<longleftrightarrow> (is_commit e \<longrightarrow>
     (\<exists>l0 e'. l = l0 @ [e'] \<and> cw_msg_of e' = cw_msg_of e \<and> cw_ok e' \<and> \<not> is_commit e'))"

definition cw_balanced :: "'f cw_state \<Rightarrow> bool" where
  "cw_balanced s \<longleftrightarrow>
     cpMessages (cw_prom s) = cpParseErrors (cw_prom s) + cpRemoved (cw_prom s) + cpNoPosition (cw_prom s)
       + cpStored (cw_prom s) + cpWriteErrors (cw_prom s) \<and>
     csMessages (cw_stats s) = of_nat (cpMessages (cw_prom s)) \<and>
     csParseErrors (cw_stats s) = of_nat (cpParseErrors (cw_prom s)) \<and>
     csRemoved (cw_stats s) = of_nat (cpRemoved (cw_prom s)) \<and>
     csNoPosition (cw_stats s) = of_nat (cpNoPosition (cw_prom s)) \<and>
     csStored (cw_stats s) = of_nat (cpStored (cw_prom s))"

lemma cw_balanced_process [inv_intros]: "cw_balanced s \<Longrightarrow> cw_balanced (cw_process F st env msg s)"
  by (auto simp: cw_balanced_def cw_defs split: sum.split option.split prod.split)

definition cw_inv :: "cw_Store \<Rightarrow> 'f cw_state \<Rightarrow> bool" where
  "cw_inv st s \<longleftrightarrow> cache_ok st (cw_redis s) \<and> cw_balanced s \<and> every_prefix cw_closes (cw_log s)"

lemma cw_inv_process [inv_intros]:
  assumes "cw_inv st s"
  shows "cw_inv st (cw_process F st env msg s)"
proof -
  have "every_prefix cw_closes (cw_log (cw_process F st env msg s))"
    using assms
    by (auto simp: cw_process_log cw_inv_def cw_closes_def every_prefix_append every_prefix_Cons)
  then show ?thesis
    using assms by (simp add: cw_inv_def inv_intros)
qed

lemma cw_inv_reachable:
  "cw_reachable F st fetch r r' \<Longrightarrow> cw_inv st (cw_state_of r) \<Longrightarrow> cw_inv st (cw_state_of r')"
  unfolding cw_reachable_def
  by (induction rule: rtranclp_induct) (auto elim!: cw_step.cases intro: cw_inv_process)

lemma cw_inv_initial [inv_intros]: "cache_ok st d \<Longrightarrow> cw_inv st (cw_state_of (cw_initial d c))"
  by (simp add: cw_inv_def cw_initial_def cw_zero_def cw_balanced_def)

section \<open>The live view\<close>

text \<open>The abstract view: the last position report of every active flight.\<close>

definition live_step :: "'f float64 \<Rightarrow> kmsg \<Rightarrow> (string \<rightharpoonup> 'f cw_Flight) \<Rightarrow> (string \<rightharpoonup> 'f cw_Flight)" where
  "live_step F msg V =
     (case cw_Parse F (Value msg) of
        Inl _ \<Rightarrow> V
      | Inr f \<Rightarrow>
          if cw_Status f \<noteq> statusActive then V(cw_Gufi f := None)
          else if cw_HasPosition f then V(cw_Gufi f \<mapsto> f) else V)"

text \<open>A cache shows a view: the same flights, with the fields of their last report.\<close>

definition shows_flight :: "'f rhash option \<Rightarrow> 'f cw_Flight option \<Rightarrow> bool" where
  "shows_flight h v = (case v of
      None \<Rightarrow> h = None
    | Some f \<Rightarrow> (\<exists>h' now. h = Some h' \<and> (\<forall>n x. map_of (cw_fields now f) n = Some x \<longrightarrow> rfields h' n = Some x)))"

definition shows_view :: "cw_Store \<Rightarrow> 'f rdb \<Rightarrow> (string \<rightharpoonup> 'f cw_Flight) \<Rightarrow> bool" where
  "shows_view s d V \<longleftrightarrow> (\<forall>g. shows_flight (d (keyPrefix s @ g)) (V g))"

lemma shows_flight_fields:
  "shows_flight (Some \<lparr>rfields = m ++ map_of (cw_fields now f), expires = e\<rparr>) (Some f)"
  by (auto simp: shows_flight_def map_add_Some_iff)

lemma shows_view_upsert:
  assumes "shows_view s d V" "0 < formatSec (ttl s)" "res \<noteq> RRefused"
  shows "shows_view s (snd (UpsertFlight s now res f d)) (V(cw_Gufi f \<mapsto> f))"
  using assms(1) unfolding shows_view_def lookup_key_upsert [OF assms(2,3)]
  by (simp add: shows_flight_fields)

lemma shows_view_delete:
  assumes "shows_view s d V" "res \<noteq> RRefused"
  shows "shows_view s (snd (DeleteFlight s res g d)) (V(g := None))"
  using assms by (simp add: shows_view_def DeleteFlight_def Del_def) (simp add: shows_flight_def)

lemma shows_view_process:
  assumes "shows_view st (cw_redis s) V" "0 < formatSec (ttl st)" "cw_redis_res env \<noteq> RRefused"
  shows "shows_view st (cw_redis (cw_process F st env msg s)) (live_step F msg V)"
  using shows_view_upsert [OF assms] shows_view_delete [OF assms(1,3)] assms(1)
  by (auto simp: cw_process_redis live_step_def split: sum.split)

lemma shows_view_fold:
  assumes "0 < formatSec (ttl st)" "list_all (\<lambda>(env, m). cw_redis_res env \<noteq> RRefused) ems"
    and "shows_view st (cw_redis s) V"
  shows "shows_view st (cw_redis (fold (\<lambda>(env, m). cw_process F st env m) ems s))
     (fold (\<lambda>(env, m). live_step F m) ems V)"
  using assms(2,3)
proof (induction ems arbitrary: s V)
  case (Cons em ems)
  obtain env m where em: "em = (env, m)" by (cases em)
  have "cw_redis_res env \<noteq> RRefused" using Cons.prems(1) by (simp add: em)
  from shows_view_process [OF Cons.prems(2) assms(1) this]
  show ?case using Cons.IH Cons.prems(1) by (simp add: em)
qed simp

section \<open>Concrete messages\<close>

definition cw_demo_store :: cw_Store where
  "cw_demo_store = \<lparr>keyPrefix = ''flight:'', ttl = 180 * second\<rparr>"

definition cw_demo_env :: "redis_result \<Rightarrow> cw_env" where
  "cw_demo_env r = \<lparr>cw_now = 0, cw_dlq_ok = True, cw_redis_res = r, cw_commit_ok = True\<rparr>"

definition cw_demo_msg :: "int \<Rightarrow> kmsg" where
  "cw_demo_msg n = \<lparr>Topic = ''fixm.filtered'', Partition = 0, Offset = n, Value = ''{}''\<rparr>"

definition cw_demo_flight :: "bool \<Rightarrow> int cw_Flight" where
  "cw_demo_flight vel = \<lparr>cw_Gufi = ''g'', cw_CallSign = ''AAL1'', cw_Registration = [], cw_Status = statusActive,
     cw_Timestamp = [], cw_position =
       (cw_zero_Position int_floats)\<lparr>cp_Heading := 270, cp_SpeedKt := 400, cp_HasHeading := vel\<rparr>,
     cw_HasPosition = True\<rparr>"

section \<open>Properties\<close>



text \<open>
  C20: in every reachable state the cache is well-formed (every key is the prefix and the GUFI of
  its hash, which is of an active flight and expires), every message is counted exactly once, and
  an offset is committed only directly after its message was stored, removed, dead-lettered or
  found to need nothing.
\<close>

theorem cache_invariant:
  assumes "cache_ok st d" "cw_reachable F st fetch (cw_initial d c) r"
  defines "p \<equiv> cw_prom (cw_state_of r)"
  shows "cache_ok st (cw_redis (cw_state_of r)) \<and>
     cpMessages p = cpParseErrors p + cpRemoved p + cpNoPosition p + cpStored p + cpWriteErrors p \<and>
     (\<forall>l1 m ok l2. cw_log (cw_state_of r) = l1 @ CwCommit m ok # l2 \<longrightarrow>
        (\<exists>l0 e. l1 = l0 @ [e] \<and> cw_msg_of e = m \<and> cw_ok e \<and> \<not> is_commit e))"
proof -
  have "cw_inv st (cw_state_of r)"
    by (rule cw_inv_reachable [OF assms(2) cw_inv_initial [OF assms(1)]])
  then show ?thesis
    unfolding cw_inv_def cw_balanced_def p_def every_prefix_def cw_closes_def by fastforce
qed

theorem cache_invariant_witness:
  "cache_ok cw_demo_store (cw_redis (cw_process int_floats cw_demo_store (cw_demo_env RAcked) (cw_demo_msg 1)
     (cw_zero Map.empty)))"
proof -
  let ?fetch = "\<lambda>x c. (Inr (cw_demo_msg 1), c :: unit)"
  let ?r = "cw_initial Map.empty () :: (unit, int) cw_run"
  have "cw_step int_floats cw_demo_store ?fetch ?r (?r\<lparr>cw_consumer := (),
      cw_state_of := cw_process int_floats cw_demo_store (cw_demo_env RAcked) (cw_demo_msg 1) (cw_state_of ?r)\<rparr>)"
    by (rule cw_msg) (simp_all add: cw_initial_def)
  then have "cw_reachable int_floats cw_demo_store ?fetch ?r (?r\<lparr>cw_consumer := (),
      cw_state_of := cw_process int_floats cw_demo_store (cw_demo_env RAcked) (cw_demo_msg 1) (cw_state_of ?r)\<rparr>)"
    unfolding cw_reachable_def by (rule r_into_rtranclp)
  moreover have "cache_ok cw_demo_store Map.empty" by (simp add: cache_ok_def)
  ultimately show ?thesis
    using cache_invariant [of cw_demo_store Map.empty int_floats ?fetch "()"] by (fastforce simp: cw_initial_def)
qed

text \<open>
  An acknowledged upsert is visible until its time to live is over and not after it, with all
  the fields of the flight; it touches no other key.
\<close>

theorem upsert_visible_until_expiry:
  assumes "UpsertFlight s now RAcked f d = (ok, d')" "0 < formatSec (ttl s)"
  defines "k \<equiv> keyPrefix s @ cw_Gufi f" and "e \<equiv> now + formatSec (ttl s) * second"
  shows "ok \<and> (t < e \<longrightarrow> (\<exists>h. lookup_key t d' k = Some h \<and>
        (\<forall>n v. map_of (cw_fields now f) n = Some v \<longrightarrow> rfields h n = Some v))) \<and>
     (e \<le> t \<longrightarrow> lookup_key t d' k = None) \<and> (\<forall>k'. k' \<noteq> k \<longrightarrow> d' k' = d k')"
proof -
  have d': "d' = snd (UpsertFlight s now RAcked f d)" and ok: "ok"
    using assms(1) by (auto simp: UpsertFlight_def Let_def)
  have "d' k = Some \<lparr>rfields = (case lookup_key now d k of Some h \<Rightarrow> rfields h | None \<Rightarrow> Map.empty)
      ++ map_of (cw_fields now f), expires = Some e\<rparr>"
    using lookup_key_upsert [OF assms(2), of RAcked now f d] by (simp add: d' k_def e_def)
  moreover have "\<forall>k'. k' \<noteq> k \<longrightarrow> d' k' = d k'"
    using upsert_frame [of _ s f now RAcked d] by (simp add: d' k_def)
  ultimately show ?thesis
    using ok by (auto simp: lookup_key_def map_add_Some_iff)
qed

theorem upsert_visible_until_expiry_witness:
  "lookup_key (180 * second) (snd (UpsertFlight cw_demo_store 0 RAcked (cw_flight_of int_floats (zero cw_element)) Map.empty))
     (keyPrefix cw_demo_store) = None"
proof -
  let ?f = "cw_flight_of int_floats (zero cw_element)"
  have g: "cw_Gufi ?f = []" by code_simp
  have t: "0 < formatSec (ttl cw_demo_store)" "formatSec (ttl cw_demo_store) = 180" by code_simp+
  have "UpsertFlight cw_demo_store 0 RAcked ?f Map.empty = (True, snd (UpsertFlight cw_demo_store 0 RAcked ?f Map.empty))"
    by (simp add: UpsertFlight_def Let_def)
  from upsert_visible_until_expiry [OF this t(1), of "180 * second"] show ?thesis
    by (simp add: g t)
qed

text \<open>
  A position report without velocity keeps the heading and speed of the earlier report: they
  are only ever added to the hash, so an upsert without them leaves what was there.
\<close>

theorem stale_heading_kept:
  assumes "0 < formatSec (ttl s)" "lookup_key now d (keyPrefix s @ cw_Gufi f) = Some h"
    and "\<not> cp_HasHeading (cw_position f)"
  shows "\<exists>h'. snd (UpsertFlight s now RAcked f d) (keyPrefix s @ cw_Gufi f) = Some h' \<and>
     rfields h' ''heading'' = rfields h ''heading'' \<and> rfields h' ''speedKt'' = rfields h ''speedKt'' \<and>
     rfields h' ''lat'' = Some (RFloat (cp_Lat (cw_position f)))"
proof -
  have "map_of (cw_fields now f) ''heading'' = None" "map_of (cw_fields now f) ''speedKt'' = None"
    "map_of (cw_fields now f) ''lat'' = Some (RFloat (cp_Lat (cw_position f)))"
    using assms(3) by (simp_all add: cw_fields_def Let_def)
  then show ?thesis
    using lookup_key_upsert [OF assms(1), of RAcked now f d] assms(2) by (simp add: map_add_def)
qed

theorem stale_heading_kept_witness:
  "\<exists>h'. snd (UpsertFlight cw_demo_store 60 RAcked (cw_demo_flight False)
       (snd (UpsertFlight cw_demo_store 0 RAcked (cw_demo_flight True) Map.empty))) ''flight:g'' = Some h' \<and>
     rfields h' ''heading'' = Some (RFloat 270)"
proof -
  let ?d = "snd (UpsertFlight cw_demo_store 0 RAcked (cw_demo_flight True) Map.empty)"
  have key: "keyPrefix cw_demo_store @ cw_Gufi (cw_demo_flight b) = ''flight:g''" for b
    by (simp add: cw_demo_store_def cw_demo_flight_def)
  have t: "0 < formatSec (ttl cw_demo_store)" "formatSec (ttl cw_demo_store) = 180" by code_simp+
  have d: "?d ''flight:g'' = Some \<lparr>rfields = Map.empty ++ map_of (cw_fields 0 (cw_demo_flight True)),
      expires = Some (0 + 180 * second)\<rparr>"
    using lookup_key_upsert [OF t(1), of RAcked 0 "cw_demo_flight True" Map.empty] by (simp add: key t(2) lookup_key_def)
  then have l: "lookup_key 60 ?d (keyPrefix cw_demo_store @ cw_Gufi (cw_demo_flight False)) =
      Some \<lparr>rfields = Map.empty ++ map_of (cw_fields 0 (cw_demo_flight True)), expires = Some (0 + 180 * second)\<rparr>"
    unfolding key by (simp add: lookup_key_def second_def)
  have "\<not> cp_HasHeading (cw_position (cw_demo_flight False))"
    "map_of (cw_fields 0 (cw_demo_flight True)) ''heading'' = Some (RFloat 270)"
    by code_simp+
  then show ?thesis
    using stale_heading_kept [OF t(1) l] unfolding key by auto
qed

text \<open>
  A message whose Redis write failed is not retried by the running pipeline and can be
  committed past: the first message is never applied, and the second one, with a higher offset, is
  applied and committed.
\<close>

theorem failed_write_committed_past:
  "cw_log (cw_process int_floats cw_demo_store (cw_demo_env RAcked) (cw_demo_msg 2)
       (cw_process int_floats cw_demo_store (cw_demo_env RRefused) (cw_demo_msg 1) (cw_zero Map.empty)))
   = [CwDelete (cw_demo_msg 1) [] False, CwDelete (cw_demo_msg 2) [] True, CwCommit (cw_demo_msg 2) True]"
  by code_simp

end
