(* ===== verification/Db_Flight.thy ===== *)
theory Db_Flight
  imports Kafka_Msg Go_Float Filter_Flight
begin

text \<open>
  database-writer/internal/flight/flight.go: the fields of a flight message the database writer
  stores, and its latest usable position.
\<close>

section \<open>Data\<close>

record 'f Coord =
  coord_Lat :: 'f
  coord_Lon :: 'f
  coord_OK :: bool

record 'f Position =
  Lat :: 'f
  Lon :: 'f
  Alt :: 'f
  HasAlt :: bool
  Heading :: 'f
  SpeedKt :: 'f
  HasHeading :: bool
  Time :: string

record 'f Flight =
  fl_Gufi :: string
  fl_CallSign :: string
  fl_Registration :: string
  AircraftType :: string
  Origin :: string
  Destination :: string
  Status :: string
  Timestamp :: string
  ActualDepartureTime :: string
  ActualArrivalTime :: string
  OriginCoord :: "'f Coord"
  DestinationCoord :: "'f Coord"
  position :: "'f Position"
  HasPosition :: bool

definition runwayTime :: gty where
  "runwayTime = TStruct [(''runwayTime'', TStruct [(''actual'', TStruct [(''time'', TStr)])])]"

definition aerodrome :: gty where
  "aerodrome = TStruct [(''point'', TStruct [(''location'', TStruct [(''pos'', TStr)])])]"

definition db_position :: gty where
  "db_position = TStruct
     [(''positionTime'', TStr),
      (''altitude'', TStruct [(''value'', TStr), (''uom'', TStr)]),
      (''location'', TStruct [(''pos'', TStr)]),
      (''trackVelocity'', TStruct [(''x'', TStruct [(''value'', TStr)]), (''y'', TStruct [(''value'', TStr)])])]"

definition db_element :: gty where
  "db_element = TStruct [(''flight'', TStruct
     [(''timestamp'', TStr),
      (''flightIdentification'', TStruct [(''aircraftIdentification'', TStr)]),
      (''flightStatus'', TStruct [(''fdpsFlightStatus'', TStr)]),
      (''gufi'', TStruct [(''code'', TStr)]),
      (''aircraftDescription'', TStruct
        [(''registration'', TStr), (''aircraftType'', TStruct [(''icaoModelIdentifier'', TStr)])]),
      (''departure'', TStruct
        [(''departurePoint'', TStr), (''runwayPositionAndTime'', runwayTime), (''departureAerodrome'', aerodrome)]),
      (''arrival'', TStruct
        [(''arrivalPoint'', TStr), (''runwayPositionAndTime'', runwayTime), (''arrivalAerodrome'', aerodrome)]),
      (''enRoute'', TStruct [(''positions'', TSlice db_position)])])]"

section \<open>Operations\<close>

definition parsePos :: "'f float64 \<Rightarrow> string \<Rightarrow> ('f \<times> 'f) option" where
  "parsePos F pos =
     (case Fields pos of
        a # b # _ \<Rightarrow>
          (case ParseFloat F a of
             None \<Rightarrow> None
           | Some lat \<Rightarrow> (case ParseFloat F b of None \<Rightarrow> None | Some lon \<Rightarrow> Some (lat, lon)))
      | _ \<Rightarrow> None)"

definition velocity :: "'f float64 \<Rightarrow> string \<Rightarrow> string \<Rightarrow> ('f \<times> 'f) option" where
  "velocity F xs ys =
     (case ParseFloat F (TrimSpace xs) of
        None \<Rightarrow> None
      | Some x \<Rightarrow> (case ParseFloat F (TrimSpace ys) of
          None \<Rightarrow> None
        | Some y \<Rightarrow>
            if feq F x (fconst F 0) \<and> feq F y (fconst F 0) then None
            else (let h0 = fdiv F (fmul F (fAtan2 F x y) (fconst F 180)) (fPi F);
                      h = (if flt F h0 (fconst F 0) then fadd F h0 (fconst F 360) else h0);
                      tenth = (\<lambda>v. fdiv F (fRound F (fmul F v (fconst F 10))) (fconst F 10))
                  in Some (tenth h, tenth (fHypot F x y)))))"

record 'f best =
  b_time :: string
  b_lat :: 'f
  b_lon :: 'f
  b_alt :: string
  b_vx :: string
  b_vy :: string
  b_ok :: bool

definition no_best :: "'f float64 \<Rightarrow> 'f best" where
  "no_best F = \<lparr>b_time = [], b_lat = fconst F 0, b_lon = fconst F 0, b_alt = [], b_vx = [], b_vy = [],
     b_ok = False\<rparr>"

definition best_step :: "'f float64 \<Rightarrow> gval \<Rightarrow> 'f best \<Rightarrow> 'f best" where
  "best_step F p best =
     (case parsePos F (gstr p [''location'', ''pos'']) of
        None \<Rightarrow> best
      | Some (lat, lon) \<Rightarrow>
          if b_ok best \<and> gstr p [''positionTime''] < b_time best then best
          else \<lparr>b_time = gstr p [''positionTime''], b_lat = lat, b_lon = lon,
                b_alt = gstr p [''altitude'', ''value''],
                b_vx = gstr p [''trackVelocity'', ''x'', ''value''],
                b_vy = gstr p [''trackVelocity'', ''y'', ''value''], b_ok = True\<rparr>)"

definition best_Position :: "'f float64 \<Rightarrow> 'f best \<Rightarrow> 'f Position" where
  "best_Position F best =
     (let z = fconst F 0;
          pos = \<lparr>Lat = b_lat best, Lon = b_lon best, Alt = z, HasAlt = False, Heading = z, SpeedKt = z,
                 HasHeading = False, Time = b_time best\<rparr>;
          pos = (case ParseFloat F (TrimSpace (b_alt best)) of
                   None \<Rightarrow> pos
                 | Some alt \<Rightarrow> pos\<lparr>Alt := alt, HasAlt := True\<rparr>)
      in case velocity F (b_vx best) (b_vy best) of
           None \<Rightarrow> pos
         | Some (hdg, spd) \<Rightarrow> pos\<lparr>Heading := hdg, SpeedKt := spd, HasHeading := True\<rparr>)"

definition zero_Position :: "'f float64 \<Rightarrow> 'f Position" where
  "zero_Position F = (let z = fconst F 0 in
     \<lparr>Lat = z, Lon = z, Alt = z, HasAlt = False, Heading = z, SpeedKt = z, HasHeading = False, Time = []\<rparr>)"

definition Coord_of :: "'f float64 \<Rightarrow> string \<Rightarrow> 'f Coord" where
  "Coord_of F pos = (case parsePos F pos of
      None \<Rightarrow> \<lparr>coord_Lat = fconst F 0, coord_Lon = fconst F 0, coord_OK = False\<rparr>
    | Some (lat, lon) \<Rightarrow> \<lparr>coord_Lat = lat, coord_Lon = lon, coord_OK = True\<rparr>)"

definition flight_of :: "'f float64 \<Rightarrow> gval \<Rightarrow> 'f Flight" where
  "flight_of F e =
     (let fl = gpath e [''flight''];
          best = fold (best_step F) (glist fl [''enRoute'', ''positions'']) (no_best F)
      in \<lparr>fl_Gufi = gstr fl [''gufi'', ''code''],
          fl_CallSign = gstr fl [''flightIdentification'', ''aircraftIdentification''],
          fl_Registration = gstr fl [''aircraftDescription'', ''registration''],
          AircraftType = gstr fl [''aircraftDescription'', ''aircraftType'', ''icaoModelIdentifier''],
          Origin = gstr fl [''departure'', ''departurePoint''],
          Destination = gstr fl [''arrival'', ''arrivalPoint''],
          Status = gstr fl [''flightStatus'', ''fdpsFlightStatus''],
          Timestamp = gstr fl [''timestamp''],
          ActualDepartureTime = gstr fl [''departure'', ''runwayPositionAndTime'', ''runwayTime'', ''actual'', ''time''],
          ActualArrivalTime = gstr fl [''arrival'', ''runwayPositionAndTime'', ''runwayTime'', ''actual'', ''time''],
          OriginCoord = Coord_of F (gstr fl [''departure'', ''departureAerodrome'', ''point'', ''location'', ''pos'']),
          DestinationCoord = Coord_of F (gstr fl [''arrival'', ''arrivalAerodrome'', ''point'', ''location'', ''pos'']),
          position = (if b_ok best then best_Position F best else zero_Position F),
          HasPosition = b_ok best\<rparr>)"

definition db_Parse :: "'f float64 \<Rightarrow> bytes \<Rightarrow> unmarshal_error + 'f Flight" where
  "db_Parse F payload =
     (case Unmarshal db_element payload of Inl e \<Rightarrow> Inl e | Inr e \<Rightarrow> Inr (flight_of F e))"

section \<open>The position chosen\<close>

definition usable_pos :: "'f float64 \<Rightarrow> gval \<Rightarrow> bool" where
  "usable_pos F p \<longleftrightarrow> parsePos F (gstr p [''location'', ''pos'']) \<noteq> None"

interpretation dbpos: latest_position "best_step F" b_ok b_time "usable_pos F"
    "\<lambda>p. gstr p [''positionTime'']" "\<lambda>p. best_step F p (no_best F)" for F
  by unfold_locales (auto simp: best_step_def usable_pos_def no_best_def split: option.splits prod.splits)

lemma flight_position:
  defines "ps e \<equiv> glist (gpath e [''flight'']) [''enRoute'', ''positions'']"
  shows "HasPosition (flight_of F e) \<longleftrightarrow> (\<exists>p \<in> set (ps e). usable_pos F p)"
    and "HasPosition (flight_of F e) \<Longrightarrow>
      \<exists>p. latest_in (usable_pos F) (\<lambda>p. gstr p [''positionTime'']) (ps e) p \<and>
        position (flight_of F e) = best_Position F (best_step F p (no_best F))"
proof -
  let ?b = "fold (best_step F) (ps e) (no_best F)"
  have L: "if \<exists>p \<in> set (ps e). usable_pos F p
      then \<exists>p. latest_in (usable_pos F) (\<lambda>p. gstr p [''positionTime'']) (ps e) p \<and>
        ?b = best_step F p (no_best F)
      else ?b = no_best F"
    using dbpos.fold_latest [of "no_best F" "ps e" F] by (simp add: no_best_def)
  have ok: "b_ok ?b \<longleftrightarrow> (\<exists>p \<in> set (ps e). usable_pos F p)"
    using L dbpos.ok_made [of F] by (auto simp: no_best_def latest_in_def split: if_splits)
  then show "HasPosition (flight_of F e) \<longleftrightarrow> (\<exists>p \<in> set (ps e). usable_pos F p)"
    by (simp add: flight_of_def Let_def ps_def)
  show "\<exists>p. latest_in (usable_pos F) (\<lambda>p. gstr p [''positionTime'']) (ps e) p \<and>
        position (flight_of F e) = best_Position F (best_step F p (no_best F))"
    if "HasPosition (flight_of F e)"
  proof -
    have "b_ok ?b" using that by (simp add: flight_of_def Let_def ps_def)
    then show ?thesis
      using L ok by (auto simp: flight_of_def Let_def ps_def)
  qed
qed

lemma narrows_db: "narrows element db_element"
  by code_simp

text \<open>The database writer reads the identity the filter screened.\<close>

lemma db_Parse_agrees:
  assumes "db_Parse F p = Inr f"
  shows "\<exists>m. Parse p = Inr m \<and> CallSign (ident m) = fl_CallSign f \<and>
     Registration (ident m) = fl_Registration f \<and> Gufi m = fl_Gufi f"
proof -
  obtain e where e: "Unmarshal db_element p = Inr e" "f = flight_of F e"
    using assms by (auto simp: db_Parse_def split: sum.splits)
  show ?thesis
    using Parse_agrees [OF narrows_db e(1)] e(2) by (simp add: flight_of_def Let_def gstr_def gpath_def)
qed

end
