(* ===== verification/Db_Store.thy ===== *)
theory Db_Store
  imports Db_Flight "HOL-Library.AList"
begin

text \<open>
  database-writer/internal/store/postgres.go: the tables (migrate/sql), the three statements as
  functions on them, and the transaction that writes a batch. PostgreSQL's part is what the
  statements say (upsert, \<^verbatim>\<open>COALESCE\<close>, \<^verbatim>\<open>GREATEST\<close>, foreign keys, the range of \<^verbatim>\<open>integer\<close>,
  microsecond timestamps, no zero byte in \<^verbatim>\<open>text\<close>); whether the connection holds is decided by
  the environment.
\<close>

section \<open>Tables\<close>

record 'f airport_row =
  ap_lat :: "'f option"
  ap_lon :: "'f option"

record flight_row =
  call_sign :: "string option"
  registration :: "string option"
  aircraft_type :: "string option"
  origin :: "string option"
  destination :: "string option"
  status :: "string option"
  status_time :: "gotime option"
  actual_departure_time :: "gotime option"
  actual_arrival_time :: "gotime option"
  drop_count :: int
  reactivation_count :: int
  first_seen :: gotime
  last_seen :: gotime

record 'f position_row =
  pr_time :: gotime
  pr_gufi :: string
  pr_lat :: 'f
  pr_lon :: 'f
  pr_alt :: "'f option"
  pr_heading :: "'f option"
  pr_speed_kt :: "'f option"
  pr_status :: "string option"

record 'f db =
  airports :: "string \<rightharpoonup> 'f airport_row"
  flights :: "string \<rightharpoonup> flight_row"
  positions :: "'f position_row list"

datatype db_error = InvalidText | ForeignKey | IntegerRange | ConnFault

section \<open>Statements\<close>

definition coalesce :: "'a option \<Rightarrow> 'a option \<Rightarrow> 'a option" where
  "coalesce a b = (case a of None \<Rightarrow> b | Some _ \<Rightarrow> a)"

definition greatest :: "gotime option \<Rightarrow> gotime option \<Rightarrow> gotime option" where
  "greatest a b = (case (a, b) of (Some x, Some y) \<Rightarrow> Some (max x y) | (None, _) \<Rightarrow> b | (_, None) \<Rightarrow> a)"

text \<open>A \<^verbatim>\<open>timestamptz\<close> holds microseconds.\<close>

definition timestamptz :: "gotime \<Rightarrow> gotime" where
  "timestamptz t = t div 1000 * 1000"

definition text_ok :: "string \<Rightarrow> bool" where
  "text_ok s \<longleftrightarrow> CHR 0x00 \<notin> set s"

definition text_opt_ok :: "string option \<Rightarrow> bool" where
  "text_opt_ok x = (case x of None \<Rightarrow> True | Some s \<Rightarrow> text_ok s)"

definition DROPPED :: string where "DROPPED = ''DROPPED''"
definition ACTIVE :: string where "ACTIVE = ''ACTIVE''"

definition upsertAirport :: "string \<Rightarrow> 'f option \<Rightarrow> 'f option \<Rightarrow> 'f db \<Rightarrow> db_error + 'f db" where
  "upsertAirport code lat lon d =
     (if \<not> text_ok code then Inl InvalidText
      else Inr (d\<lparr>airports := (airports d)(code \<mapsto>
        (case airports d code of
           None \<Rightarrow> \<lparr>ap_lat = lat, ap_lon = lon\<rparr>
         | Some r \<Rightarrow> \<lparr>ap_lat = coalesce (ap_lat r) lat, ap_lon = coalesce (ap_lon r) lon\<rparr>))\<rparr>))"

text \<open>\<^verbatim>\<open>EXCLUDED.status_time >= flights.status_time\<close>; a null makes it not true.\<close>

definition not_older :: "flight_row \<Rightarrow> flight_row \<Rightarrow> bool" where
  "not_older ex r = (case (status_time ex, status_time r) of (Some e, Some t) \<Rightarrow> t \<le> e | _ \<Rightarrow> False)"

definition merge :: "gotime \<Rightarrow> flight_row \<Rightarrow> flight_row \<Rightarrow> flight_row" where
  "merge now r ex = \<lparr>
     call_sign = coalesce (call_sign r) (call_sign ex),
     registration = coalesce (registration r) (registration ex),
     aircraft_type = coalesce (aircraft_type r) (aircraft_type ex),
     origin = coalesce (origin r) (origin ex),
     destination = coalesce (destination r) (destination ex),
     status = (if status_time r = None \<or> not_older ex r then status ex else status r),
     status_time = greatest (status_time r) (status_time ex),
     actual_departure_time = coalesce (actual_departure_time r) (actual_departure_time ex),
     actual_arrival_time = coalesce (actual_arrival_time r) (actual_arrival_time ex),
     drop_count = drop_count r +
       (if not_older ex r \<and> status r \<noteq> Some DROPPED \<and> status ex = Some DROPPED then 1 else 0),
     reactivation_count = reactivation_count r +
       (if not_older ex r \<and> status r = Some DROPPED \<and> status ex = Some ACTIVE then 1 else 0),
     first_seen = first_seen r,
     last_seen = now\<rparr>"

definition int4 :: "int \<Rightarrow> bool" where
  "int4 n \<longleftrightarrow> - (2 ^ 31) \<le> n \<and> n < 2 ^ 31"

definition references :: "'f db \<Rightarrow> string option \<Rightarrow> bool" where
  "references d code = (case code of None \<Rightarrow> True | Some c \<Rightarrow> airports d c \<noteq> None)"

definition row_text_ok :: "flight_row \<Rightarrow> bool" where
  "row_text_ok r \<longleftrightarrow> list_all text_opt_ok
     [call_sign r, registration r, aircraft_type r, origin r, destination r, status r]"

definition upsertFlight :: "gotime \<Rightarrow> string \<Rightarrow> flight_row \<Rightarrow> 'f db \<Rightarrow> db_error + 'f db" where
  "upsertFlight now gufi ex d =
     (if \<not> text_ok gufi \<or> \<not> row_text_ok ex then Inl InvalidText
      else (let row = (case flights d gufi of None \<Rightarrow> ex | Some r \<Rightarrow> merge now r ex)
            in if \<not> int4 (drop_count row) \<or> \<not> int4 (reactivation_count row) then Inl IntegerRange
               else if \<not> references d (origin row) \<or> \<not> references d (destination row) then Inl ForeignKey
               else Inr (d\<lparr>flights := (flights d)(gufi \<mapsto> row)\<rparr>)))"

definition insertPosition :: "'f position_row \<Rightarrow> 'f db \<Rightarrow> db_error + 'f db" where
  "insertPosition p d =
     (if \<not> text_ok (pr_gufi p) \<or> \<not> text_opt_ok (pr_status p) then Inl InvalidText
      else if flights d (pr_gufi p) = None then Inl ForeignKey
      else Inr (d\<lparr>positions := positions d @ [p]\<rparr>))"

section \<open>Parameters of the statements\<close>

definition nz :: "string \<Rightarrow> string option" where
  "nz s = (if TrimSpace s = [] then None else Some s)"

definition nfloat :: "'f \<Rightarrow> bool \<Rightarrow> 'f option" where
  "nfloat v ok = (if \<not> ok then None else Some v)"

definition ntime :: "string \<Rightarrow> gotime option" where
  "ntime s = (case parseRFC3339 s of Some t \<Rightarrow> Some t | None \<Rightarrow> None)"

definition parseTimeOr :: "string \<Rightarrow> gotime \<Rightarrow> gotime" where
  "parseTimeOr s fb = (case parseRFC3339 s of Some t \<Rightarrow> t | None \<Rightarrow> fb)"

text \<open>The Go map of airports, as an association list; its iteration order is the
  environment's.\<close>

definition addAirport :: "(string \<times> 'f Coord) list \<Rightarrow> string \<Rightarrow> 'f Coord \<Rightarrow> (string \<times> 'f Coord) list" where
  "addAirport m code c =
     (if code = [] then m
      else (case map_of m code of
              Some existing \<Rightarrow> if \<not> coord_OK existing \<and> coord_OK c then AList.update code c m else m
            | None \<Rightarrow> AList.update code c m))"

definition collectAirports :: "'f Flight list \<Rightarrow> (string \<times> 'f Coord) list" where
  "collectAirports fs = fold (\<lambda>f m.
     addAirport (addAirport m (Origin f) (OriginCoord f)) (Destination f) (DestinationCoord f)) fs []"

definition flightRow :: "gotime \<Rightarrow> gotime \<Rightarrow> 'f Flight \<Rightarrow> flight_row" where
  "flightRow tx_now now f = \<lparr>
     call_sign = nz (fl_CallSign f), registration = nz (fl_Registration f),
     aircraft_type = nz (AircraftType f), origin = nz (Origin f), destination = nz (Destination f),
     status = nz (Status f), status_time = Some (timestamptz (parseTimeOr (Timestamp f) now)),
     actual_departure_time = map_option timestamptz (ntime (ActualDepartureTime f)),
     actual_arrival_time = map_option timestamptz (ntime (ActualArrivalTime f)),
     drop_count = 0, reactivation_count = 0, first_seen = tx_now, last_seen = tx_now\<rparr>"

definition positionRow :: "gotime \<Rightarrow> 'f Flight \<Rightarrow> 'f position_row" where
  "positionRow now f =
     (let stime = parseTimeOr (Timestamp f) now; p = position f
      in \<lparr>pr_time = timestamptz (parseTimeOr (Time p) stime), pr_gufi = fl_Gufi f,
          pr_lat = Lat p, pr_lon = Lon p, pr_alt = nfloat (Alt p) (HasAlt p),
          pr_heading = nfloat (Heading p) (HasHeading p), pr_speed_kt = nfloat (SpeedKt p) (HasHeading p),
          pr_status = nz (Status f)\<rparr>)"

section \<open>The transaction\<close>

datatype 'f stmt =
    UpsertAirport string "'f option" "'f option"
  | UpsertFlight string flight_row
  | InsertPosition "'f position_row"

datatype commit_result = Acked | LostAck | Refused

text \<open>
  What the environment decides: the connection at \<^verbatim>\<open>Begin\<close>, for each statement and at the
  commit (a commit may take effect and its acknowledgement be lost), the transaction's \<^verbatim>\<open>now()\<close>,
  the wall clock at each of the two loops, and the iteration order of the airport map.
\<close>

record 'f tx_env =
  begin_ok :: bool
  exec_ok :: "nat \<Rightarrow> bool"
  close_ok :: bool
  commit_res :: commit_result
  tx_now :: gotime
  flight_now :: "nat \<Rightarrow> gotime"
  pos_now :: "nat \<Rightarrow> gotime"
  iter :: "(string \<times> 'f Coord) list \<Rightarrow> (string \<times> 'f Coord) list"

definition airportStmts :: "'f tx_env \<Rightarrow> 'f Flight list \<Rightarrow> 'f stmt list" where
  "airportStmts env fs = map (\<lambda>(code, c).
     UpsertAirport code (nfloat (coord_Lat c) (coord_OK c)) (nfloat (coord_Lon c) (coord_OK c)))
     (iter env (collectAirports fs))"

definition flightStmts :: "'f tx_env \<Rightarrow> 'f Flight list \<Rightarrow> 'f stmt list" where
  "flightStmts env fs = map (\<lambda>(i, f). UpsertFlight (fl_Gufi f) (flightRow (tx_now env) (flight_now env i) f))
     (enumerate 0 fs)"

definition positionStmts :: "'f tx_env \<Rightarrow> 'f Flight list \<Rightarrow> 'f stmt list" where
  "positionStmts env fs = map (\<lambda>(i, f). InsertPosition (positionRow (pos_now env i) f))
     (filter (\<lambda>(i, f). HasPosition f) (enumerate 0 fs))"

definition batchStmts :: "'f tx_env \<Rightarrow> 'f Flight list \<Rightarrow> 'f stmt list" where
  "batchStmts env fs = airportStmts env fs @ flightStmts env fs @ positionStmts env fs"

fun exec :: "gotime \<Rightarrow> 'f stmt \<Rightarrow> 'f db \<Rightarrow> db_error + 'f db" where
  "exec now (UpsertAirport code lat lon) d = upsertAirport code lat lon d"
| "exec now (UpsertFlight gufi row) d = upsertFlight now gufi row d"
| "exec now (InsertPosition p) d = insertPosition p d"

fun exec_all :: "gotime \<Rightarrow> (nat \<Rightarrow> bool) \<Rightarrow> nat \<Rightarrow> 'f stmt list \<Rightarrow> 'f db \<Rightarrow> db_error + 'f db" where
  "exec_all now ok i [] d = Inr d"
| "exec_all now ok i (s # ss) d =
     (if \<not> ok i then Inl ConnFault
      else (case exec now s d of Inl e \<Rightarrow> Inl e | Inr d' \<Rightarrow> exec_all now ok (Suc i) ss d'))"

definition RecordBatch :: "'f tx_env \<Rightarrow> 'f Flight list \<Rightarrow> 'f db \<Rightarrow> db_error err \<times> 'f db" where
  "RecordBatch env fs d =
     (if fs = [] then (None, d)
      else if \<not> begin_ok env then (Some ConnFault, d)
      else (case exec_all (tx_now env) (exec_ok env) 0 (batchStmts env fs) d of
              Inl e \<Rightarrow> (Some e, d)
            | Inr d' \<Rightarrow>
                if \<not> close_ok env then (Some ConnFault, d)
                else (case commit_res env of
                        Acked \<Rightarrow> (None, d')
                      | LostAck \<Rightarrow> (Some ConnFault, d')
                      | Refused \<Rightarrow> (Some ConnFault, d))))"

section \<open>What the statements do to each table\<close>

definition track :: "gotime \<Rightarrow> flight_row list \<Rightarrow> flight_row option \<Rightarrow> flight_row option" where
  "track now exs r = fold (\<lambda>ex r. Some (case r of None \<Rightarrow> ex | Some r \<Rightarrow> merge now r ex)) exs r"

lemma track_simps [simp]:
  "track now [] r = r"
  "track now (ex # exs) r = track now exs (Some (case r of None \<Rightarrow> ex | Some r \<Rightarrow> merge now r ex))"
  by (simp_all add: track_def)

fun rows_of :: "string \<Rightarrow> 'f stmt list \<Rightarrow> flight_row list" where
  "rows_of g (UpsertFlight g' ex # ss) = (if g' = g then ex # rows_of g ss else rows_of g ss)"
| "rows_of g (_ # ss) = rows_of g ss"
| "rows_of g [] = []"

fun position_rows :: "'f stmt list \<Rightarrow> 'f position_row list" where
  "position_rows (InsertPosition p # ss) = p # position_rows ss"
| "position_rows (_ # ss) = position_rows ss"
| "position_rows [] = []"

fun codes :: "'f stmt list \<Rightarrow> string set" where
  "codes (UpsertAirport c lat lon # ss) = insert c (codes ss)"
| "codes (_ # ss) = codes ss"
| "codes [] = {}"

fun gufis :: "'f stmt list \<Rightarrow> string set" where
  "gufis (UpsertFlight g ex # ss) = insert g (gufis ss)"
| "gufis (_ # ss) = gufis ss"
| "gufis [] = {}"

lemma stmt_list_append [simp]:
  "rows_of g (xs @ ys) = rows_of g xs @ rows_of g ys"
  "position_rows (xs @ ys) = position_rows xs @ position_rows ys"
  "codes (xs @ ys) = codes xs \<union> codes ys"
  "gufis (xs @ ys) = gufis xs \<union> gufis ys"
proof -
  show "rows_of g (xs @ ys) = rows_of g xs @ rows_of g ys"
    by (induction g xs rule: rows_of.induct) auto
  show "position_rows (xs @ ys) = position_rows xs @ position_rows ys"
    by (induction xs rule: position_rows.induct) auto
  show "codes (xs @ ys) = codes xs \<union> codes ys"
    by (induction xs rule: codes.induct) auto
  show "gufis (xs @ ys) = gufis xs \<union> gufis ys"
    by (induction xs rule: gufis.induct) auto
qed

lemmas exec_defs = upsertAirport_def upsertFlight_def insertPosition_def Let_def

lemma exec_effect:
  assumes "exec now s d = Inr d'"
  shows "flights d' g = track now (rows_of g [s]) (flights d g)"
    and "positions d' = positions d @ position_rows [s]"
    and "dom (airports d') = dom (airports d) \<union> codes [s]"
    and "dom (flights d') = dom (flights d) \<union> gufis [s]"
  using assms by (cases s; auto simp: exec_defs split: if_splits option.splits)+

lemma exec_all_effects:
  assumes "exec_all now ok i ss d = Inr d'"
  shows "(\<forall>g. flights d' g = track now (rows_of g ss) (flights d g)) \<and>
     positions d' = positions d @ position_rows ss \<and> dom (airports d') = dom (airports d) \<union> codes ss"
  using assms
proof (induction ss arbitrary: d i)
  case (Cons s ss)
  from Cons.prems obtain d1 where d1: "exec now s d = Inr d1" "exec_all now ok (Suc i) ss d1 = Inr d'"
    by (auto split: if_splits sum.splits)
  have "rows_of g (s # ss) = rows_of g [s] @ rows_of g ss"
    "position_rows (s # ss) = position_rows [s] @ position_rows ss" "codes (s # ss) = codes [s] \<union> codes ss" for g
    using stmt_list_append(1) [of g "[s]" ss] stmt_list_append(2-4) [of "[s]" ss] by simp_all
  then show ?case
    using Cons.IH [OF d1(2)] exec_effect [OF d1(1)] by (auto simp: track_def)
qed simp

section \<open>Referential integrity\<close>

definition fk_ok :: "'f db \<Rightarrow> bool" where
  "fk_ok d \<longleftrightarrow>
     (\<forall>g r. flights d g = Some r \<longrightarrow> references d (origin r) \<and> references d (destination r)) \<and>
     (\<forall>p \<in> set (positions d). flights d (pr_gufi p) \<noteq> None)"

lemma references_mono:
  "dom (airports d) \<subseteq> dom (airports d') \<Longrightarrow> references d x \<Longrightarrow> references d' x"
  by (auto simp: references_def split: option.splits)

lemma fk_ok_exec [inv_intros]:
  assumes "fk_ok d" "exec now s d = Inr d'"
  shows "fk_ok d'"
proof (cases s)
  case (UpsertAirport c lat lon)
  then have "flights d' = flights d" "positions d' = positions d" "dom (airports d) \<subseteq> dom (airports d')"
    using assms(2) by (auto simp: upsertAirport_def split: if_splits)
  with assms(1) references_mono [of d d'] show ?thesis
    by (simp add: fk_ok_def)
next
  case (UpsertFlight g ex)
  then obtain row where row: "d' = d\<lparr>flights := (flights d)(g \<mapsto> row)\<rparr>"
      "references d (origin row)" "references d (destination row)"
    using assms(2) by (auto simp: upsertFlight_def Let_def split: if_splits)
  moreover have "references d' = references d"
    by (simp add: fun_eq_iff references_def row(1) split: option.split)
  ultimately show ?thesis
    using assms(1) by (simp add: fk_ok_def)
next
  case (InsertPosition p)
  then have p: "d' = d\<lparr>positions := positions d @ [p]\<rparr>" "flights d (pr_gufi p) \<noteq> None"
    using assms(2) by (auto simp: insertPosition_def split: if_splits)
  moreover have "references d' = references d"
    by (simp add: fun_eq_iff references_def p(1) split: option.split)
  ultimately show ?thesis
    using assms(1) by (auto simp: fk_ok_def)
qed

lemma fk_ok_exec_all [inv_intros]: "fk_ok d \<Longrightarrow> exec_all now ok i ss d = Inr d' \<Longrightarrow> fk_ok d'"
  by (induction ss arbitrary: d i) (auto intro: fk_ok_exec split: if_splits sum.splits)

text \<open>A list of statements in which every reference is to something earlier in it, or among the
  airports \<open>A\<close> and flights \<open>G\<close> that exist.\<close>

fun closed :: "string set \<Rightarrow> string set \<Rightarrow> 'f stmt list \<Rightarrow> bool" where
  "closed A G [] = True"
| "closed A G (UpsertAirport c lat lon # ss) = closed (insert c A) G ss"
| "closed A G (UpsertFlight g r # ss) =
     (set_option (origin r) \<subseteq> A \<and> set_option (destination r) \<subseteq> A \<and> closed A (insert g G) ss)"
| "closed A G (InsertPosition p # ss) = (pr_gufi p \<in> G \<and> closed A G ss)"

lemma closed_append: "closed A G (xs @ ys) \<longleftrightarrow> closed A G xs \<and> closed (A \<union> codes xs) (G \<union> gufis xs) ys"
  by (induction A G xs rule: closed.induct) auto

lemma coalesce_references:
  "references d a \<Longrightarrow> references d b \<Longrightarrow> references d (coalesce a b)"
  by (auto simp: coalesce_def split: option.splits)

lemma merge_refs [simp]:
  "origin (merge now r ex) = coalesce (origin r) (origin ex)"
  "destination (merge now r ex) = coalesce (destination r) (destination ex)"
  by (simp_all add: merge_def)

lemma closed_exec_all:
  assumes "closed A G ss" "fk_ok d" "A \<subseteq> dom (airports d)" "G \<subseteq> dom (flights d)"
  shows "exec_all now ok i ss d \<noteq> Inl ForeignKey"
  using assms
proof (induction ss arbitrary: A G d i)
  case (Cons s ss)
  have now_ok: "exec now s d \<noteq> Inl ForeignKey"
  proof (cases s)
    case (UpsertFlight g ex)
    have "references d (origin ex)" "references d (destination ex)"
      using Cons.prems UpsertFlight by (auto simp: references_def split: option.splits)
    then have "references d (origin row) \<and> references d (destination row)"
      if "row = (case flights d g of None \<Rightarrow> ex | Some r \<Rightarrow> merge now r ex)" for row
      using that Cons.prems(2) by (auto simp: fk_ok_def coalesce_references split: option.splits)
    then show ?thesis
      using UpsertFlight by (simp add: exec_defs)
  qed (use Cons.prems in \<open>auto simp: exec_defs split: if_splits\<close>)
  have later: "exec_all now ok (Suc i) ss d' \<noteq> Inl ForeignKey" if "exec now s d = Inr d'" for d'
  proof (rule Cons.IH)
    show "closed (A \<union> codes [s]) (G \<union> gufis [s]) ss"
      using Cons.prems(1) closed_append [of A G "[s]" ss] by simp
    show "fk_ok d'" using Cons.prems(2) that by (rule fk_ok_exec)
    show "A \<union> codes [s] \<subseteq> dom (airports d')" "G \<union> gufis [s] \<subseteq> dom (flights d')"
      using Cons.prems(3,4) exec_effect(3,4) [OF that] by auto
  qed
  show ?case
    using now_ok later by (auto split: sum.split)
qed simp

section \<open>The statements of a batch\<close>

lemma addAirport_keys:
  "fst ` set (addAirport m code c) = fst ` set m \<union> ({code} - {[]})"
proof (cases "map_of m code")
  case None
  then show ?thesis by (auto simp: addAirport_def dom_update)
next
  case (Some x)
  then have "code \<in> fst ` set m" by (force dest: map_of_SomeD)
  with Some show ?thesis by (auto simp: addAirport_def dom_update)
qed

lemma collectAirports_keys_from:
  "fst ` set (fold (\<lambda>f m. addAirport (addAirport m (Origin f) (OriginCoord f)) (Destination f) (DestinationCoord f)) fs m)
     = fst ` set m \<union> (Origin ` set fs \<union> Destination ` set fs - {[]})"
  by (induction fs arbitrary: m) (auto simp: addAirport_keys)

lemma collectAirports_keys:
  "fst ` set (collectAirports fs) = Origin ` set fs \<union> Destination ` set fs - {[]}"
  by (simp add: collectAirports_def collectAirports_keys_from)

lemma TrimSpace_Nil [simp]: "TrimSpace [] = []"
  by code_simp

lemma nz_Some: "nz s = Some c \<Longrightarrow> c = s \<and> s \<noteq> []"
  by (auto simp: nz_def split: if_splits)

lemma snd_enumerate: "snd ` set (enumerate n xs) = set xs"
  by (simp only: set_map [symmetric] map_snd_enumerate)

lemma in_enumerate: "(i, x) \<in> set (enumerate n xs) \<Longrightarrow> x \<in> set xs"
  using snd_enumerate [of n xs] by force

lemma flightRow_fields [simp]:
  "origin (flightRow t n f) = nz (Origin f)" "destination (flightRow t n f) = nz (Destination f)"
  "drop_count (flightRow t n f) = 0" "reactivation_count (flightRow t n f) = 0"
  "status_time (flightRow t n f) = Some (timestamptz (parseTimeOr (Timestamp f) n))"
  "status (flightRow t n f) = nz (Status f)"
  by (simp_all add: flightRow_def)

text \<open>The rows of the messages for one flight, with the clock reading of each.\<close>

definition rowsFor :: "'f tx_env \<Rightarrow> string \<Rightarrow> 'f Flight list \<Rightarrow> flight_row list" where
  "rowsFor env g fs = map (\<lambda>(i, f). flightRow (tx_now env) (flight_now env i) f)
     (filter (\<lambda>(i, f). fl_Gufi f = g) (enumerate 0 fs))"

definition positionsFor :: "'f tx_env \<Rightarrow> 'f Flight list \<Rightarrow> 'f position_row list" where
  "positionsFor env fs = map (\<lambda>(i, f). positionRow (pos_now env i) f)
     (filter (\<lambda>(i, f). HasPosition f) (enumerate 0 fs))"

lemma airportStmts_lists [simp]:
  "rows_of g (airportStmts env fs) = []" "position_rows (airportStmts env fs) = []"
  "gufis (airportStmts env fs) = {}"
  "codes (airportStmts env fs) = fst ` set (iter env (collectAirports fs))"
proof -
  have "rows_of g (map (\<lambda>(code, c). UpsertAirport code (a c) (b c)) xs) = []"
    "position_rows (map (\<lambda>(code, c). UpsertAirport code (a c) (b c)) xs) = []"
    "gufis (map (\<lambda>(code, c). UpsertAirport code (a c) (b c)) xs) = {}"
    "codes (map (\<lambda>(code, c). UpsertAirport code (a c) (b c)) xs) = fst ` set xs"
    for xs :: "(string \<times> 'a Coord) list" and a b :: "'a Coord \<Rightarrow> 'a option"
    by (induction xs) force+
  then show "rows_of g (airportStmts env fs) = []" "position_rows (airportStmts env fs) = []"
    "gufis (airportStmts env fs) = {}" "codes (airportStmts env fs) = fst ` set (iter env (collectAirports fs))"
    by (simp_all only: airportStmts_def)
qed

lemma flightStmts_lists [simp]:
  "rows_of g (flightStmts env fs) = rowsFor env g fs" "position_rows (flightStmts env fs) = []"
  "codes (flightStmts env fs) = {}" "gufis (flightStmts env fs) = fl_Gufi ` set fs"
proof -
  have "rows_of g (map (\<lambda>(i, f). UpsertFlight (fl_Gufi f) (h i f)) xs)
      = map (\<lambda>(i, f). h i f) (filter (\<lambda>(i, f). fl_Gufi f = g) xs)"
    "position_rows (map (\<lambda>(i, f). UpsertFlight (fl_Gufi f) (h i f)) xs) = ([] :: 'a position_row list)"
    "codes (map (\<lambda>(i, f). UpsertFlight (fl_Gufi f) (h i f) :: 'a stmt) xs) = {}"
    "gufis (map (\<lambda>(i, f). UpsertFlight (fl_Gufi f) (h i f) :: 'a stmt) xs) = fl_Gufi ` snd ` set xs"
    for xs :: "(nat \<times> 'a Flight) list" and h :: "nat \<Rightarrow> 'a Flight \<Rightarrow> flight_row"
    by (induction xs) force+
  then show "rows_of g (flightStmts env fs) = rowsFor env g fs" "position_rows (flightStmts env fs) = []"
    "codes (flightStmts env fs) = {}" "gufis (flightStmts env fs) = fl_Gufi ` set fs"
    by (simp_all only: flightStmts_def rowsFor_def snd_enumerate)
qed

lemma positionStmts_lists [simp]:
  "rows_of g (positionStmts env fs) = []" "position_rows (positionStmts env fs) = positionsFor env fs"
  "codes (positionStmts env fs) = {}" "gufis (positionStmts env fs) = {}"
proof -
  have "rows_of g (map (\<lambda>(i, f). InsertPosition (h i f)) xs) = []"
    "position_rows (map (\<lambda>(i, f). InsertPosition (h i f)) xs) = map (\<lambda>(i, f). h i f) xs"
    "codes (map (\<lambda>(i, f). InsertPosition (h i f)) xs) = {}"
    "gufis (map (\<lambda>(i, f). InsertPosition (h i f)) xs) = {}"
    for xs :: "(nat \<times> 'a Flight) list" and h :: "nat \<Rightarrow> 'a Flight \<Rightarrow> 'a position_row"
    by (induction xs) auto
  then show "rows_of g (positionStmts env fs) = []" "position_rows (positionStmts env fs) = positionsFor env fs"
    "codes (positionStmts env fs) = {}" "gufis (positionStmts env fs) = {}"
    by (simp_all only: positionStmts_def positionsFor_def)
qed

text \<open>The queue order airports, flights, positions respects the foreign keys.\<close>

lemma batchStmts_closed:
  assumes "mset (iter env (collectAirports fs)) = mset (collectAirports fs)"
  shows "closed {} {} (batchStmts env fs)"
proof -
  have keys: "fst ` set (iter env (collectAirports fs)) = Origin ` set fs \<union> Destination ` set fs - {[]}"
    using assms collectAirports_keys by (metis set_mset_mset)
  have air: "closed A G (map (\<lambda>(code, c). UpsertAirport code (a c) (b c)) xs)"
    for A G a b and xs :: "(string \<times> 'a Coord) list"
    by (induction xs arbitrary: A) auto
  have fl: "closed A G (map (\<lambda>(i, f). UpsertFlight (fl_Gufi f) (flightRow t (n i) f) :: 'a stmt) xs)"
    if "\<And>f. f \<in> snd ` set xs \<Longrightarrow> set_option (nz (Origin f)) \<union> set_option (nz (Destination f)) \<subseteq> A"
    for A G t n and xs :: "(nat \<times> 'a Flight) list"
    using that by (induction xs arbitrary: G) auto
  have po: "closed A G (map (\<lambda>(i, f). InsertPosition (positionRow (n i) f)) xs)"
    if "\<And>f. f \<in> snd ` set xs \<Longrightarrow> fl_Gufi f \<in> G" for A G n and xs :: "(nat \<times> 'a Flight) list"
    using that by (induction xs) (auto simp: positionRow_def Let_def)
  let ?A = "fst ` set (iter env (collectAirports fs))"
  have "closed A G (airportStmts env fs)" for A G
    unfolding airportStmts_def by (rule air)
  moreover have "closed ?A G (flightStmts env fs)" for G
    unfolding flightStmts_def by (rule fl) (auto simp: snd_enumerate keys dest!: nz_Some)
  moreover have "closed A (fl_Gufi ` set fs) (positionStmts env fs)" for A
    unfolding positionStmts_def by (rule po) (auto dest!: in_enumerate)
  ultimately show ?thesis
    by (simp add: batchStmts_def closed_append)
qed

section \<open>Why a batch can fail\<close>

fun stmt_text_ok :: "'f stmt \<Rightarrow> bool" where
  "stmt_text_ok (UpsertAirport code lat lon) = text_ok code"
| "stmt_text_ok (UpsertFlight gufi row) \<longleftrightarrow> text_ok gufi \<and> row_text_ok row"
| "stmt_text_ok (InsertPosition p) \<longleftrightarrow> text_ok (pr_gufi p) \<and> text_opt_ok (pr_status p)"

lemma exec_text:
  "exec now s d = Inr d' \<Longrightarrow> stmt_text_ok s" "stmt_text_ok s \<Longrightarrow> exec now s d \<noteq> Inl InvalidText"
  by (cases s; auto simp: exec_defs split: if_splits)+

lemma exec_all_text:
  "exec_all now ok i ss d = Inr d' \<Longrightarrow> list_all stmt_text_ok ss"
  "list_all stmt_text_ok ss \<Longrightarrow> exec_all now ok i ss d \<noteq> Inl InvalidText"
proof (induction ss arbitrary: d i)
  case (Cons s ss)
  {
    case 1
    then show ?case
      using Cons.IH(1) by (auto split: if_splits sum.splits dest: exec_text(1))
  next
    case 2
    then show ?case
      using Cons.IH(2) exec_text(2) [of s now d] by (auto split: sum.split)
  }
qed simp_all

lemma exec_all_conn: "(\<And>j. ok j) \<Longrightarrow> exec_all now ok i ss d \<noteq> Inl ConnFault"
proof (induction ss arbitrary: d i)
  case (Cons s ss)
  have "exec now s d \<noteq> Inl ConnFault"
    by (cases s) (auto simp: exec_defs split: if_splits)
  then show ?case
    using Cons by (auto split: sum.split)
qed simp

text \<open>The counters of every row are at least \<open>n\<close> below the limit of \<^verbatim>\<open>integer\<close>.\<close>

definition counters_room :: "nat \<Rightarrow> 'f db \<Rightarrow> bool" where
  "counters_room n d \<longleftrightarrow> int n < 2 ^ 31 \<and> (\<forall>g r. flights d g = Some r \<longrightarrow>
     0 \<le> drop_count r \<and> drop_count r + int n < 2 ^ 31 \<and>
     0 \<le> reactivation_count r \<and> reactivation_count r + int n < 2 ^ 31)"

fun fresh_counters :: "'f stmt \<Rightarrow> bool" where
  "fresh_counters (UpsertFlight gufi row) \<longleftrightarrow> drop_count row = 0 \<and> reactivation_count row = 0"
| "fresh_counters _ = True"

lemma merge_counters:
  "drop_count r \<le> drop_count (merge now r ex)" "drop_count (merge now r ex) \<le> drop_count r + 1"
  "reactivation_count r \<le> reactivation_count (merge now r ex)"
  "reactivation_count (merge now r ex) \<le> reactivation_count r + 1"
  by (simp_all add: merge_def)

lemma counters_room_Suc: "counters_room (Suc n) d \<Longrightarrow> counters_room n d"
  by (force simp: counters_room_def)

lemma exec_counters:
  assumes "fresh_counters s" "counters_room (Suc n) d"
  shows "exec now s d \<noteq> Inl IntegerRange" and "exec now s d = Inr d' \<Longrightarrow> counters_room n d'"
proof -
  have "exec now s d \<noteq> Inl IntegerRange \<and> (exec now s d = Inr d' \<longrightarrow> counters_room n d')"
  proof (cases s)
    case (UpsertFlight g ex)
    define row where "row = (case flights d g of None \<Rightarrow> ex | Some r \<Rightarrow> merge now r ex)"
    have row: "0 \<le> drop_count row" "drop_count row + int n < 2 ^ 31"
      "0 \<le> reactivation_count row" "reactivation_count row + int n < 2 ^ 31"
    proof -
      have "0 \<le> drop_count row \<and> drop_count row + int n < 2 ^ 31 \<and>
        0 \<le> reactivation_count row \<and> reactivation_count row + int n < 2 ^ 31"
      proof (cases "flights d g")
        case None
        then show ?thesis
          using assms UpsertFlight by (simp add: row_def counters_room_def)
      next
        case (Some r)
        then show ?thesis
          using assms(2) merge_counters [where r = r and now = now and ex = ex] by (force simp: row_def counters_room_def)
      qed
      then show "0 \<le> drop_count row" "drop_count row + int n < 2 ^ 31"
        "0 \<le> reactivation_count row" "reactivation_count row + int n < 2 ^ 31" by simp_all
    qed
    then have "int4 (drop_count row)" "int4 (reactivation_count row)"
      by (auto simp: int4_def)
    then show ?thesis
      using UpsertFlight row counters_room_Suc [OF assms(2)]
      by (auto simp: upsertFlight_def Let_def row_def [symmetric] counters_room_def split: if_splits)
  qed (use assms(2) in \<open>fastforce simp: upsertAirport_def insertPosition_def counters_room_def split: if_splits\<close>)+
  then show "exec now s d \<noteq> Inl IntegerRange" and "exec now s d = Inr d' \<Longrightarrow> counters_room n d'"
    by simp_all
qed

lemma exec_all_counters:
  "list_all fresh_counters ss \<Longrightarrow> counters_room (length ss) d \<Longrightarrow> exec_all now ok i ss d \<noteq> Inl IntegerRange"
proof (induction ss arbitrary: d i)
  case (Cons s ss)
  then show ?case
    using exec_counters [of s "length ss" d now] by (auto split: sum.split)
qed simp

section \<open>The outcome of a batch\<close>

lemma RecordBatch_ok:
  assumes "RecordBatch env fs d = (None, d')"
  shows "fs = [] \<and> d' = d \<or>
     fs \<noteq> [] \<and> commit_res env = Acked \<and>
     exec_all (tx_now env) (exec_ok env) 0 (batchStmts env fs) d = Inr d'"
  using assms by (auto simp: RecordBatch_def split: if_splits sum.splits commit_result.splits)

lemma RecordBatch_db:
  "snd (RecordBatch env fs d) = d \<or>
     exec_all (tx_now env) (exec_ok env) 0 (batchStmts env fs) d = Inr (snd (RecordBatch env fs d))"
  by (auto simp: RecordBatch_def split: if_splits sum.splits commit_result.splits)

lemma RecordBatch_error:
  assumes "fst (RecordBatch env fs d) = Some e"
  shows "e = ConnFault \<or> exec_all (tx_now env) (exec_ok env) 0 (batchStmts env fs) d = Inl e"
  using assms by (auto simp: RecordBatch_def split: if_splits sum.splits commit_result.splits)

lemma rowsFor_Nil [simp]: "rowsFor env g [] = []" "positionsFor env [] = []"
  by (simp_all add: rowsFor_def positionsFor_def)

lemma RecordBatch_effect:
  assumes "RecordBatch env fs d = (None, d')"
  shows "flights d' g = track (tx_now env) (rowsFor env g fs) (flights d g)"
    and "positions d' = positions d @ positionsFor env fs"
  using RecordBatch_ok [OF assms] by (auto dest!: exec_all_effects simp: batchStmts_def)

text \<open>The texts of a flight; a zero byte in one of them makes its statements fail.\<close>

definition flight_text_ok :: "'f Flight \<Rightarrow> bool" where
  "flight_text_ok f \<longleftrightarrow> list_all text_ok [fl_Gufi f, fl_CallSign f, fl_Registration f, AircraftType f,
     Origin f, Destination f, Status f]"

lemma nz_text_ok: "text_ok s \<Longrightarrow> text_opt_ok (nz s)"
  by (simp add: nz_def text_opt_ok_def)

lemma batch_text_ok:
  assumes "list_all flight_text_ok fs"
    and "mset (iter env (collectAirports fs)) = mset (collectAirports fs)"
  shows "list_all stmt_text_ok (batchStmts env fs)"
proof -
  have f: "stmt_text_ok (UpsertFlight (fl_Gufi f) (flightRow t n f))"
      "stmt_text_ok (InsertPosition (positionRow n f))" "text_ok (Origin f)" "text_ok (Destination f)"
    if "f \<in> set fs" for f t n
    using assms(1) that
    by (simp_all add: list_all_iff flight_text_ok_def row_text_ok_def flightRow_def positionRow_def
        Let_def nz_text_ok)
  have "fst ` set (iter env (collectAirports fs)) = Origin ` set fs \<union> Destination ` set fs - {[]}"
    using assms(2) collectAirports_keys by (metis set_mset_mset)
  then have "text_ok code" if "(code, c) \<in> set (iter env (collectAirports fs))" for code c
    using that f(3,4) by (metis (no_types, lifting) Diff_iff Un_iff fst_conv image_iff)
  then show ?thesis
    by (auto simp: batchStmts_def airportStmts_def flightStmts_def positionStmts_def list_all_iff f
        simp del: stmt_text_ok.simps(2,3) dest!: in_enumerate)
qed

lemma batch_fresh_counters: "list_all fresh_counters (batchStmts env fs)"
  by (auto simp: batchStmts_def airportStmts_def flightStmts_def positionStmts_def list_all_iff)

lemma zero_byte_fails:
  assumes "f \<in> set fs" "CHR 0x00 \<in> set (fl_Gufi f)"
  shows "\<exists>e. RecordBatch env fs d = (Some e, d)"
proof -
  obtain i where "(i, f) \<in> set (enumerate 0 fs)"
    using assms(1) snd_enumerate [of 0 fs] by force
  then have "\<exists>s \<in> set (flightStmts env fs). \<not> stmt_text_ok s"
    using assms(2) by (force simp: flightStmts_def text_ok_def)
  then have "\<not> list_all stmt_text_ok (batchStmts env fs)"
    by (auto simp: batchStmts_def list_all_iff)
  then have "exec_all (tx_now env) (exec_ok env) 0 (batchStmts env fs) d \<noteq> Inr d'" for d'
    using exec_all_text(1) by blast
  then show ?thesis
    using assms(1) by (auto simp: RecordBatch_def split: sum.split)
qed

section \<open>The airports written\<close>

fun coords_of :: "string \<Rightarrow> 'f stmt list \<Rightarrow> ('f option \<times> 'f option) list" where
  "coords_of c (UpsertAirport c' lat lon # ss) = (if c' = c then (lat, lon) # coords_of c ss else coords_of c ss)"
| "coords_of c (_ # ss) = coords_of c ss"
| "coords_of c [] = []"

definition ap_merge :: "'f option \<times> 'f option \<Rightarrow> 'f airport_row option \<Rightarrow> 'f airport_row option" where
  "ap_merge = (\<lambda>(lat, lon) r. Some (case r of
      None \<Rightarrow> \<lparr>ap_lat = lat, ap_lon = lon\<rparr>
    | Some r \<Rightarrow> \<lparr>ap_lat = coalesce (ap_lat r) lat, ap_lon = coalesce (ap_lon r) lon\<rparr>))"

lemma exec_airports: "exec now s d = Inr d' \<Longrightarrow> airports d' c = fold ap_merge (coords_of c [s]) (airports d c)"
  by (cases s) (auto simp: exec_defs ap_merge_def split: if_splits)

lemma exec_all_airports:
  "exec_all now ok i ss d = Inr d' \<Longrightarrow> airports d' c = fold ap_merge (coords_of c ss) (airports d c)"
proof (induction ss arbitrary: d i)
  case (Cons s ss)
  from Cons.prems obtain d1 where d1: "exec now s d = Inr d1" "exec_all now ok (Suc i) ss d1 = Inr d'"
    by (auto split: if_splits sum.splits)
  have "coords_of c (s # ss) = coords_of c [s] @ coords_of c ss"
    by (cases s) auto
  then show ?case
    using Cons.IH [OF d1(2)] exec_airports [OF d1(1), of c] by simp
qed simp

lemma coords_of_append: "coords_of c (xs @ ys) = coords_of c xs @ coords_of c ys"
  by (induction c xs rule: coords_of.induct) auto

lemma coords_of_no_airport:
  "coords_of c (flightStmts env fs) = []" "coords_of c (positionStmts env fs) = []"
proof -
  have "coords_of c (map (\<lambda>(i, f). UpsertFlight (g i f) (h i f) :: 'a stmt) xs) = []"
    "coords_of c (map (\<lambda>(i, f). InsertPosition (k i f)) xs) = []"
    for xs :: "(nat \<times> 'a Flight) list" and g h and k :: "nat \<Rightarrow> 'a Flight \<Rightarrow> 'a position_row"
    by (induction xs) auto
  then show "coords_of c (flightStmts env fs) = []" "coords_of c (positionStmts env fs) = []"
    by (simp_all only: flightStmts_def positionStmts_def)
qed

definition coord_args :: "'f Coord \<Rightarrow> 'f option \<times> 'f option" where
  "coord_args c = (nfloat (coord_Lat c) (coord_OK c), nfloat (coord_Lon c) (coord_OK c))"

lemma coords_of_airports:
  assumes "distinct (map fst xs)"
  shows "coords_of c (map (\<lambda>(code, c). UpsertAirport code (nfloat (coord_Lat c) (coord_OK c)) (nfloat (coord_Lon c) (coord_OK c))) xs)
    = (case map_of xs c of None \<Rightarrow> [] | Some x \<Rightarrow> [coord_args x])"
  using assms
proof (induction xs)
  case (Cons x xs)
  then show ?case
    by (cases x) (force simp: coord_args_def map_of_eq_None_iff split: option.split dest: map_of_SomeD)
qed simp

lemma collectAirports_distinct: "distinct (map fst (collectAirports fs))"
proof -
  have "distinct (map fst (addAirport m code c))" if "distinct (map fst m)" for m code and c :: "'a Coord"
    using that by (auto simp: addAirport_def distinct_update split: option.split)
  then have "distinct (map fst m) \<Longrightarrow> distinct (map fst (fold (\<lambda>f m.
      addAirport (addAirport m (Origin f) (OriginCoord f)) (Destination f) (DestinationCoord f)) fs m))" for m :: "(string \<times> 'a Coord) list"
    by (induction fs arbitrary: m) auto
  then show ?thesis by (simp add: collectAirports_def)
qed

text \<open>The iteration order of the map does not show in the table.\<close>

lemma RecordBatch_airports:
  assumes "RecordBatch env fs d = (None, d')"
    and "mset (iter env (collectAirports fs)) = mset (collectAirports fs)"
  shows "airports d' c = (case map_of (collectAirports fs) c of
      None \<Rightarrow> airports d c | Some x \<Rightarrow> ap_merge (coord_args x) (airports d c))"
proof (cases "fs = []")
  case True
  then show ?thesis using assms(1) by (simp add: RecordBatch_def collectAirports_def)
next
  case False
  have dist: "distinct (map fst (iter env (collectAirports fs)))"
    using collectAirports_distinct [of fs] assms(2) by (metis mset_map mset_eq_imp_distinct_iff)
  have "map_of (iter env (collectAirports fs)) = map_of (collectAirports fs)"
    using assms(2) dist collectAirports_distinct [of fs]
    by (metis map_of_inject_set set_mset_mset)
  then have "coords_of c (batchStmts env fs) = (case map_of (collectAirports fs) c of None \<Rightarrow> [] | Some x \<Rightarrow> [coord_args x])"
    unfolding batchStmts_def coords_of_append coords_of_no_airport airportStmts_def
    by (simp add: coords_of_airports [OF dist])
  then show ?thesis
    using RecordBatch_ok [OF assms(1)] False exec_all_airports
    by (fastforce split: option.split)
qed

end
