(* ===== verification/Db_Properties.thy ===== *)
theory Db_Properties
  imports Db_Store
begin

text \<open>
  What the database writer guarantees of its tables: referential integrity, atomicity, the exact
  effect of a batch, the first-known-value rule for the identity of a flight, and the status
  history as a state machine over the messages that are not older than the last one accepted.
\<close>

section \<open>The status history of a flight\<close>

text \<open>The statuses accepted, in order: those of the messages at least as recent as every message
  accepted before.\<close>

fun history :: "gotime \<Rightarrow> (gotime \<times> string option) list \<Rightarrow> string option list" where
  "history t [] = []"
| "history t ((s, x) # ms) = (if t \<le> s then x # history s ms else history t ms)"

text \<open>The edges into DROPPED, and from DROPPED to ACTIVE, along a history that starts at \<open>p\<close>.\<close>

fun drops :: "string option \<Rightarrow> string option list \<Rightarrow> int" where
  "drops p [] = 0"
| "drops p (x # xs) = of_bool (p \<noteq> Some DROPPED \<and> x = Some DROPPED) + drops x xs"

fun reactivations :: "string option \<Rightarrow> string option list \<Rightarrow> int" where
  "reactivations p [] = 0"
| "reactivations p (x # xs) = of_bool (p = Some DROPPED \<and> x = Some ACTIVE) + reactivations x xs"

definition reports :: "flight_row list \<Rightarrow> (gotime \<times> string option) list" where
  "reports exs = map (\<lambda>ex. (the (status_time ex), status ex)) exs"

lemma merge_status:
  assumes "status_time r = Some t" "status_time ex = Some s"
  shows "status_time (merge now r ex) = Some (max t s)"
    and "status (merge now r ex) = (if t \<le> s then status ex else status r)"
    and "drop_count (merge now r ex) = drop_count r +
       of_bool (t \<le> s \<and> status r \<noteq> Some DROPPED \<and> status ex = Some DROPPED)"
    and "reactivation_count (merge now r ex) = reactivation_count r +
       of_bool (t \<le> s \<and> status r = Some DROPPED \<and> status ex = Some ACTIVE)"
  using assms by (simp_all add: merge_def greatest_def not_older_def)

lemma track_status:
  assumes "status_time r = Some t" "list_all (\<lambda>ex. status_time ex \<noteq> None) exs"
  shows "\<exists>r'. track now exs (Some r) = Some r' \<and>
     status r' = last (status r # history t (reports exs)) \<and>
     status_time r' = Some (Max (insert t (fst ` set (reports exs)))) \<and>
     drop_count r' = drop_count r + drops (status r) (history t (reports exs)) \<and>
     reactivation_count r' = reactivation_count r + reactivations (status r) (history t (reports exs))"
  using assms
proof (induction exs arbitrary: r t)
  case (Cons ex exs)
  then obtain s where s: "status_time ex = Some s" by auto
  note m = merge_status [OF Cons.prems(1) s, of now]
  have mx: "Max (insert (max t s) A) = Max (insert t (insert s A))" if "finite A" for A :: "int set"
    using that by (cases "A = {}") (auto simp: max.assoc)
  from Cons.IH [OF m(1)] Cons.prems(2) obtain r' where
    "track now exs (Some (merge now r ex)) = Some r'"
    "status r' = last (status (merge now r ex) # history (max t s) (reports exs))"
    "status_time r' = Some (Max (insert (max t s) (fst ` set (reports exs))))"
    "drop_count r' = drop_count (merge now r ex) + drops (status (merge now r ex)) (history (max t s) (reports exs))"
    "reactivation_count r' = reactivation_count (merge now r ex)
       + reactivations (status (merge now r ex)) (history (max t s) (reports exs))"
    by auto
  then show ?case
    using s m mx [of "fst ` set (reports exs)"]
    by (auto simp: reports_def max_def insert_commute)
qed (simp add: reports_def)

section \<open>First known values\<close>

fun first_known :: "'a option list \<Rightarrow> 'a option" where
  "first_known [] = None"
| "first_known (x # xs) = (case x of Some v \<Rightarrow> Some v | None \<Rightarrow> first_known xs)"

lemma first_known_coalesce: "first_known (coalesce a b # xs) = first_known (a # b # xs)"
  by (cases a) (auto simp: coalesce_def)

text \<open>A column updated by \<^verbatim>\<open>COALESCE(existing, new)\<close>.\<close>

locale coalesced_column =
  fixes col :: "flight_row \<Rightarrow> 'a option"
  assumes col_merge: "col (merge now r ex) = coalesce (col r) (col ex)"
begin

lemma track_col: "track now exs (Some r) = Some r' \<Longrightarrow> col r' = first_known (col r # map col exs)"
proof (induction exs arbitrary: r)
  case (Cons ex exs)
  then have "col r' = first_known (coalesce (col r) (col ex) # map col exs)"
    using Cons.IH [of "merge now r ex"] by (simp add: col_merge)
  then show ?case by (simp only: first_known_coalesce list.map)
qed (simp split: option.splits)

lemma track_col_new:
  "track now exs r = Some r' \<Longrightarrow> col r' = first_known (map col (case r of None \<Rightarrow> exs | Some r \<Rightarrow> r # exs))"
proof (cases r)
  case None
  assume "track now exs r = Some r'"
  with None show ?thesis
    by (cases exs) (auto dest: track_col)
next
  case (Some r0)
  assume "track now exs r = Some r'"
  with Some show ?thesis
    using track_col [of now exs r0 r'] by simp
qed

end

interpretation c1: coalesced_column call_sign by unfold_locales (simp add: merge_def)
interpretation c2: coalesced_column registration by unfold_locales (simp add: merge_def)
interpretation c3: coalesced_column aircraft_type by unfold_locales (simp add: merge_def)
interpretation c4: coalesced_column origin by unfold_locales (simp add: merge_def)
interpretation c5: coalesced_column destination by unfold_locales (simp add: merge_def)
interpretation c6: coalesced_column actual_departure_time by unfold_locales (simp add: merge_def)
interpretation c7: coalesced_column actual_arrival_time by unfold_locales (simp add: merge_def)

lemma track_Some: "\<exists>r'. track now exs (Some r) = Some r'"
  by (induction exs arbitrary: r) simp_all

lemma rowsFor_times: "list_all (\<lambda>ex. status_time ex \<noteq> None) (rowsFor env g fs)"
  by (auto simp: rowsFor_def list_all_iff)

lemma first_known_again: "first_known (first_known (ys @ xs) # xs) = first_known (ys @ xs)"
proof (induction ys)
  case Nil
  show ?case by (cases "first_known xs") simp_all
qed (simp split: option.split)

section \<open>A concrete batch\<close>

definition sample_flight :: "string \<Rightarrow> string \<Rightarrow> string \<Rightarrow> string \<Rightarrow> bool \<Rightarrow> int Flight" where
  "sample_flight g cs st t hasPos =
     \<lparr>fl_Gufi = g, fl_CallSign = cs, fl_Registration = ''N1'', AircraftType = [], Origin = ''KJFK'',
      Destination = ''KLAX'', Status = st, Timestamp = t, ActualDepartureTime = [],
      ActualArrivalTime = [], OriginCoord = \<lparr>coord_Lat = 40, coord_Lon = -73, coord_OK = True\<rparr>,
      DestinationCoord = \<lparr>coord_Lat = 0, coord_Lon = 0, coord_OK = False\<rparr>,
      position = (zero_Position int_floats)\<lparr>Time := t\<rparr>, HasPosition = hasPos\<rparr>"

definition sample_batch :: "int Flight list" where
  "sample_batch =
     [sample_flight ''g1'' [] ''ACTIVE'' ''2025-06-01T00:00:00Z'' True,
      sample_flight ''g1'' ''AAL1'' ''DROPPED'' ''2025-06-01T00:01:00Z'' False,
      sample_flight ''g1'' ''AAL2'' ''ACTIVE'' ''2025-06-01T00:00:30Z'' False]"

definition sample_tx :: "int tx_env" where
  "sample_tx = \<lparr>begin_ok = True, exec_ok = (\<lambda>_. True), close_ok = True, commit_res = Acked, tx_now = 0,
     flight_now = (\<lambda>_. 0), pos_now = (\<lambda>_. 0), iter = (\<lambda>m. m)\<rparr>"

definition empty_db :: "int db" where
  "empty_db = \<lparr>airports = Map.empty, flights = Map.empty, positions = []\<rparr>"

lemma sample_iter: "mset (iter sample_tx m) = mset m"
  by (simp add: sample_tx_def)

lemma empty_fk: "fk_ok empty_db"
  by (simp add: fk_ok_def empty_db_def)

lemma sample_recorded: "\<exists>d. RecordBatch sample_tx sample_batch empty_db = (None, d)"
proof -
  have "fst (RecordBatch sample_tx sample_batch empty_db) = None" by code_simp
  then show ?thesis by (metis prod.collapse)
qed

section \<open>Properties\<close>

text \<open>
  A recorded batch has exactly its effect: the row of every flight is the old row with the
  messages of that flight merged in message order, and the positions appended are those of the
  messages that carry one, in order; nothing else happens to either table.
\<close>

theorem record_batch_exact:
  assumes "RecordBatch env fs d = (None, d')"
  shows "flights d' g = track (tx_now env) (rowsFor env g fs) (flights d g) \<and>
     positions d' = positions d @ positionsFor env fs"
  using RecordBatch_effect [OF assms] by simp

theorem record_batch_exact_witness:
  "\<exists>d. RecordBatch sample_tx sample_batch empty_db = (None, d) \<and> length (positions d) = 1 \<and>
     flights d ''g1'' = track 0 (rowsFor sample_tx ''g1'' sample_batch) None"
proof -
  obtain d where d: "RecordBatch sample_tx sample_batch empty_db = (None, d)"
    using sample_recorded by blast
  have "length (positionsFor sample_tx sample_batch) = 1" by code_simp
  then show ?thesis
    using record_batch_exact [OF d, of "''g1''"] d by (simp add: empty_db_def sample_tx_def)
qed

text \<open>
  C5: batches are atomic and never break or hit a foreign key: from a database with referential
  integrity, for every iteration order of the airport map and every fault, the database after the
  call has referential integrity, the error is never a foreign-key violation, and after an error
  the database is unchanged unless only the acknowledgement of the commit was lost.
\<close>

theorem record_batch_integrity:
  assumes "fk_ok d" "mset (iter env (collectAirports fs)) = mset (collectAirports fs)"
  shows "fk_ok (snd (RecordBatch env fs d)) \<and> fst (RecordBatch env fs d) \<noteq> Some ForeignKey \<and>
     (fst (RecordBatch env fs d) \<noteq> None \<and> commit_res env \<noteq> LostAck \<longrightarrow> snd (RecordBatch env fs d) = d)"
proof (intro conjI impI)
  show "fk_ok (snd (RecordBatch env fs d))"
    using RecordBatch_db [of env fs d] fk_ok_exec_all [OF assms(1)] assms(1) by metis
  show "fst (RecordBatch env fs d) \<noteq> Some ForeignKey"
    using RecordBatch_error closed_exec_all [OF batchStmts_closed [OF assms(2)] assms(1)] by blast
  show "snd (RecordBatch env fs d) = d" if "fst (RecordBatch env fs d) \<noteq> None \<and> commit_res env \<noteq> LostAck"
    using that by (auto simp: RecordBatch_def split: if_splits sum.splits commit_result.splits)
qed

theorem record_batch_integrity_witness:
  "fk_ok (snd (RecordBatch sample_tx sample_batch empty_db)) \<and>
   fst (RecordBatch sample_tx sample_batch empty_db) \<noteq> Some ForeignKey"
  using record_batch_integrity [OF empty_fk sample_iter, of sample_batch] by simp



text \<open>
  C15: identity columns keep the first known value: after a recorded batch the call sign,
  registration, aircraft type, origin, destination and actual times of a flight are the first
  non-null ones among its old row and its messages in order, and are never overwritten later.
\<close>

theorem identity_first_known:
  assumes "RecordBatch env fs d = (None, d')" "flights d' g = Some r'"
  defines "rows \<equiv> (case flights d g of None \<Rightarrow> [] | Some r \<Rightarrow> [r]) @ rowsFor env g fs"
  shows "call_sign r' = first_known (map call_sign rows) \<and>
     registration r' = first_known (map registration rows) \<and>
     aircraft_type r' = first_known (map aircraft_type rows) \<and>
     origin r' = first_known (map origin rows) \<and> destination r' = first_known (map destination rows) \<and>
     actual_departure_time r' = first_known (map actual_departure_time rows) \<and>
     actual_arrival_time r' = first_known (map actual_arrival_time rows)"
proof -
  have t: "track (tx_now env) (rowsFor env g fs) (flights d g) = Some r'"
    using RecordBatch_effect(1) [OF assms(1)] assms(2) by metis
  have "rows = (case flights d g of None \<Rightarrow> rowsFor env g fs | Some r \<Rightarrow> r # rowsFor env g fs)"
    by (simp add: rows_def split: option.split)
  then show ?thesis
    using c1.track_col_new [OF t] c2.track_col_new [OF t] c3.track_col_new [OF t] c4.track_col_new [OF t]
      c5.track_col_new [OF t] c6.track_col_new [OF t] c7.track_col_new [OF t] by simp
qed

theorem identity_first_known_witness:
  "\<exists>d r. RecordBatch sample_tx sample_batch empty_db = (None, d) \<and> flights d ''g1'' = Some r \<and>
     call_sign r = Some ''AAL1''"
proof -
  obtain d where d: "RecordBatch sample_tx sample_batch empty_db = (None, d)"
    using sample_recorded by blast
  have rows: "rowsFor sample_tx ''g1'' sample_batch \<noteq> []"
    "first_known (map call_sign (rowsFor sample_tx ''g1'' sample_batch)) = Some ''AAL1''"
    by code_simp+
  then obtain ex exs where "rowsFor sample_tx ''g1'' sample_batch = ex # exs"
    by (cases "rowsFor sample_tx ''g1'' sample_batch") auto
  then obtain r where r: "flights d ''g1'' = Some r"
    using RecordBatch_effect(1) [OF d, of "''g1''"] track_Some by (metis track_simps(2))
  show ?thesis
    using identity_first_known [OF d r] rows(2) d r by (simp add: empty_db_def)
qed

text \<open>
  C6: the status columns implement the status history: starting from the first known row of a
  flight, the status is the last one accepted, its time is the greatest seen, and the two counters
  have grown by exactly the edges into DROPPED and from DROPPED to ACTIVE along the accepted
  history; a message older than the last accepted one changes none of them.
\<close>

theorem status_history_refined:
  assumes "RecordBatch env fs d = (None, d')" "flights d' g = Some r'"
    and "(case flights d g of None \<Rightarrow> [] | Some r \<Rightarrow> [r]) @ rowsFor env g fs = r # exs"
    and "status_time r = Some t"
  shows "status r' = last (status r # history t (reports exs)) \<and>
     status_time r' = Some (Max (insert t (fst ` set (reports exs)))) \<and>
     drop_count r' = drop_count r + drops (status r) (history t (reports exs)) \<and>
     reactivation_count r' = reactivation_count r + reactivations (status r) (history t (reports exs))"
proof -
  have "track (tx_now env) (rowsFor env g fs) (flights d g) = Some r'"
    using RecordBatch_effect(1) [OF assms(1)] assms(2) by metis
  moreover have "track (tx_now env) (rowsFor env g fs) (flights d g) = track (tx_now env) exs (Some r)"
    using assms(3) by (cases "flights d g") auto
  moreover have "list_all (\<lambda>ex. status_time ex \<noteq> None) exs"
    using rowsFor_times [of env g fs] assms(3) by (cases "flights d g") auto
  ultimately show ?thesis
    using track_status [OF assms(4), of exs "tx_now env"] by fastforce
qed

theorem status_history_refined_witness:
  "\<exists>d r. RecordBatch sample_tx sample_batch empty_db = (None, d) \<and> flights d ''g1'' = Some r \<and>
     status r = Some DROPPED \<and> drop_count r = 1 \<and> reactivation_count r = 0"
proof -
  obtain d where d: "RecordBatch sample_tx sample_batch empty_db = (None, d)"
    using sample_recorded by blast
  let ?row = "\<lambda>f. flightRow 0 0 f"
  define exs where "exs = map ?row (tl sample_batch)"
  have rows: "rowsFor sample_tx ''g1'' sample_batch = ?row (hd sample_batch) # exs"
    by (simp add: rowsFor_def sample_batch_def sample_tx_def exs_def) (simp add: sample_flight_def)
  have h: "history (the (status_time (?row (hd sample_batch)))) (reports exs) = [Some DROPPED]"
    unfolding exs_def by code_simp
  have st: "status (?row (hd sample_batch)) = Some ACTIVE" by code_simp
  obtain r where r: "flights d ''g1'' = Some r"
    using RecordBatch_effect(1) [OF d, of "''g1''"] rows track_Some by (metis track_simps(2))
  have "(case flights empty_db ''g1'' of None \<Rightarrow> [] | Some r \<Rightarrow> [r]) @ rowsFor sample_tx ''g1'' sample_batch
      = ?row (hd sample_batch) # exs"
    by (simp add: rows empty_db_def)
  moreover have "status_time (?row (hd sample_batch)) = Some (the (status_time (?row (hd sample_batch))))"
    by simp
  ultimately show ?thesis
    using status_history_refined [OF d r, of "?row (hd sample_batch)" exs] d r h st
    by (simp add: ACTIVE_def DROPPED_def del: flightRow_fields(5))
qed

text \<open>
  The order in which Go iterates over the airport map does not show: whatever it is, an airport
  ends with the coordinates it had, completed by the first usable coordinates of the batch.
\<close>

theorem airports_any_order:
  assumes "RecordBatch env fs d = (None, d')"
    and "mset (iter env (collectAirports fs)) = mset (collectAirports fs)"
  shows "airports d' c = (case map_of (collectAirports fs) c of
      None \<Rightarrow> airports d c
    | Some x \<Rightarrow> Some (case airports d c of
          None \<Rightarrow> \<lparr>ap_lat = nfloat (coord_Lat x) (coord_OK x), ap_lon = nfloat (coord_Lon x) (coord_OK x)\<rparr>
        | Some r \<Rightarrow> \<lparr>ap_lat = coalesce (ap_lat r) (nfloat (coord_Lat x) (coord_OK x)),
                    ap_lon = coalesce (ap_lon r) (nfloat (coord_Lon x) (coord_OK x))\<rparr>))"
  using RecordBatch_airports [OF assms, of c]
  by (simp add: ap_merge_def coord_args_def split: option.splits)

theorem airports_any_order_witness:
  "\<exists>d. RecordBatch sample_tx sample_batch empty_db = (None, d) \<and>
     airports d ''KJFK'' = Some \<lparr>ap_lat = Some 40, ap_lon = Some (-73)\<rparr>"
proof -
  obtain d where d: "RecordBatch sample_tx sample_batch empty_db = (None, d)"
    using sample_recorded by blast
  have "map_of (collectAirports sample_batch) ''KJFK'' = Some \<lparr>coord_Lat = 40, coord_Lon = -73, coord_OK = True\<rparr>"
    by code_simp
  then show ?thesis
    using airports_any_order [OF d sample_iter, of "''KJFK''"] d by (simp add: empty_db_def nfloat_def)
qed

text \<open>
  Replaying a recorded batch changes no call sign and no registration, but it is not
  idempotent: every position of the batch is stored a second time.
\<close>

theorem replay_duplicates_positions:
  assumes "RecordBatch env fs d = (None, d')" "RecordBatch env fs d' = (None, d'')"
    and "flights d' g = Some r'" "flights d'' g = Some r''" "rowsFor env g fs \<noteq> []"
  shows "positions d'' = positions d @ positionsFor env fs @ positionsFor env fs \<and>
     call_sign r'' = call_sign r' \<and> registration r'' = registration r'"
proof -
  let ?old = "case flights d g of None \<Rightarrow> [] | Some r \<Rightarrow> [r]"
  have t: "track (tx_now env) (rowsFor env g fs) (flights d g) = Some r'"
    "track (tx_now env) (rowsFor env g fs) (Some r') = Some r''"
    using RecordBatch_effect(1) [OF assms(1), of g] RecordBatch_effect(1) [OF assms(2), of g] assms(3,4) by simp_all
  have old: "(case flights d g of None \<Rightarrow> rowsFor env g fs | Some r \<Rightarrow> r # rowsFor env g fs)
      = ?old @ rowsFor env g fs"
    by (simp split: option.split)
  have "call_sign r'' = call_sign r'"
    using c1.track_col [OF t(2)] c1.track_col_new [OF t(1)] old
      first_known_again [of "map call_sign ?old" "map call_sign (rowsFor env g fs)"] by simp
  moreover have "registration r'' = registration r'"
    using c2.track_col [OF t(2)] c2.track_col_new [OF t(1)] old
      first_known_again [of "map registration ?old" "map registration (rowsFor env g fs)"] by simp
  ultimately show ?thesis
    using RecordBatch_effect(2) [OF assms(1)] RecordBatch_effect(2) [OF assms(2)] by simp
qed

theorem replay_duplicates_positions_witness:
  "\<exists>d d'. RecordBatch sample_tx sample_batch empty_db = (None, d) \<and>
     RecordBatch sample_tx sample_batch d = (None, d') \<and> length (positions d) = 1 \<and> length (positions d') = 2"
proof -
  define d where "d = snd (RecordBatch sample_tx sample_batch empty_db)"
  define d' where "d' = snd (RecordBatch sample_tx sample_batch d)"
  have r: "RecordBatch sample_tx sample_batch empty_db = (None, d)"
    using sample_recorded by (auto simp: d_def)
  have "fst (RecordBatch sample_tx sample_batch d) = None"
    unfolding d_def by code_simp
  then have r': "RecordBatch sample_tx sample_batch d = (None, d')"
    unfolding d'_def by (metis prod.collapse)
  have rows: "rowsFor sample_tx ''g1'' sample_batch \<noteq> []" by code_simp
  obtain x where x: "flights d ''g1'' = Some x"
    using RecordBatch_effect(1) [OF r, of "''g1''"] rows track_Some
    by (metis neq_Nil_conv track_simps(2))
  obtain y where y: "flights d' ''g1'' = Some y"
    using RecordBatch_effect(1) [OF r', of "''g1''"] x track_Some by metis
  have "length (positionsFor sample_tx sample_batch) = 1" by code_simp
  then show ?thesis
    using replay_duplicates_positions [OF r r' x y rows] RecordBatch_effect(2) [OF r] r r'
    by (intro exI [of _ d] exI [of _ d']) (simp add: empty_db_def)
qed

text \<open>
  A batch with a zero byte in the identifier of a flight is never recorded, whatever the
  environment does and whatever the database holds: every attempt fails and changes nothing.
\<close>

theorem zero_byte_never_recorded:
  assumes "f \<in> set fs" "CHR 0x00 \<in> set (fl_Gufi f)"
  shows "\<exists>e. RecordBatch env fs d = (Some e, d)"
  using assms by (rule zero_byte_fails)

theorem zero_byte_never_recorded_witness:
  "\<exists>e. RecordBatch sample_tx [sample_flight [CHR 0x00] [] [] [] False] empty_db = (Some e, empty_db)"
  by (rule zero_byte_never_recorded [of "sample_flight [CHR 0x00] [] [] [] False"]) (simp_all add: sample_flight_def)

end
