(* ===== verification/Db_Pipeline.thy ===== *)
theory Db_Pipeline
  imports Db_Properties
begin

text \<open>
  database-writer/internal/pipeline/pipeline.go: read a batch, parse its messages, write the
  flights in one transaction, retried until it succeeds, and commit the last offset.
\<close>

section \<open>State\<close>

record db_Pipeline =
  db_batchSize :: int
  db_flushTimeout :: duration

definition db_New :: "int \<Rightarrow> duration \<Rightarrow> db_Pipeline" where
  "db_New n flush = \<lparr>db_batchSize = n, db_flushTimeout = flush\<rparr>"

record db_Stats =
  dsMessages :: int64
  dsBytesRead :: int64
  dsParseErrors :: int64
  dsSkipped :: int64
  dsRecorded :: int64
  dsPositions :: int64

definition db_NewStats :: db_Stats where
  "db_NewStats = \<lparr>dsMessages = 0, dsBytesRead = 0, dsParseErrors = 0, dsSkipped = 0, dsRecorded = 0, dsPositions = 0\<rparr>"

record db_Prom =
  dpMessages :: nat
  dpRecorded :: nat
  dpPositions :: nat
  dpSkipped :: nat
  dpParseErrors :: nat
  dpDLQPublished :: nat
  dpBatchWriteErrors :: nat

definition db_zeroProm :: db_Prom where
  "db_zeroProm = \<lparr>dpMessages = 0, dpRecorded = 0, dpPositions = 0, dpSkipped = 0, dpParseErrors = 0,
     dpDLQPublished = 0, dpBatchWriteErrors = 0\<rparr>"

text \<open>The calls the pipeline makes: a dead letter, a transaction and a commit, with results.\<close>

datatype 'f db_event =
    DbDead kmsg "unmarshal_error Envelope option" bool
  | DbWrite "'f Flight list" "db_error err"
  | DbCommit "kmsg list" kmsg bool

record 'f db_acc =
  db_stats :: db_Stats
  db_prom :: db_Prom
  db_log :: "'f db_event list"

definition db_zeroAcc :: "'f db_acc" where
  "db_zeroAcc = \<lparr>db_stats = db_NewStats, db_prom = db_zeroProm, db_log = []\<rparr>"

text \<open>The clock and the broker's answer when a message is dead-lettered.\<close>

type_synonym dlq_env = "kmsg \<Rightarrow> gotime \<times> bool"

section \<open>Operations\<close>

definition db_deadLetter :: "dlq_env \<Rightarrow> kmsg \<Rightarrow> unmarshal_error \<Rightarrow> 'f db_acc \<Rightarrow> 'f db_acc" where
  "db_deadLetter denv msg cause a =
     (case dlq_Publish (fst (denv msg)) (snd (denv msg)) msg ''database-writer'' ''poison'' cause of
        (Some err, sent) \<Rightarrow> a\<lparr>db_log := db_log a @ [DbDead msg sent False]\<rparr>
      | (None, sent) \<Rightarrow> a\<lparr>db_log := db_log a @ [DbDead msg sent True],
          db_prom := (db_prom a)\<lparr>dpDLQPublished := dpDLQPublished (db_prom a) + 1\<rparr>\<rparr>)"

text \<open>The body of the loop over the batch; the second component is \<^verbatim>\<open>flights\<close>.\<close>

definition db_message :: "'f float64 \<Rightarrow> dlq_env \<Rightarrow> kmsg \<Rightarrow> 'f db_acc \<times> 'f Flight list \<Rightarrow>
    'f db_acc \<times> 'f Flight list" where
  "db_message F denv msg = (\<lambda>(a0, fs).
     (let a = a0\<lparr>
            db_stats := (db_stats a0)\<lparr>dsMessages := dsMessages (db_stats a0) + 1,
              dsBytesRead := dsBytesRead (db_stats a0) + of_nat (length (Value msg))\<rparr>,
            db_prom := (db_prom a0)\<lparr>dpMessages := dpMessages (db_prom a0) + 1\<rparr>\<rparr>
      in case db_Parse F (Value msg) of
           Inl err \<Rightarrow>
             (db_deadLetter denv msg err (a\<lparr>
                db_stats := (db_stats a)\<lparr>dsParseErrors := dsParseErrors (db_stats a) + 1\<rparr>,
                db_prom := (db_prom a)\<lparr>dpParseErrors := dpParseErrors (db_prom a) + 1\<rparr>\<rparr>), fs)
         | Inr f \<Rightarrow>
             if fl_Gufi f = [] then
               (a\<lparr>db_stats := (db_stats a)\<lparr>dsSkipped := dsSkipped (db_stats a) + 1\<rparr>,
                  db_prom := (db_prom a)\<lparr>dpSkipped := dpSkipped (db_prom a) + 1\<rparr>\<rparr>, fs)
             else (a, fs @ [f])))"

definition db_parseBatch :: "'f float64 \<Rightarrow> dlq_env \<Rightarrow> kmsg list \<Rightarrow> 'f db_acc \<Rightarrow> 'f db_acc \<times> 'f Flight list" where
  "db_parseBatch F denv batch a = fold (db_message F denv) batch (a, [])"

definition db_countRecorded :: "'f Flight \<Rightarrow> 'f db_acc \<Rightarrow> 'f db_acc" where
  "db_countRecorded f a =
     (let a = a\<lparr>db_stats := (db_stats a)\<lparr>dsRecorded := dsRecorded (db_stats a) + 1\<rparr>,
                db_prom := (db_prom a)\<lparr>dpRecorded := dpRecorded (db_prom a) + 1\<rparr>\<rparr>
      in if HasPosition f
         then a\<lparr>db_stats := (db_stats a)\<lparr>dsPositions := dsPositions (db_stats a) + 1\<rparr>,
                db_prom := (db_prom a)\<lparr>dpPositions := dpPositions (db_prom a) + 1\<rparr>\<rparr>
         else a)"

definition db_commit :: "bool \<Rightarrow> kmsg list \<Rightarrow> 'f db_acc \<Rightarrow> 'f db_acc" where
  "db_commit ok batch a = a\<lparr>db_log := db_log a @ [DbCommit batch (last batch) ok]\<rparr>"

definition db_written :: "'f Flight list \<Rightarrow> db_error err \<Rightarrow> 'f db_acc \<Rightarrow> 'f db_acc" where
  "db_written fs res a = a\<lparr>db_log := db_log a @ [DbWrite fs res]\<rparr>"

definition db_writeError :: "'f db_acc \<Rightarrow> 'f db_acc" where
  "db_writeError a = a\<lparr>db_prom := (db_prom a)\<lparr>dpBatchWriteErrors := dpBatchWriteErrors (db_prom a) + 1\<rparr>\<rparr>"

function db_fill :: "'c fetcher \<Rightarrow> int \<Rightarrow> kmsg list \<Rightarrow> 'c \<Rightarrow> kmsg list \<times> 'c" where
  "db_fill fetch n batch c =
     (if int (length batch) < n
      then (case fetch FlushCtx c of
              (Inl err, c') \<Rightarrow> (batch, c')
            | (Inr msg, c') \<Rightarrow> db_fill fetch n (batch @ [msg]) c')
      else (batch, c))"
  by pat_completeness auto
termination
  by (relation "measure (\<lambda>(fetch, n, batch, c). nat (n - int (length batch)))") auto

declare db_fill.simps [simp del]

text \<open>\<^verbatim>\<open>make\<close> with a negative capacity panics.\<close>

datatype go_panic = MakeSliceCap

definition db_readBatch :: "db_Pipeline \<Rightarrow> 'c fetcher \<Rightarrow> 'c \<Rightarrow> go_panic + (kmsg list \<times> 'c)" where
  "db_readBatch p fetch c =
     (if db_batchSize p < 0 then Inl MakeSliceCap
      else (case fetch RunCtx c of
              (Inl err, c') \<Rightarrow> Inr ([], c')
            | (Inr msg, c') \<Rightarrow> Inr (db_fill fetch (db_batchSize p) [msg] c')))"

section \<open>The loop\<close>

datatype 'f db_phase =
    DbReading
  | DbWriting "kmsg list" "'f Flight list"
  | DbReturned
  | DbPanicked go_panic

record ('c, 'f) db_run =
  db_consumer :: 'c
  db_state :: "'f db"
  db_acc_of :: "'f db_acc"
  nextLog :: int64
  db_phase :: "'f db_phase"

definition db_initial :: "'f db \<Rightarrow> 'c \<Rightarrow> ('c, 'f) db_run" where
  "db_initial d c = \<lparr>db_consumer = c, db_state = d, db_acc_of = db_zeroAcc, nextLog = 5000, db_phase = DbReading\<rparr>"

text \<open>A Go map is iterated over once per entry, in any order.\<close>

definition visits_all :: "'f tx_env \<Rightarrow> bool" where
  "visits_all env \<longleftrightarrow> (\<forall>m. mset (iter env m) = mset m)"

inductive db_step :: "'f float64 \<Rightarrow> db_Pipeline \<Rightarrow> 'c fetcher \<Rightarrow> ('c, 'f) db_run \<Rightarrow> ('c, 'f) db_run \<Rightarrow> bool"
  for F p fetch where
  db_panic: "\<lbrakk>db_phase r = DbReading; db_readBatch p fetch (db_consumer r) = Inl pn\<rbrakk>
    \<Longrightarrow> db_step F p fetch r (r\<lparr>db_phase := DbPanicked pn\<rparr>)"
| db_none_done: "\<lbrakk>db_phase r = DbReading; db_readBatch p fetch (db_consumer r) = Inr ([], c')\<rbrakk>
    \<Longrightarrow> db_step F p fetch r (r\<lparr>db_consumer := c', db_phase := DbReturned\<rparr>)"
| db_none: "\<lbrakk>db_phase r = DbReading; db_readBatch p fetch (db_consumer r) = Inr ([], c')\<rbrakk>
    \<Longrightarrow> db_step F p fetch r (r\<lparr>db_consumer := c'\<rparr>)"
| db_read: "\<lbrakk>db_phase r = DbReading; db_readBatch p fetch (db_consumer r) = Inr (batch, c'); batch \<noteq> [];
      db_parseBatch F denv batch (db_acc_of r) = (a, fs)\<rbrakk>
    \<Longrightarrow> db_step F p fetch r (r\<lparr>db_consumer := c', db_acc_of := a, db_phase := DbWriting batch fs\<rparr>)"
| db_write_abort: "\<lbrakk>db_phase r = DbWriting batch fs; visits_all env; RecordBatch env fs (db_state r) = (Some e, d')\<rbrakk>
    \<Longrightarrow> db_step F p fetch r (r\<lparr>db_state := d', db_acc_of := db_written fs (Some e) (db_acc_of r),
          db_phase := DbReturned\<rparr>)"
| db_write_retry: "\<lbrakk>db_phase r = DbWriting batch fs; visits_all env; RecordBatch env fs (db_state r) = (Some e, d')\<rbrakk>
    \<Longrightarrow> db_step F p fetch r (r\<lparr>db_state := d',
          db_acc_of := db_writeError (db_written fs (Some e) (db_acc_of r))\<rparr>)"
| db_write_done: "\<lbrakk>db_phase r = DbWriting batch fs; visits_all env; RecordBatch env fs (db_state r) = (None, d');
      a = db_commit ok batch (fold db_countRecorded fs (db_written fs None (db_acc_of r)))\<rbrakk>
    \<Longrightarrow> db_step F p fetch r (r\<lparr>db_state := d', db_acc_of := a, db_phase := DbReading,
          nextLog := (if sint (nextLog r) \<le> sint (dsMessages (db_stats a)) then nextLog r + 5000 else nextLog r)\<rparr>)"

inductive_cases db_stepE: "db_step F p fetch r r'"

definition db_reachable :: "'f float64 \<Rightarrow> db_Pipeline \<Rightarrow> 'c fetcher \<Rightarrow> ('c, 'f) db_run \<Rightarrow> ('c, 'f) db_run \<Rightarrow> bool" where
  "db_reachable F p fetch = (db_step F p fetch)\<^sup>*\<^sup>*"

section \<open>What a batch turns into\<close>

interpretation dbf: batch_filler db_fill
  by unfold_locales (subst db_fill.simps, simp)+

lemma db_readBatch_Inr:
  assumes "db_readBatch p fetch c = Inr (b, c')"
  shows "int (length b) \<le> max 1 (db_batchSize p)"
    and "in_order fetch pending \<Longrightarrow> pending c = b @ pending c'"
proof -
  have "int (length b) \<le> max 1 (db_batchSize p) \<and> (in_order fetch pending \<longrightarrow> pending c = b @ pending c')"
  proof (cases "fetch RunCtx c")
    case (Pair res c1)
    show ?thesis
    proof (cases res)
      case (Inl e)
      then show ?thesis
        using assms Pair
        by (auto simp: db_readBatch_def in_order_def split: if_splits dest!: spec [of _ RunCtx] spec [of _ c])
    next
      case (Inr m)
      then have fill: "db_fill fetch (db_batchSize p) [m] c1 = (b, c')"
        using assms Pair by (auto simp: db_readBatch_def split: if_splits)
      show ?thesis
        using dbf.fill_first(1) [OF fill] dbf.fill_first(2) [OF fill, of pending] Pair Inr
        by (auto simp: in_order_def dest!: spec [of _ RunCtx] spec [of _ c])
    qed
  qed
  then show "int (length b) \<le> max 1 (db_batchSize p)"
    and "in_order fetch pending \<Longrightarrow> pending c = b @ pending c'" by simp_all
qed

definition poison :: "'f float64 \<Rightarrow> kmsg \<Rightarrow> bool" where
  "poison F m \<longleftrightarrow> isl (db_Parse F (Value m))"

definition storable1 :: "'f float64 \<Rightarrow> kmsg \<Rightarrow> 'f Flight list" where
  "storable1 F m = (case db_Parse F (Value m) of Inl _ \<Rightarrow> [] | Inr f \<Rightarrow> if fl_Gufi f = [] then [] else [f])"

text \<open>The flights of a batch that are written: those that parse and have a GUFI, in order.\<close>

definition storable :: "'f float64 \<Rightarrow> kmsg list \<Rightarrow> 'f Flight list" where
  "storable F batch = concat (map (storable1 F) batch)"

fun dead_of :: "'f db_event \<Rightarrow> kmsg list" where
  "dead_of (DbDead m sent ok) = [m]"
| "dead_of _ = []"

lemma db_message_effect:
  "\<exists>a'. db_message F denv m (a, fs) = (a', fs @ storable1 F m) \<and>
     (\<exists>es. db_log a' = db_log a @ es \<and> concat (map dead_of es) = (if poison F m then [m] else []) \<and>
        (\<forall>e \<in> set es. dead_of e \<noteq> []))"
  by (auto simp: db_message_def db_deadLetter_def storable1_def poison_def Let_def
      split: sum.split prod.split option.split)

lemma db_parseBatch_fold:
  "\<exists>a' es. fold (db_message F denv) batch (a, fs) = (a', fs @ storable F batch) \<and>
     db_log a' = db_log a @ es \<and> concat (map dead_of es) = filter (poison F) batch \<and>
     (\<forall>e \<in> set es. dead_of e \<noteq> [])"
proof (induction batch arbitrary: a fs)
  case (Cons m ms)
  obtain a1 es1 where 1: "db_message F denv m (a, fs) = (a1, fs @ storable1 F m)"
    "db_log a1 = db_log a @ es1" "concat (map dead_of es1) = (if poison F m then [m] else [])"
    "\<forall>e \<in> set es1. dead_of e \<noteq> []"
    using db_message_effect [of F denv m a fs] by blast
  obtain a2 es2 where 2: "fold (db_message F denv) ms (a1, fs @ storable1 F m) = (a2, (fs @ storable1 F m) @ storable F ms)"
    "db_log a2 = db_log a1 @ es2" "concat (map dead_of es2) = filter (poison F) ms" "\<forall>e \<in> set es2. dead_of e \<noteq> []"
    using Cons.IH by blast
  show ?case
    by (intro exI [of _ a2] exI [of _ "es1 @ es2"]) (use 1 2 in \<open>auto simp: storable_def\<close>)
qed (simp add: storable_def)

lemma db_parseBatch_effect:
  assumes "db_parseBatch F denv batch a = (a', fs)"
  shows "fs = storable F batch"
    and "\<exists>es. db_log a' = db_log a @ es \<and> concat (map dead_of es) = filter (poison F) batch \<and>
       (\<forall>e \<in> set es. dead_of e \<noteq> [])"
  using db_parseBatch_fold [of F denv batch a "[]"] assms by (auto simp: db_parseBatch_def)

section \<open>Counters\<close>

text \<open>With \<open>n\<close> flights parsed and not yet written, every message is accounted for, and the 64-bit
  statistics are the counts modulo the word size.\<close>

definition db_balanced :: "nat \<Rightarrow> 'f db_acc \<Rightarrow> bool" where
  "db_balanced n a \<longleftrightarrow>
     dpMessages (db_prom a) = dpParseErrors (db_prom a) + dpSkipped (db_prom a) + dpRecorded (db_prom a) + n \<and>
     dsMessages (db_stats a) = of_nat (dpMessages (db_prom a)) \<and>
     dsParseErrors (db_stats a) = of_nat (dpParseErrors (db_prom a)) \<and>
     dsSkipped (db_stats a) = of_nat (dpSkipped (db_prom a)) \<and>
     dsRecorded (db_stats a) = of_nat (dpRecorded (db_prom a)) \<and>
     dsPositions (db_stats a) = of_nat (dpPositions (db_prom a))"

lemma db_balanced_message:
  "db_balanced (length fs) a \<Longrightarrow> db_message F denv m (a, fs) = (a', fs') \<Longrightarrow> db_balanced (length fs') a'"
  by (auto simp: db_message_def db_deadLetter_def db_balanced_def Let_def
      split: sum.splits prod.splits option.splits if_splits)

lemma db_balanced_batch:
  "db_balanced (length fs) a \<Longrightarrow> fold (db_message F denv) batch (a, fs) = (a', fs') \<Longrightarrow>
     db_balanced (length fs') a'"
proof (induction batch arbitrary: a fs)
  case (Cons m ms)
  obtain a1 fs1 where 1: "db_message F denv m (a, fs) = (a1, fs1)" by fastforce
  show ?case
    using Cons.IH [of fs1 a1] Cons.prems db_balanced_message [OF Cons.prems(1) 1] 1 by simp
qed simp

lemma db_balanced_recorded: "db_balanced (length fs) a \<Longrightarrow> db_balanced 0 (fold db_countRecorded fs a)"
proof (induction fs arbitrary: a)
  case (Cons f fs)
  then have "db_balanced (length fs) (db_countRecorded f a)"
    by (auto simp: db_balanced_def db_countRecorded_def Let_def)
  then show ?case using Cons.IH by simp
qed simp

lemma db_log_countRecorded [simp]: "db_log (fold db_countRecorded fs a) = db_log a"
proof (induction fs arbitrary: a)
  case (Cons f fs)
  have "db_log (db_countRecorded f a) = db_log a"
    by (simp add: db_countRecorded_def Let_def)
  then show ?case using Cons.IH by simp
qed simp

lemma db_balanced_log [simp]:
  "db_balanced n (db_written fs res a) = db_balanced n a"
  "db_balanced n (db_commit ok b a) = db_balanced n a"
  "db_balanced n (db_writeError a) = db_balanced n a"
  by (simp_all add: db_balanced_def db_written_def db_commit_def db_writeError_def)

lemma db_log_simps [simp]:
  "db_log (db_written fs res a) = db_log a @ [DbWrite fs res]"
  "db_log (db_commit ok b a) = db_log a @ [DbCommit b (last b) ok]"
  "db_log (db_writeError a) = db_log a"
  by (simp_all add: db_written_def db_commit_def db_writeError_def)

section \<open>Invariant of the loop\<close>

text \<open>What the log ends in while a batch is being written: its dead letters, then failed attempts
  to write exactly its flights.\<close>

definition attempts :: "'f float64 \<Rightarrow> kmsg list \<Rightarrow> 'f db_event list \<Rightarrow> bool" where
  "attempts F batch l \<longleftrightarrow> batch \<noteq> [] \<and> (\<exists>l0 es ws. l = l0 @ es @ ws \<and>
     concat (map dead_of es) = filter (poison F) batch \<and>
     (\<forall>w \<in> set ws. \<exists>e. w = DbWrite (storable F batch) (Some e)))"

lemma attempts_fail:
  assumes "attempts F batch l"
  shows "attempts F batch (l @ [DbWrite (storable F batch) (Some e)])"
proof -
  obtain l0 es ws where "l = l0 @ es @ ws" "concat (map dead_of es) = filter (poison F) batch"
    "\<forall>w \<in> set ws. \<exists>e. w = DbWrite (storable F batch) (Some e)" "batch \<noteq> []"
    using assms by (auto simp: attempts_def)
  then show ?thesis
    unfolding attempts_def
    by (intro conjI exI [of _ l0] exI [of _ es] exI [of _ "ws @ [DbWrite (storable F batch) (Some e)]"]) auto
qed

definition db_closes :: "'f float64 \<Rightarrow> 'f db_event list \<Rightarrow> 'f db_event \<Rightarrow> bool" where
  "db_closes F l e \<longleftrightarrow> (\<forall>batch m ok. e = DbCommit batch m ok \<longrightarrow>
     m = last batch \<and> (\<exists>l0. l = l0 @ [DbWrite (storable F batch) None] \<and> attempts F batch l0))"

fun db_phase_inv :: "'f float64 \<Rightarrow> 'f db_acc \<Rightarrow> 'f db_phase \<Rightarrow> bool" where
  "db_phase_inv F a (DbWriting batch fs) \<longleftrightarrow>
     fs = storable F batch \<and> attempts F batch (db_log a) \<and> db_balanced (length fs) a"
| "db_phase_inv F a DbReturned \<longleftrightarrow> True"
| "db_phase_inv F a _ \<longleftrightarrow> db_balanced 0 a"

definition db_inv :: "'f float64 \<Rightarrow> ('c, 'f) db_run \<Rightarrow> bool" where
  "db_inv F r \<longleftrightarrow> fk_ok (db_state r) \<and> db_phase_inv F (db_acc_of r) (db_phase r) \<and>
     every_prefix (db_closes F) (db_log (db_acc_of r))"

lemma RecordBatch_fk: "fk_ok d \<Longrightarrow> RecordBatch env fs d = (res, d') \<Longrightarrow> fk_ok d'"
  using RecordBatch_db [of env fs d] fk_ok_exec_all by (metis snd_conv)

lemma db_inv_step:
  assumes "db_step F p fetch r r'" "db_inv F r"
  shows "db_inv F r'"
  using assms
proof (cases rule: db_step.cases)
  case (db_read batch c' denv a fs)
  note pb = db_parseBatch_effect [OF db_read(5)]
  obtain es where es: "db_log a = db_log (db_acc_of r) @ es" "concat (map dead_of es) = filter (poison F) batch"
    "\<forall>e \<in> set es. dead_of e \<noteq> []"
    using pb(2) by blast
  have "db_balanced (length fs) a"
    using db_balanced_batch [of "[]" "db_acc_of r" F denv batch a fs] assms(2) db_read
    by (simp add: db_inv_def db_parseBatch_def)
  moreover have "attempts F batch (db_log a)"
    unfolding attempts_def es(1) using db_read(4) es(2)
    by (intro conjI exI [of _ "db_log (db_acc_of r)"] exI [of _ es] exI [of _ "[]"]) auto
  moreover have "every_prefix (\<lambda>l1. db_closes F (db_log (db_acc_of r) @ l1)) es"
    using es(3) by (intro every_prefix_trivial) (auto simp: db_closes_def)
  ultimately show ?thesis
    using assms(2) db_read pb(1) by (simp add: db_inv_def es(1) every_prefix_append)
next
  case (db_write_done batch fs env d' a ok)
  then show ?thesis
    using assms(2) RecordBatch_fk [OF _ db_write_done(4)]
      db_balanced_recorded [of fs "db_written fs None (db_acc_of r)"]
    by (auto simp: db_inv_def db_closes_def every_prefix_append every_prefix_Cons)
next
  case (db_write_abort batch fs env e d')
  then show ?thesis
    using assms(2) RecordBatch_fk [OF _ db_write_abort(4)] by (auto simp: db_inv_def db_closes_def)
next
  case (db_write_retry batch fs env e d')
  then show ?thesis
    using assms(2) RecordBatch_fk [OF _ db_write_retry(4)] attempts_fail
    by (auto simp: db_inv_def db_closes_def)
qed (auto simp: db_inv_def)

lemma db_inv_reachable: "db_reachable F p fetch r r' \<Longrightarrow> db_inv F r \<Longrightarrow> db_inv F r'"
  unfolding db_reachable_def by (induction rule: rtranclp_induct) (auto intro: db_inv_step)

lemma db_inv_initial [inv_intros]: "fk_ok d \<Longrightarrow> db_inv F (db_initial d c)"
  by (simp add: db_inv_def db_initial_def db_zeroAcc_def db_balanced_def db_NewStats_def db_zeroProm_def)

lemma db_stuck:
  assumes "db_reachable F p fetch r r'" "db_phase r = DbWriting batch fs"
    and nul: "f \<in> set fs" "CHR 0x00 \<in> set (fl_Gufi f)"
  shows "db_phase r' \<in> {DbWriting batch fs, DbReturned} \<and> db_state r' = db_state r \<and>
     (\<exists>ws. db_log (db_acc_of r') = db_log (db_acc_of r) @ ws \<and> (\<forall>w \<in> set ws. \<exists>e. w = DbWrite fs (Some e)))"
  using assms(1) unfolding db_reachable_def
proof (induction rule: rtranclp_induct)
  case (step r1 r2)
  obtain ws where ws: "db_log (db_acc_of r1) = db_log (db_acc_of r) @ ws" "\<forall>w \<in> set ws. \<exists>e. w = DbWrite fs (Some e)"
    using step.IH by blast
  have ext: "\<exists>ws'. db_log (db_acc_of r) @ ws @ [DbWrite fs (Some e)] = db_log (db_acc_of r) @ ws' \<and>
      (\<forall>w \<in> set ws'. \<exists>e. w = DbWrite fs (Some e))" for e
    using ws(2) by (intro exI [of _ "ws @ [DbWrite fs (Some e)]"]) auto
  have "\<exists>e. RecordBatch env fs d = (Some e, d)" for env d
    by (rule zero_byte_fails [OF nul])
  then have fails: "RecordBatch env fs d = (res, d') \<Longrightarrow> res \<noteq> None \<and> d' = d" for env d res d'
    by (metis option.distinct(1) prod.inject)
  from step.hyps(2) show ?case
    by (cases rule: db_step.cases) (use step.IH ws ext in \<open>auto dest: fails\<close>)
qed (use assms(2) in simp)

section \<open>A concrete run\<close>

definition good_payload :: bytes where
  "good_payload = ''{\"flight\":{\"gufi\":{\"code\":\"g1\"}}}''"

definition demo_batch :: "kmsg list" where
  "demo_batch = [\<lparr>Topic = ''fixm.filtered'', Partition = 0, Offset = 1, Value = good_payload\<rparr>,
     \<lparr>Topic = ''fixm.filtered'', Partition = 0, Offset = 2, Value = ''{''\<rparr>]"

definition all_fetch :: "kmsg list fetcher" where
  "all_fetch x c = (case c of [] \<Rightarrow> (Inl DeadlineExceeded, []) | m # ms \<Rightarrow> (Inr m, ms))"

lemma demo_parsed:
  "db_Parse int_floats good_payload = Inr (flight_of int_floats (case Unmarshal db_element good_payload of Inr v \<Rightarrow> v))"
  "fl_Gufi (flight_of int_floats (case Unmarshal db_element good_payload of Inr v \<Rightarrow> v)) = ''g1''"
  "isl (db_Parse int_floats ''{'')"
  by code_simp+

lemma demo_storable:
  "\<exists>f. storable int_floats demo_batch = [f] \<and> fl_Gufi f = ''g1''"
  using demo_parsed by (auto simp: storable_def storable1_def demo_batch_def split: sum.splits)

lemma demo_recorded: "\<exists>d. RecordBatch sample_tx (storable int_floats demo_batch) empty_db = (None, d)"
proof -
  have "fst (RecordBatch sample_tx (storable int_floats demo_batch) empty_db) = None"
    by code_simp
  then show ?thesis by (metis prod.collapse)
qed

lemma demo_db_run:
  "\<exists>r l. db_reachable int_floats (db_New 10 0) all_fetch (db_initial empty_db demo_batch) r \<and>
     db_log (db_acc_of r) = l @ [DbCommit demo_batch (last demo_batch) True]"
proof -
  let ?r0 = "db_initial empty_db demo_batch"
  let ?step = "db_step int_floats (db_New 10 0) all_fetch"
  have rd: "db_readBatch (db_New 10 0) all_fetch demo_batch = Inr (demo_batch, [])"
    by (simp add: db_readBatch_def db_New_def all_fetch_def demo_batch_def db_fill.simps)
  obtain a where pb: "db_parseBatch int_floats (\<lambda>_. (0, True)) demo_batch db_zeroAcc
      = (a, storable int_floats demo_batch)"
    using db_parseBatch_effect(1) by (metis prod.collapse)
  obtain d where d: "RecordBatch sample_tx (storable int_floats demo_batch) empty_db = (None, d)"
    using demo_recorded by blast
  let ?r1 = "?r0\<lparr>db_consumer := [], db_acc_of := a, db_phase := DbWriting demo_batch (storable int_floats demo_batch)\<rparr>"
  have 1: "?step ?r0 ?r1"
    using rd pb by (intro db_step.db_read) (auto simp: db_initial_def demo_batch_def)
  have vis: "visits_all sample_tx"
    by (simp add: visits_all_def sample_iter)
  have ph: "db_phase ?r1 = DbWriting demo_batch (storable int_floats demo_batch)"
    and d1: "RecordBatch sample_tx (storable int_floats demo_batch) (db_state ?r1) = (None, d)"
    using d by (simp_all add: db_initial_def)
  note step = db_step.db_write_done [OF ph vis d1 refl, of int_floats "db_New 10 0" all_fetch True]
  obtain r2 where 2: "?step ?r1 r2"
    "db_acc_of r2 = db_commit True demo_batch (fold db_countRecorded (storable int_floats demo_batch)
       (db_written (storable int_floats demo_batch) None (db_acc_of ?r1)))"
    by (rule that [OF step]) simp
  then have "db_reachable int_floats (db_New 10 0) all_fetch ?r0 r2"
    unfolding db_reachable_def using 1 by (meson converse_rtranclp_into_rtranclp r_into_rtranclp)
  with 2 show ?thesis by auto
qed

section \<open>Properties\<close>

text \<open>
  C13: an offset is committed only after the transaction with exactly the flights of its batch (the
  messages that parse and have a GUFI, in order) succeeded, and after a dead letter was attempted
  for exactly the messages that do not parse; nothing but failed attempts of the same transaction
  lies between.
\<close>

theorem commit_after_durable_write:
  assumes "fk_ok d" "db_reachable F p fetch (db_initial d c) r"
    and "db_log (db_acc_of r) = l1 @ DbCommit batch m ok # l2"
  shows "m = last batch \<and> batch \<noteq> [] \<and> (\<exists>l0 es ws. l1 = l0 @ es @ ws @ [DbWrite (storable F batch) None] \<and>
     concat (map dead_of es) = filter (poison F) batch \<and>
     (\<forall>w \<in> set ws. \<exists>e. w = DbWrite (storable F batch) (Some e)))"
proof -
  have "every_prefix (db_closes F) (db_log (db_acc_of r))"
    using db_inv_reachable [OF assms(2) db_inv_initial [OF assms(1)]] by (simp add: db_inv_def)
  then have "db_closes F l1 (DbCommit batch m ok)"
    using assms(3) by (simp add: every_prefix_def)
  then obtain l0 where m: "m = last batch" and l1: "l1 = l0 @ [DbWrite (storable F batch) None]"
    and att: "attempts F batch l0"
    by (auto simp: db_closes_def)
  from att obtain l0' es ws where "l0 = l0' @ es @ ws" "concat (map dead_of es) = filter (poison F) batch"
    "\<forall>w \<in> set ws. \<exists>e. w = DbWrite (storable F batch) (Some e)" "batch \<noteq> []"
    unfolding attempts_def by blast
  with m l1 show ?thesis
    by (intro conjI exI [of _ l0'] exI [of _ es] exI [of _ ws]) auto
qed

theorem commit_after_durable_write_witness:
  "\<exists>r l. db_log (db_acc_of (r :: (kmsg list, int) db_run)) = l @ [DbCommit demo_batch (last demo_batch) True] \<and>
     (\<exists>l0 es ws. l = l0 @ es @ ws @ [DbWrite (storable int_floats demo_batch) None] \<and>
       concat (map dead_of es) = filter (poison int_floats) demo_batch)"
proof -
  obtain r l where r: "db_reachable int_floats (db_New 10 0) all_fetch (db_initial empty_db demo_batch) r"
    "db_log (db_acc_of r) = l @ [DbCommit demo_batch (last demo_batch) True]"
    using demo_db_run by blast
  show ?thesis
    using commit_after_durable_write [OF empty_fk r] r(2) by blast
qed

text \<open>
  In every reachable state outside shutdown every consumed message is accounted for: a parse
  error, skipped for want of a GUFI, recorded, or in the batch being written; the tables keep
  referential integrity throughout.
\<close>

theorem messages_accounted_for:
  assumes "fk_ok d" "db_reachable F p fetch (db_initial d c) r" "db_phase r \<noteq> DbReturned"
  shows "dpMessages (db_prom (db_acc_of r)) = dpParseErrors (db_prom (db_acc_of r))
       + dpSkipped (db_prom (db_acc_of r)) + dpRecorded (db_prom (db_acc_of r))
       + (case db_phase r of DbWriting batch fs \<Rightarrow> length fs | _ \<Rightarrow> 0) \<and>
     dsMessages (db_stats (db_acc_of r)) = of_nat (dpMessages (db_prom (db_acc_of r))) \<and>
     dsRecorded (db_stats (db_acc_of r)) = of_nat (dpRecorded (db_prom (db_acc_of r))) \<and>
     fk_ok (db_state r)"
  using db_inv_reachable [OF assms(2) db_inv_initial [OF assms(1)]] assms(3)
  by (cases "db_phase r") (auto simp: db_inv_def db_balanced_def)

theorem messages_accounted_for_witness:
  "dpMessages (db_prom (db_acc_of (db_initial empty_db demo_batch :: (kmsg list, int) db_run))) = 0 \<and>
   fk_ok (db_state (db_initial empty_db demo_batch :: (kmsg list, int) db_run))"
proof -
  have "db_reachable int_floats (db_New 10 0) all_fetch (db_initial empty_db demo_batch) (db_initial empty_db demo_batch)"
    by (simp add: db_reachable_def)
  from messages_accounted_for [OF empty_fk this] show ?thesis
    by (simp add: db_initial_def db_zeroAcc_def db_zeroProm_def)
qed

text \<open>
  A batch read from a consumer that delivers in order is exactly its next messages, at most
  \<^verbatim>\<open>batchSize\<close> of them (one when the size is 0); a negative size panics.
\<close>

theorem db_readBatch_window:
  assumes "in_order fetch pending"
  shows "case db_readBatch p fetch c of
      Inl e \<Rightarrow> db_batchSize p < 0
    | Inr (batch, c') \<Rightarrow> 0 \<le> db_batchSize p \<and> pending c = batch @ pending c' \<and>
        int (length batch) \<le> max 1 (db_batchSize p)"
proof (cases "db_readBatch p fetch c")
  case (Inl e)
  then show ?thesis
    by (auto simp: db_readBatch_def split: if_splits prod.splits sum.splits)
next
  case (Inr bc)
  obtain b c' where bc: "bc = (b, c')" by (cases bc)
  have "0 \<le> db_batchSize p"
    using Inr by (auto simp: db_readBatch_def split: if_splits)
  with db_readBatch_Inr [OF Inr [unfolded bc]] assms Inr bc show ?thesis by simp
qed

theorem db_readBatch_window_witness:
  "case db_readBatch (db_New 10 0) all_fetch demo_batch of
      Inl e \<Rightarrow> db_batchSize (db_New 10 0) < 0
    | Inr (batch, c') \<Rightarrow> 0 \<le> db_batchSize (db_New 10 0) \<and> demo_batch = batch @ c' \<and>
        int (length batch) \<le> max 1 (db_batchSize (db_New 10 0))"
  by (rule db_readBatch_window) (auto simp: in_order_def all_fetch_def split: list.split)

text \<open>
  C30: one message can stall the writer for good: once a batch with a zero byte in a GUFI is being
  written, the pipeline only ever repeats the failing transaction or shuts down; it never commits,
  never reads on, and the database never changes.
\<close>

theorem zero_byte_stalls:
  assumes "db_reachable F p fetch r r'" "db_phase r = DbWriting batch fs"
    and "f \<in> set fs" "CHR 0x00 \<in> set (fl_Gufi f)"
  shows "db_phase r' \<in> {DbWriting batch fs, DbReturned} \<and> db_state r' = db_state r \<and>
     (\<exists>ws. db_log (db_acc_of r') = db_log (db_acc_of r) @ ws \<and> (\<forall>w \<in> set ws. \<exists>e. w = DbWrite fs (Some e)))"
  using assms by (rule db_stuck)

definition nul_flight :: "int Flight" where
  "nul_flight = sample_flight [CHR 0x00] [] [] [] False"

definition nul_run :: "(kmsg list, int) db_run" where
  "nul_run = (db_initial empty_db [])\<lparr>db_phase := DbWriting demo_batch [nul_flight]\<rparr>"

theorem zero_byte_stalls_witness:
  "db_phase nul_run \<in> {DbWriting demo_batch [nul_flight], DbReturned}"
  using zero_byte_stalls [of int_floats "db_New 10 0" all_fetch nul_run nul_run demo_batch "[nul_flight]" nul_flight]
  by (simp add: db_reachable_def nul_run_def nul_flight_def sample_flight_def)

end
