(* ===== verification/Go_Marshal.thy ===== *)
theory Go_Marshal
  imports Go_Json
begin

text \<open>
  Go's \<^verbatim>\<open>json.Marshal\<close> for values of strings, slices and structs, and its round trip through the
  decoder of Go_Json.
\<close>

section \<open>Strings\<close>

text \<open>\<^verbatim>\<open>htmlSafeSet\<close>: the ASCII bytes written as they are.\<close>

definition html_safe :: "char \<Rightarrow> bool" where
  "html_safe c \<longleftrightarrow> 32 \<le> byte_val c \<and> byte_val c < 128 \<and> c \<notin> {quote_char, backslash, CHR ''&'', CHR ''<'', CHR ''>''}"

definition hex_digit :: "int \<Rightarrow> char" where
  "hex_digit n = (if n < 10 then char_of (48 + n) else char_of (87 + n))"

definition escape_char :: "char \<Rightarrow> string" where
  "escape_char c =
     (if c = quote_char \<or> c = backslash then [backslash, c]
      else if c = CHR 0x08 then [backslash, CHR ''b'']
      else if c = CHR 0x0C then [backslash, CHR ''f'']
      else if c = CHR 0x0A then [backslash, CHR ''n'']
      else if c = CHR 0x0D then [backslash, CHR ''r'']
      else if c = CHR 0x09 then [backslash, CHR ''t'']
      else [backslash, CHR ''u'', CHR ''0'', CHR ''0'', hex_digit (byte_val c div 16), hex_digit (byte_val c mod 16)])"

text \<open>\<^verbatim>\<open>appendString\<close> with HTML escaping: a byte that starts no UTF-8 sequence is written as the
  escaped replacement character, and the two line separators are escaped.\<close>

function jescape :: "string \<Rightarrow> string" where
  "jescape s =
     (case s of
        [] \<Rightarrow> []
      | c # cs \<Rightarrow>
          if byte_val c < 128 then (if html_safe c then [c] else escape_char c) @ jescape cs
          else if utf8_len s = 0 then backslash # ''ufffd'' @ jescape cs
          else if take 3 s = [CHR 0xE2, CHR 0x80, CHR 0xA8] then backslash # ''u2028'' @ jescape (drop 3 s)
          else if take 3 s = [CHR 0xE2, CHR 0x80, CHR 0xA9] then backslash # ''u2029'' @ jescape (drop 3 s)
          else take (utf8_len s) s @ jescape (drop (utf8_len s) s))"
  by pat_completeness auto
termination
  by (relation "measure length") auto

declare jescape.simps [simp del]

definition jquote :: "string \<Rightarrow> string" where
  "jquote s = quote_char # jescape s @ [quote_char]"

text \<open>The string a reader gets back: what is not UTF-8 is replaced.\<close>

function to_valid :: "string \<Rightarrow> string" where
  "to_valid s =
     (case s of
        [] \<Rightarrow> []
      | c # cs \<Rightarrow>
          if byte_val c < 128 then c # to_valid cs
          else if utf8_len s = 0 then replacement @ to_valid cs
          else take (utf8_len s) s @ to_valid (drop (utf8_len s) s))"
  by pat_completeness auto
termination
  by (relation "measure length") auto

declare to_valid.simps [simp del]

section \<open>Values\<close>

fun jprint :: "json \<Rightarrow> string"
and jp_members :: "(string \<times> json) list \<Rightarrow> string"
and jp_elems :: "json list \<Rightarrow> string" where
  "jprint JNull = ''null''"
| "jprint (JBool b) = (if b then ''true'' else ''false'')"
| "jprint (JNum n) = n"
| "jprint (JStr s) = jquote s"
| "jprint (JArr es) = (if es = [] then ''[]'' else CHR ''['' # jp_elems es)"
| "jprint (JObj ms) = (if ms = [] then ''{}'' else CHR ''{'' # jp_members ms)"
| "jp_members [] = []"
| "jp_members ((k, v) # ms) = jquote k @ CHR '':'' # jprint v @
     (if ms = [] then ''}'' else CHR '','' # jp_members ms)"
| "jp_elems [] = []"
| "jp_elems (v # vs) = jprint v @ (if vs = [] then '']'' else CHR '','' # jp_elems vs)"

section \<open>A string reads back as its valid form\<close>

lemma ascii_escapes:
  assumes "byte_val c < 128"
  shows "hex4 (CHR ''0'') (CHR ''0'') (hex_digit (byte_val c div 16)) (hex_digit (byte_val c mod 16)) = byte_val c"
    and "is_hex (hex_digit (byte_val c div 16)) \<and> is_hex (hex_digit (byte_val c mod 16))"
    and "encodeRune (byte_val c) = [c]"
proof -
  have "\<forall>c. byte_val c < 128 \<longrightarrow>
      hex4 (CHR ''0'') (CHR ''0'') (hex_digit (byte_val c div 16)) (hex_digit (byte_val c mod 16)) = byte_val c \<and>
      is_hex (hex_digit (byte_val c div 16)) \<and> is_hex (hex_digit (byte_val c mod 16)) \<and> encodeRune (byte_val c) = [c]"
    by code_simp
  then show "hex4 (CHR ''0'') (CHR ''0'') (hex_digit (byte_val c div 16)) (hex_digit (byte_val c mod 16)) = byte_val c"
    and "is_hex (hex_digit (byte_val c div 16)) \<and> is_hex (hex_digit (byte_val c mod 16))"
    and "encodeRune (byte_val c) = [c]"
    using assms by blast+
qed

lemma unquote_Nil [simp]: "unquote [] = []"
  by (simp add: unquote.simps [of "[]"])

lemma unquote_ascii: "byte_val c < 128 \<Longrightarrow> c \<noteq> backslash \<Longrightarrow> unquote (c # t) = c # unquote t"
  by (simp add: unquote.simps [of "c # t"])

lemma unquote_simple: "e \<noteq> CHR ''u'' \<Longrightarrow> unquote (backslash # e # t) = unescape e # unquote t"
  by (simp add: unquote.simps [of "backslash # e # t"])

lemma unquote_hex:
  "hex4 a b d f < 55296 \<or> 57343 < hex4 a b d f \<Longrightarrow>
   unquote (backslash # CHR ''u'' # a # b # d # f # t) = encodeRune (hex4 a b d f) @ unquote t"
  by (subst unquote.simps) (auto simp: Let_def)

lemma unquote_escape:
  assumes "byte_val c < 128"
  shows "unquote (escape_char c @ t) = c # unquote t"
proof -
  have "quote_char \<noteq> CHR ''u''" "backslash \<noteq> CHR ''u''" "unescape quote_char = quote_char" "unescape backslash = backslash"
    by code_simp+
  then show ?thesis
    using ascii_escapes [OF assms] assms
    by (simp add: escape_char_def unquote_simple unquote_hex) (simp add: unescape_def)
qed

definition prepend :: "string \<Rightarrow> (string \<times> string) option \<Rightarrow> (string \<times> string) option" where
  "prepend p = map_option (\<lambda>(a, b). (p @ a, b))"

lemma prepend_simps [simp]:
  "prepend p (Some (a, b)) = Some (p @ a, b)" "prepend p (prepend q x) = prepend (p @ q) x" "prepend [] x = x"
  by (cases x; auto simp: prepend_def)+

lemma str_body_plain:
  "list_all (\<lambda>c. c \<noteq> quote_char \<and> c \<noteq> backslash \<and> 32 \<le> byte_val c) p \<Longrightarrow> str_body (p @ t) = prepend p (str_body t)"
proof (induction p)
  case (Cons c p)
  then have "str_body (c # p @ t) = prepend [c] (str_body (p @ t))"
    by (auto simp: prepend_def)
  then show ?case using Cons by simp
qed simp

lemma str_body_hex:
  "is_hex a \<and> is_hex b \<and> is_hex d \<and> is_hex f \<Longrightarrow>
   str_body (backslash # CHR ''u'' # a # b # d # f # t) = prepend (backslash # CHR ''u'' # [a, b, d, f]) (str_body t)"
proof -
  have "backslash \<noteq> quote_char" "\<not> is_escape (CHR ''u'')" by code_simp+
  then show "is_hex a \<and> is_hex b \<and> is_hex d \<and> is_hex f \<Longrightarrow>
   str_body (backslash # CHR ''u'' # a # b # d # f # t) = prepend (backslash # CHR ''u'' # [a, b, d, f]) (str_body t)"
    by (simp add: prepend_def)
qed

lemma str_body_simple: "is_escape e \<Longrightarrow> str_body (backslash # e # t) = prepend [backslash, e] (str_body t)"
proof -
  have "backslash \<noteq> quote_char" by code_simp
  then show "is_escape e \<Longrightarrow> str_body (backslash # e # t) = prepend [backslash, e] (str_body t)"
    by (simp add: prepend_def)
qed

lemma str_body_escape:
  assumes "byte_val c < 128"
  shows "str_body (escape_char c @ t) = prepend (escape_char c) (str_body t)"
proof -
  have "is_escape quote_char" "is_escape backslash" "is_escape (CHR ''b'')" "is_escape (CHR ''f'')"
    "is_escape (CHR ''n'')" "is_escape (CHR ''r'')" "is_escape (CHR ''t'')" "is_hex (CHR ''0'')" by code_simp+
  then show ?thesis
    using ascii_escapes(2) [OF assms]
    by (simp add: escape_char_def str_body_simple str_body_hex del: str_body.simps)
qed

lemma utf8_len_cases:
  assumes "utf8_len s = n" "n \<noteq> 0"
  obtains a b where "s = a # b # drop 2 s" "n = 2" "between 194 a 223" "between 128 b 191"
  | a b c where "s = a # b # c # drop 3 s" "n = 3" "between 128 c 191"
      "byte_val a = 224 \<and> between 160 b 191 \<or> between 225 a 236 \<and> between 128 b 191
               \<or> byte_val a = 237 \<and> between 128 b 159 \<or> between 238 a 239 \<and> between 128 b 191"
  | a b c d where "s = a # b # c # d # drop 4 s" "n = 4" "between 128 c 191" "between 128 d 191"
      "byte_val a = 240 \<and> between 144 b 191 \<or> between 241 a 243 \<and> between 128 b 191
               \<or> byte_val a = 244 \<and> between 128 b 143"
  using assms by (cases s rule: utf8_len.cases) (auto split: if_splits)

lemma utf8_len_take:
  assumes "utf8_len s = n" "n \<noteq> 0"
  shows "utf8_len (take n s @ r) = n"
  using assms
proof (cases rule: utf8_len_cases)
  case (1 a b)
  then have "take n s @ r = a # b # r" by (metis numeral_2_eq_2 take_Suc_Cons take0 append_Cons append_Nil)
  then show ?thesis using 1 by (cases r; cases "tl r") auto
next
  case (2 a b c)
  then have "take n s @ r = a # b # c # r" by (metis numeral_3_eq_3 take_Suc_Cons take0 append_Cons append_Nil)
  moreover have "\<not> between 194 a 223" using 2(4) by (auto simp: between_def)
  ultimately show ?thesis using 2(2-) by (cases r) auto
next
  case (3 a b c d)
  have "take n s = [a, b, c, d]" by (subst 3(1)) (simp add: 3(2))
  then show ?thesis using 3(2-) by (auto simp: between_def)
qed

lemma utf8_len_high:
  assumes "utf8_len s = n"
  shows "list_all (\<lambda>c. 128 \<le> byte_val c) (take n s) \<and> length (take n s) = n"
proof (cases "n = 0")
  case False
  from assms False show ?thesis
  proof (cases rule: utf8_len_cases)
    case (1 a b)
    have "take n s = [a, b]" by (subst 1(1)) (simp add: 1(2))
    then show ?thesis using 1(2-) by (simp add: between_def)
  next
    case (2 a b c)
    have "take n s = [a, b, c]" by (subst 2(1)) (simp add: 2(2))
    then show ?thesis using 2(2-) by (auto simp: between_def)
  next
    case (3 a b c d)
    have "take n s = [a, b, c, d]" by (subst 3(1)) (simp add: 3(2))
    then show ?thesis using 3(2-) by (auto simp: between_def)
  qed
qed simp

lemma unquote_utf8:
  assumes "utf8_len s = n" "n \<noteq> 0"
  shows "unquote (take n s @ r) = take n s @ unquote r"
proof -
  obtain c cs where s: "s = c # cs" using assms by (cases s) auto
  obtain t where t: "take n s = c # t" using assms(2) by (cases n) (auto simp: s)
  have "128 \<le> byte_val c" "length (take n s) = n"
    using utf8_len_high [OF assms(1)] by (auto simp: t)
  moreover have "c \<noteq> backslash" using \<open>128 \<le> byte_val c\<close> by (auto simp: backslash_def byte_val_def)
  moreover have "utf8_len (c # t @ r) = n" using utf8_len_take [OF assms, of r] by (simp add: t)
  ultimately show ?thesis
    using assms(2) by (subst unquote.simps) (auto simp: t)
qed

lemma high_plain: "128 \<le> byte_val c \<Longrightarrow> c \<noteq> quote_char \<and> c \<noteq> backslash \<and> 32 \<le> byte_val c"
  by (auto simp: quote_char_def backslash_def byte_val_def)

lemma str_body_utf8: "utf8_len s = n \<Longrightarrow> str_body (take n s @ t) = prepend (take n s) (str_body t)"
  using utf8_len_high [of s n] high_plain by (intro str_body_plain) (auto simp: list_all_iff)

lemma long_escapes:
  "is_hex (CHR ''f'') \<and> is_hex (CHR ''f'') \<and> is_hex (CHR ''f'') \<and> is_hex (CHR ''d'')"
  "is_hex (CHR ''2'') \<and> is_hex (CHR ''0'') \<and> is_hex (CHR ''2'') \<and> is_hex (CHR ''8'')"
  "is_hex (CHR ''2'') \<and> is_hex (CHR ''0'') \<and> is_hex (CHR ''2'') \<and> is_hex (CHR ''9'')"
  "hex4 (CHR ''f'') (CHR ''f'') (CHR ''f'') (CHR ''d'') = 65533" "encodeRune 65533 = replacement"
  "hex4 (CHR ''2'') (CHR ''0'') (CHR ''2'') (CHR ''8'') = 8232" "encodeRune 8232 = [CHR 0xE2, CHR 0x80, CHR 0xA8]"
  "hex4 (CHR ''2'') (CHR ''0'') (CHR ''2'') (CHR ''9'') = 8233" "encodeRune 8233 = [CHR 0xE2, CHR 0x80, CHR 0xA9]"
  by code_simp+

lemma separators_utf8: "take 3 s = [CHR 0xE2, CHR 0x80, x] \<Longrightarrow> between 128 x 191 \<Longrightarrow> utf8_len s = 3"
  by (cases s rule: utf8_len.cases) (auto simp: between_def byte_val_def split: if_splits)

lemma jescape_reads_back:
  "(\<forall>t. str_body (jescape s @ t) = prepend (jescape s) (str_body t)) \<and> unquote (jescape s) = to_valid s"
proof (induction s rule: jescape.induct)
  case (1 s)
  show ?case
  proof (cases s)
    case Nil
    then show ?thesis by (simp add: jescape.simps [of "[]"] to_valid.simps [of "[]"])
  next
    case (Cons c cs)
    have plain: "html_safe c \<Longrightarrow> str_body (c # u) = prepend [c] (str_body u)" for u
      using str_body_plain [of "[c]" u] by (auto simp: html_safe_def)
    have safe: "html_safe c \<Longrightarrow> c \<noteq> backslash" by (auto simp: html_safe_def)
    have sep: "take 3 s = [CHR 0xE2, CHR 0x80, CHR 0xA8] \<Longrightarrow> utf8_len s = 3"
      "take 3 s = [CHR 0xE2, CHR 0x80, CHR 0xA9] \<Longrightarrow> utf8_len s = 3"
      by (rule separators_utf8, assumption, code_simp)+
    have tv: "to_valid s = (if byte_val c < 128 then c # to_valid cs
        else if utf8_len s = 0 then replacement @ to_valid cs
        else take (utf8_len s) s @ to_valid (drop (utf8_len s) s))"
      by (subst to_valid.simps) (simp add: Cons)
    have je: "jescape s = (if byte_val c < 128 then (if html_safe c then [c] else escape_char c) @ jescape cs
          else if utf8_len s = 0 then backslash # ''ufffd'' @ jescape cs
          else if take 3 s = [CHR 0xE2, CHR 0x80, CHR 0xA8] then backslash # ''u2028'' @ jescape (drop 3 s)
          else if take 3 s = [CHR 0xE2, CHR 0x80, CHR 0xA9] then backslash # ''u2029'' @ jescape (drop 3 s)
          else take (utf8_len s) s @ jescape (drop (utf8_len s) s))"
      by (subst jescape.simps) (simp add: Cons)
    consider "byte_val c < 128" | "\<not> byte_val c < 128" "utf8_len s = 0"
      | "\<not> byte_val c < 128" "utf8_len s \<noteq> 0" "take 3 s = [CHR 0xE2, CHR 0x80, CHR 0xA8]"
      | "\<not> byte_val c < 128" "utf8_len s \<noteq> 0" "take 3 s = [CHR 0xE2, CHR 0x80, CHR 0xA9]"
      | "\<not> byte_val c < 128" "utf8_len s \<noteq> 0" "take 3 s \<noteq> [CHR 0xE2, CHR 0x80, CHR 0xA8]"
        "take 3 s \<noteq> [CHR 0xE2, CHR 0x80, CHR 0xA9]" by blast
    then show ?thesis
    proof cases
      case 1
      then show ?thesis using "1.IH"(1) [OF Cons] safe plain unquote_ascii unquote_escape str_body_escape
        by (simp add: tv je del: str_body.simps)
    next
      case 2
      then show ?thesis using "1.IH"(2) [OF Cons] by (simp add: tv je unquote_hex str_body_hex long_escapes del: str_body.simps)
    next
      case 3
      then show ?thesis using "1.IH"(3) [OF Cons] sep by (simp add: tv je unquote_hex str_body_hex long_escapes del: str_body.simps)
    next
      case 4
      then show ?thesis using "1.IH"(4) [OF Cons] sep by (simp add: tv je unquote_hex str_body_hex long_escapes del: str_body.simps)
    next
      case 5
      then show ?thesis using "1.IH"(5) [OF Cons] unquote_utf8 str_body_utf8 by (simp add: tv je del: str_body.simps)
    qed
  qed
qed

lemma unquote_jescape: "unquote (jescape s) = to_valid s"
  using jescape_reads_back by blast

lemma str_body_jquote: "str_body (jescape s @ quote_char # r) = Some (jescape s, r)"
  using jescape_reads_back [of s] by simp

section \<open>A value reads back\<close>

fun plain_json :: "json \<Rightarrow> bool" where
  "plain_json (JArr es) = list_all plain_json es"
| "plain_json (JObj ms) = list_all (\<lambda>(k, v). plain_json v) ms"
| "plain_json (JNum n) = False"
| "plain_json _ = True"

fun jdepth :: "json \<Rightarrow> nat" where
  "jdepth (JArr es) = Suc (fold max (map jdepth es) 0)"
| "jdepth (JObj ms) = Suc (fold max (map (\<lambda>(k, v). jdepth v) ms) 0)"
| "jdepth _ = 0"

fun jvalid :: "json \<Rightarrow> json" where
  "jvalid (JStr s) = JStr (to_valid s)"
| "jvalid (JArr es) = JArr (map jvalid es)"
| "jvalid (JObj ms) = JObj (map (\<lambda>(k, v). (to_valid k, jvalid v)) ms)"
| "jvalid j = j"

lemma fold_max_le: "fold max (xs :: nat list) a \<le> n \<longleftrightarrow> a \<le> n \<and> (\<forall>x \<in> set xs. x \<le> n)"
  by (induction xs arbitrary: a) auto

lemma fold_max_bound: "Suc (d + fold max xs 0) \<le> n \<Longrightarrow> x \<in> set xs \<Longrightarrow> Suc (d + x) \<le> (n :: nat)"
  using fold_max_le [of xs 0 "fold max xs 0"] by fastforce

text \<open>\<open>with_fuel p x\<close>: with enough fuel the parser \<open>p\<close> returns \<open>x\<close>.\<close>

definition with_fuel :: "(nat \<Rightarrow> 'a option) \<Rightarrow> 'a \<Rightarrow> bool" where
  "with_fuel p x \<longleftrightarrow> (\<exists>f0. \<forall>f \<ge> f0. p f = Some x)"

lemma with_fuel_Suc:
  assumes "with_fuel p x" "\<And>f. p f = Some x \<Longrightarrow> q (Suc f) = Some y"
  shows "with_fuel q y"
proof -
  obtain f0 where "\<forall>f \<ge> f0. p f = Some x" using assms(1) by (auto simp: with_fuel_def)
  then have "\<forall>f \<ge> Suc f0. q f = Some y" by (metis assms(2) Suc_le_D Suc_le_mono)
  then show ?thesis unfolding with_fuel_def by blast
qed

lemma with_fuel_Suc2:
  assumes "with_fuel p x" "with_fuel p' x'" "\<And>f. p f = Some x \<Longrightarrow> p' f = Some x' \<Longrightarrow> q (Suc f) = Some y"
  shows "with_fuel q y"
proof -
  obtain f0 f1 where "\<forall>f \<ge> f0. p f = Some x" "\<forall>f \<ge> f1. p' f = Some x'"
    using assms(1,2) by (auto simp: with_fuel_def)
  then have "\<forall>f \<ge> max f0 f1. p f = Some x \<and> p' f = Some x'" by simp
  then have "\<forall>f \<ge> Suc (max f0 f1). q f = Some y" by (metis assms(3) Suc_le_D Suc_le_mono)
  then show ?thesis unfolding with_fuel_def by blast
qed

lemma with_fuel_now: "(\<And>f. q (Suc f) = Some y) \<Longrightarrow> with_fuel q y"
  using with_fuel_Suc [of "\<lambda>f. Some ()" "()" q y] by (simp add: with_fuel_def)

definition json_ws :: "char set" where
  "json_ws = {CHR 0x20, CHR 0x09, CHR 0x0A, CHR 0x0D}"

lemma skip_ws_Cons [simp]: "c \<notin> json_ws \<Longrightarrow> skip_ws (c # t) = c # t"
  by (auto simp: skip_ws_def json_ws_def)

lemma structural_chars [simp]:
  "quote_char \<notin> json_ws" "CHR ''{'' \<notin> json_ws" "CHR ''}'' \<notin> json_ws" "CHR ''['' \<notin> json_ws" "CHR '']'' \<notin> json_ws"
  "CHR '':'' \<notin> json_ws" "CHR '','' \<notin> json_ws" "CHR ''t'' \<notin> json_ws" "CHR ''f'' \<notin> json_ws" "CHR ''n'' \<notin> json_ws"
  "quote_char \<noteq> CHR ''{''" "quote_char \<noteq> CHR ''}''" "quote_char \<noteq> CHR ''[''" "quote_char \<noteq> CHR '']''"
  by (simp_all add: json_ws_def quote_char_def)

lemma jprint_starts:
  "plain_json j \<Longrightarrow> \<exists>c t. jprint j = c # t \<and> c \<notin> json_ws \<and> c \<noteq> CHR '']''"
  by (cases j) (auto simp: jquote_def)

lemma jp_members_starts: "ms \<noteq> [] \<Longrightarrow> \<exists>t. jp_members ms = quote_char # t"
  by (cases ms) (auto simp: jquote_def)

lemma jp_elems_starts:
  "es \<noteq> [] \<Longrightarrow> list_all plain_json es \<Longrightarrow> \<exists>c t. jp_elems es = c # t \<and> c \<notin> json_ws \<and> c \<noteq> CHR '']''"
  using jprint_starts by (cases es) fastforce+

lemma jprint_reads_back:
  "plain_json j \<Longrightarrow> d + jdepth j \<le> maxNestingDepth \<Longrightarrow> with_fuel (\<lambda>f. jvalue f d (jprint j @ r)) (jvalid j, r)"
  "ms \<noteq> [] \<Longrightarrow> list_all (\<lambda>(k, v). plain_json v \<and> d + jdepth v \<le> maxNestingDepth) ms \<Longrightarrow>
     with_fuel (\<lambda>f. jmembers f d (jp_members ms @ r)) (map (\<lambda>(k, v). (to_valid k, jvalid v)) ms, r)"
  "es \<noteq> [] \<Longrightarrow> list_all (\<lambda>v. plain_json v \<and> d + jdepth v \<le> maxNestingDepth) es \<Longrightarrow>
     with_fuel (\<lambda>f. jelems f d (jp_elems es @ r)) (map jvalid es, r)"
proof (induction j and ms and es arbitrary: d r and d r and d r rule: jprint_jp_members_jp_elems.induct)
  case (4 s)
  show ?case
    by (rule with_fuel_now) (simp add: jquote_def str_body_jquote unquote_jescape)
next
  case (5 es)
  show ?case
  proof (cases "es = []")
    case True
    then show ?thesis using 5(3) by (intro with_fuel_now) simp
  next
    case False
    have "list_all (\<lambda>v. plain_json v \<and> Suc d + jdepth v \<le> maxNestingDepth) es" "d < maxNestingDepth"
      using 5(2,3) fold_max_bound [of d "map jdepth es"] by (auto simp: list_all_iff)
    moreover obtain c t where "jp_elems es = c # t" "c \<notin> json_ws" "c \<noteq> CHR '']''"
      using jp_elems_starts [OF False] 5(2) by auto
    ultimately show ?thesis
      using 5(1) [OF False False, of "Suc d" r] False by (auto intro: with_fuel_Suc)
  qed
next
  case (6 ms)
  show ?case
  proof (cases "ms = []")
    case True
    then show ?thesis using 6(3) by (intro with_fuel_now) simp
  next
    case False
    have "list_all (\<lambda>(k, v). plain_json v \<and> Suc d + jdepth v \<le> maxNestingDepth) ms" "d < maxNestingDepth"
      using 6(2,3) fold_max_bound [of d "map (\<lambda>(k, v). jdepth v) ms"] by (fastforce simp: list_all_iff)+
    moreover obtain t where "jp_members ms = quote_char # t"
      using jp_members_starts [OF False] by auto
    ultimately show ?thesis
      using 6(1) [OF False False, of "Suc d" r] False by (auto intro: with_fuel_Suc)
  qed
next
  case (8 k v ms)
  have v: "with_fuel (\<lambda>f. jvalue f d (jprint v @ r')) (jvalid v, r')" for r'
    using 8 by simp
  show ?case
  proof (cases "ms = []")
    case True
    then show ?thesis
      by (auto intro!: with_fuel_Suc [OF v [of "CHR ''}'' # r"]] simp: jquote_def str_body_jquote unquote_jescape)
  next
    case False
    then have "with_fuel (\<lambda>f. jmembers f d (jp_members ms @ r)) (map (\<lambda>(k, v). (to_valid k, jvalid v)) ms, r)"
      using 8 by simp
    then show ?thesis
      by (rule with_fuel_Suc2 [OF v [of "CHR '','' # jp_members ms @ r"]])
        (use False in \<open>simp add: jquote_def str_body_jquote unquote_jescape del: str_body.simps\<close>)
  qed
next
  case (10 v vs)
  have v: "with_fuel (\<lambda>f. jvalue f d (jprint v @ r')) (jvalid v, r')" for r'
    using 10 by simp
  show ?case
  proof (cases "vs = []")
    case True
    then show ?thesis
      by (auto intro!: with_fuel_Suc [OF v [of "CHR '']'' # r"]])
  next
    case False
    then have "with_fuel (\<lambda>f. jelems f d (jp_elems vs @ r)) (map jvalid vs, r)"
      using 10 by simp
    then show ?thesis
      by (rule with_fuel_Suc2 [OF v [of "CHR '','' # jp_elems vs @ r"]]) (use False in simp)
  qed
qed (auto intro!: with_fuel_now simp: word_def HasPrefix_def quote_char_def)

theorem json_parse_jprint:
  assumes "plain_json j" "jdepth j \<le> maxNestingDepth"
  shows "json_parse (jprint j) = Some (jvalid j)"
proof -
  obtain f0 where "\<forall>f \<ge> f0. jvalue f 0 (jprint j) = Some (jvalid j, [])"
    using jprint_reads_back(1) [OF assms(1), of 0 "[]"] assms(2) by (auto simp: with_fuel_def)
  then have "jvalue (max f0 (2 * length (jprint j) + 1)) 0 (jprint j) = Some (jvalid j, [])" by simp
  then have "jvalue (2 * length (jprint j) + 1) 0 (jprint j) = Some (jvalid j, [])"
    using jvalue_fuel [of "jprint j" "max f0 (2 * length (jprint j) + 1)" 0] by (metis max.cobounded2)
  then show ?thesis
    by (simp add: json_parse_def skip_ws_def del: jvalue.simps)
qed

end
