(* ===== verification/Fixm.thy ===== *)
theory Fixm
  imports Go_Marshal
begin

text \<open>
  normalizer/internal/fixm: the normalized FIXM model (models.go), reading it from an XML envelope
  (parser.go) and writing one message as JSON (encoder.go). A Go struct type is a value of \<open>fty\<close>:
  per field its JSON name, whether it has \<^verbatim>\<open>omitempty\<close>, its XML binding and its type; a struct
  value is a \<open>gval\<close> with the fields under their JSON names.
\<close>

section \<open>Types with XML and JSON tags\<close>

datatype xbind = XAttr string | XChardata | XElem "string list"

datatype fty = FStr | FStruct "(string \<times> bool \<times> xbind \<times> fty) list" | FSlice fty

fun fzero :: "fty \<Rightarrow> gval" where
  "fzero FStr = VStr []"
| "fzero (FStruct fs) = VStruct (map (\<lambda>(n, om, b, t). (n, fzero t)) fs)"
| "fzero (FSlice t) = VSlice [] []"

fun gtext :: "gval \<Rightarrow> string" where
  "gtext (VStr s) = s"
| "gtext _ = []"

fun gelems :: "gval \<Rightarrow> gval list" where
  "gelems (VSlice xs spare) = xs"
| "gelems _ = []"

section \<open>models.go\<close>

definition fx_Measurement :: fty where
  "fx_Measurement = FStruct [(''value'', True, XChardata, FStr), (''uom'', True, XAttr ''uom'', FStr)]"

definition fx_Location :: fty where
  "fx_Location = FStruct [(''pos'', True, XElem [''pos''], FStr)]"

definition fx_TrackVelocity :: fty where
  "fx_TrackVelocity = FStruct
     [(''x'', True, XElem [''x''], fx_Measurement), (''y'', True, XElem [''y''], fx_Measurement)]"

definition fx_Position :: fty where
  "fx_Position = FStruct
     [(''positionTime'', True, XAttr ''positionTime'', FStr),
      (''altitude'', True, XElem [''altitude''], fx_Measurement),
      (''location'', False, XElem [''position'', ''location''], fx_Location),
      (''trackVelocity'', True, XElem [''trackVelocity''], fx_TrackVelocity)]"

definition fx_EnRoute :: fty where
  "fx_EnRoute = FStruct [(''positions'', True, XElem [''position''], FSlice fx_Position)]"

definition fx_Point :: fty where
  "fx_Point = FStruct [(''location'', True, XElem [''location''], fx_Location)]"

definition fx_AerodromeLocation :: fty where
  "fx_AerodromeLocation = FStruct [(''point'', True, XElem [''point''], fx_Point)]"

definition fx_TimeValue :: fty where
  "fx_TimeValue = FStruct [(''time'', True, XAttr ''time'', FStr)]"

definition fx_RunwayTime :: fty where
  "fx_RunwayTime = FStruct [(''actual'', True, XElem [''actual''], fx_TimeValue)]"

definition fx_RunwayPositionAndTime :: fty where
  "fx_RunwayPositionAndTime = FStruct [(''runwayTime'', True, XElem [''runwayTime''], fx_RunwayTime)]"

definition fx_Departure :: fty where
  "fx_Departure = FStruct
     [(''departurePoint'', True, XAttr ''departurePoint'', FStr),
      (''runwayPositionAndTime'', True, XElem [''runwayPositionAndTime''], fx_RunwayPositionAndTime),
      (''departureAerodrome'', True, XElem [''departureAerodrome''], fx_AerodromeLocation)]"

definition fx_Arrival :: fty where
  "fx_Arrival = FStruct
     [(''arrivalPoint'', True, XAttr ''arrivalPoint'', FStr),
      (''runwayPositionAndTime'', True, XElem [''runwayPositionAndTime''], fx_RunwayPositionAndTime),
      (''arrivalAerodrome'', True, XElem [''arrivalAerodrome''], fx_AerodromeLocation)]"

definition fx_AircraftType :: fty where
  "fx_AircraftType = FStruct [(''icaoModelIdentifier'', True, XElem [''icaoModelIdentifier''], FStr)]"

definition fx_AircraftDescription :: fty where
  "fx_AircraftDescription = FStruct
     [(''registration'', True, XAttr ''registration'', FStr),
      (''aircraftType'', True, XElem [''aircraftType''], fx_AircraftType)]"

definition fx_FlightIdentification :: fty where
  "fx_FlightIdentification = FStruct [(''aircraftIdentification'', False, XAttr ''aircraftIdentification'', FStr)]"

definition fx_FlightStatus :: fty where
  "fx_FlightStatus = FStruct [(''fdpsFlightStatus'', False, XAttr ''fdpsFlightStatus'', FStr)]"

definition fx_Gufi :: fty where
  "fx_Gufi = FStruct [(''code'', False, XChardata, FStr)]"

definition fx_Flight :: fty where
  "fx_Flight = FStruct
     [(''timestamp'', False, XAttr ''timestamp'', FStr),
      (''flightIdentification'', False, XElem [''flightIdentification''], fx_FlightIdentification),
      (''flightStatus'', False, XElem [''flightStatus''], fx_FlightStatus),
      (''gufi'', False, XElem [''gufi''], fx_Gufi),
      (''departure'', True, XElem [''departure''], fx_Departure),
      (''arrival'', True, XElem [''arrival''], fx_Arrival),
      (''enRoute'', True, XElem [''enRoute''], fx_EnRoute),
      (''aircraftDescription'', True, XElem [''aircraftDescription''], fx_AircraftDescription)]"

definition fx_Message :: fty where
  "fx_Message = FStruct [(''flight'', False, XElem [''flight''], fx_Flight)]"

definition fx_MessageCollection :: fty where
  "fx_MessageCollection = FStruct [(''messages'', True, XElem [''message''], FSlice fx_Message)]"

lemmas fx_defs = fx_Measurement_def fx_Location_def fx_TrackVelocity_def fx_Position_def fx_EnRoute_def fx_Point_def
  fx_AerodromeLocation_def fx_TimeValue_def fx_RunwayTime_def fx_RunwayPositionAndTime_def fx_Departure_def
  fx_Arrival_def fx_AircraftType_def fx_AircraftDescription_def fx_FlightIdentification_def fx_FlightStatus_def
  fx_Gufi_def fx_Flight_def fx_Message_def fx_MessageCollection_def

section \<open>Reading XML\<close>

text \<open>An XML element: local name, attributes (name space, local name, value), and content. The
  tokenizer of \<^verbatim>\<open>encoding/xml\<close> is a parameter that gives the first element of a document.\<close>

datatype xnode = XE string "(string \<times> string \<times> string) list" "xnode list" | XText string

datatype xml_error = XmlSyntax | XmlWrongRoot string

type_synonym xml_reader = "bytes \<Rightarrow> xml_error + xnode"

fun xtext :: "xnode \<Rightarrow> string" where
  "xtext (XText s) = s"
| "xtext (XE n a c) = []"

definition set_attr :: "(string \<times> bool \<times> xbind \<times> fty) list \<Rightarrow> string \<times> string \<times> string \<Rightarrow> gval \<Rightarrow> gval" where
  "set_attr fs = (\<lambda>(sp, l, x) v. fold (\<lambda>(n, om, b, t) v. if b = XAttr l then setv v n (VStr x) else v) fs v)"

definition set_chardata :: "(string \<times> bool \<times> xbind \<times> fty) list \<Rightarrow> string \<Rightarrow> gval \<Rightarrow> gval" where
  "set_chardata fs x v =
     (case find (\<lambda>(n, om, b, t). b = XChardata) fs of None \<Rightarrow> v | Some (n, _) \<Rightarrow> setv v n (VStr x))"

text \<open>The first element field whose path continues the path read so far with the given name.\<close>

definition on_path :: "string list \<Rightarrow> string \<Rightarrow> string \<times> bool \<times> xbind \<times> fty \<Rightarrow> bool" where
  "on_path ps l = (\<lambda>(n, om, b, t). case b of XElem p \<Rightarrow> take (Suc (length ps)) p = ps @ [l] | _ \<Rightarrow> False)"

lemma field_size:
  assumes "find P fs = Some (n, om, b, t)"
  shows "size (t :: fty) \<le> size (FStruct fs)"
proof -
  have "(n, om, b, t) \<in> set fs" using assms find_SomeD by fast
  then have "size t \<le> size_list (size_prod (\<lambda>x. 0) (size_prod (\<lambda>x. 0) (size_prod (\<lambda>x. 0) size))) fs"
    by (rule size_list_estimation') simp
  then show ?thesis by simp
qed

text \<open>Decoding an element into an existing value (\<^verbatim>\<open>Decoder.unmarshal\<close> and \<^verbatim>\<open>unmarshalPath\<close>).\<close>

function (sequential) xdec :: "fty \<Rightarrow> gval \<Rightarrow> xnode \<Rightarrow> gval"
and xchild :: "(string \<times> bool \<times> xbind \<times> fty) list \<Rightarrow> string list \<Rightarrow> gval \<Rightarrow> xnode \<Rightarrow> gval"
and xchildren :: "(string \<times> bool \<times> xbind \<times> fty) list \<Rightarrow> string list \<Rightarrow> gval \<Rightarrow> xnode list \<Rightarrow> gval" where
  "xdec (FStruct fs) v (XE l as ch) =
     set_chardata fs (concat (map xtext ch)) (xchildren fs [] (fold (set_attr fs) as v) ch)"
| "xdec FStr v (XE l as ch) = VStr (concat (map xtext ch))"
| "xdec (FSlice t) v (XE l as ch) = VSlice (gelems v @ [xdec t (fzero t) (XE l as ch)]) []"
| "xdec t v (XText s) = v"
| "xchild fs ps v (XE l as ch) =
     (case find (on_path ps l) fs of
        None \<Rightarrow> v
      | Some (n, om, b, t) \<Rightarrow>
          if b = XElem (ps @ [l]) then setv v n (xdec t (getv v n) (XE l as ch))
          else xchildren fs (ps @ [l]) v ch)"
| "xchild fs ps v (XText s) = v"
| "xchildren fs ps v [] = v"
| "xchildren fs ps v (c # cs) = xchildren fs ps (xchild fs ps v c) cs"
  by pat_completeness auto
termination
proof (relation "measures [\<lambda>x. case x of Inl (t, v, n) \<Rightarrow> size n | Inr (Inl (fs, ps, v, n)) \<Rightarrow> size n
       | Inr (Inr (fs, ps, v, ns)) \<Rightarrow> size_list size ns,
     \<lambda>x. case x of Inl (t, v, n) \<Rightarrow> size t | Inr (Inl (fs, ps, v, n)) \<Rightarrow> Suc (size (FStruct fs)) | _ \<Rightarrow> 0]")
qed (auto dest: field_size)

section \<open>parser.go and encoder.go\<close>

definition ParseEnvelope :: "xml_reader \<Rightarrow> bytes \<Rightarrow> xml_error + gval list" where
  "ParseEnvelope X data =
     (case X data of
        Inl e \<Rightarrow> Inl e
      | Inr (XText s) \<Rightarrow> Inl XmlSyntax
      | Inr (XE l as ch) \<Rightarrow>
          if l \<noteq> ''MessageCollection'' then Inl (XmlWrongRoot l)
          else Inr (glist (xdec fx_MessageCollection (fzero fx_MessageCollection) (XE l as ch)) [''messages'']))"

text \<open>\<^verbatim>\<open>json.Marshal\<close> by type: an empty string or slice under \<^verbatim>\<open>omitempty\<close> is left out, a struct never
  is, and a nil slice (all empty slices here are nil) is \<^verbatim>\<open>null\<close>.\<close>

fun is_empty :: "fty \<Rightarrow> gval \<Rightarrow> bool" where
  "is_empty FStr v \<longleftrightarrow> gtext v = []"
| "is_empty (FSlice t) v \<longleftrightarrow> gelems v = []"
| "is_empty (FStruct fs) v \<longleftrightarrow> False"

fun json_of :: "fty \<Rightarrow> gval \<Rightarrow> json" where
  "json_of FStr v = JStr (gtext v)"
| "json_of (FSlice t) v = (if gelems v = [] then JNull else JArr (map (json_of t) (gelems v)))"
| "json_of (FStruct fs) v = JObj (concat (map (\<lambda>(n, om, b, t).
     if om \<and> is_empty t (getv v n) then [] else [(n, json_of t (getv v n))]) fs))"

datatype marshal_error = UnsupportedValue

definition EncodeOne :: "gval \<Rightarrow> marshal_error + bytes" where
  "EncodeOne m = Inr (jprint (json_of fx_Message m))"

section \<open>What a reader gets back\<close>

text \<open>\<open>reads R W\<close>: the struct \<open>R\<close> of a reader is compatible with the type \<open>W\<close> written: every name
  written is, for the reader, either a field of that very name and of a compatible type or unknown.
  \<open>view R W v\<close> is the value read, with zero values for the fields that were not written.\<close>

fun reads :: "gty \<Rightarrow> fty \<Rightarrow> bool" where
  "reads r FStr \<longleftrightarrow> r = TStr"
| "reads r (FSlice w) \<longleftrightarrow> (case r of TSlice a \<Rightarrow> reads a w | _ \<Rightarrow> False)"
| "reads r (FStruct W) \<longleftrightarrow> (case r of
     TStruct R \<Rightarrow> distinct (map fst R) \<and> distinct (map fst W) \<and>
       list_all (\<lambda>(n, om, b, w). case match_field R n of None \<Rightarrow> True | Some (m, a) \<Rightarrow> m = n \<and> reads a w) W
   | _ \<Rightarrow> False)"

fun ascii_names :: "fty \<Rightarrow> bool" where
  "ascii_names (FStruct W) \<longleftrightarrow> list_all (\<lambda>(n, om, b, w). isASCII n \<and> ascii_names w) W"
| "ascii_names (FSlice w) \<longleftrightarrow> ascii_names w"
| "ascii_names FStr \<longleftrightarrow> True"

fun fdepth :: "fty \<Rightarrow> nat" where
  "fdepth (FStruct W) = Suc (fold max (map (\<lambda>(n, om, b, w). fdepth w) W) 0)"
| "fdepth (FSlice w) = Suc (fdepth w)"
| "fdepth FStr = 0"

fun field_of :: "(string \<times> bool \<times> xbind \<times> fty) list \<Rightarrow> string \<Rightarrow> fty option" where
  "field_of [] n = None"
| "field_of ((m, om, b, w) # W) n = (if m = n then Some w else field_of W n)"

lemma field_of_size: "field_of W n = Some w \<Longrightarrow> size w < size (FStruct W)"
  by (induction W) (auto split: if_splits)

function (sequential) view :: "gty \<Rightarrow> fty \<Rightarrow> gval \<Rightarrow> gval" where
  "view (TStruct R) (FStruct W) v = VStruct (map (\<lambda>(n, a).
     (n, case field_of W n of None \<Rightarrow> zero a | Some w \<Rightarrow> view a w (getv v n))) R)"
| "view (TSlice a) (FSlice w) v = VSlice (map (view a w) (gelems v)) []"
| "view _ _ v = VStr (to_valid (gtext v))"
  by pat_completeness auto
termination
  by (relation "measure (\<lambda>(a, w, v). size w)") (auto dest: field_of_size)

lemma to_valid_ascii: "isASCII s \<Longrightarrow> to_valid s = s"
proof (induction s)
  case (Cons c s)
  then show ?case by (subst to_valid.simps) (simp add: isASCII_def)
qed (simp add: to_valid.simps)

lemma plain_json_of: "plain_json (json_of W v)"
  by (induction W v rule: json_of.induct) (auto simp: list_all_iff)

lemma jdepth_json_of: "jdepth (json_of W v) \<le> fdepth W"
proof (induction W v rule: json_of.induct)
  case (3 fs v)
  have "jdepth (json_of t (getv v n)) \<le> fold max (map (\<lambda>(n, om, b, w). fdepth w) fs) 0"
    if m: "(n, om, b, t) \<in> set fs" "\<not> (om \<and> is_empty t (getv v n))" for n om b t
  proof -
    have "jdepth (json_of t (getv v n)) \<le> fdepth t" using 3 [OF m(1) refl refl refl m(2)] .
    also have "\<dots> \<le> fold max (map (\<lambda>(n, om, b, w). fdepth w) fs) 0"
      using m(1) fold_max_le [of "map (\<lambda>(n, om, b, w). fdepth w) fs" 0 "fold max (map (\<lambda>(n, om, b, w). fdepth w) fs) 0"]
      by force
    finally show ?thesis .
  qed
  then show ?case by (fastforce simp: fold_max_le split: if_splits)
qed (auto simp: fold_max_le)

lemma update_field_map:
  "distinct (map fst R) \<Longrightarrow> n \<in> fst ` set R \<Longrightarrow>
   update_field n x (map (\<lambda>(m, a). (m, g m a)) R) = map (\<lambda>(m, a). (m, if m = n then x else g m a)) R"
  by (induction R) (auto simp: rev_image_eqI)

lemma setv_map:
  "distinct (map fst R) \<Longrightarrow> n \<in> fst ` set R \<Longrightarrow>
   setv (VStruct (map (\<lambda>(m, a). (m, g m a)) R)) n x = VStruct (map (\<lambda>(m, a). (m, if m = n then x else g m a)) R)"
  by (simp add: setv_def update_field_map)

lemma getv_map:
  "distinct (map fst R) \<Longrightarrow> (n, a) \<in> set R \<Longrightarrow> getv (VStruct (map (\<lambda>(m, a). (m, g m a)) R)) n = g n a"
  by (induction R) (auto simp: getv_def rev_image_eqI)

lemma match_field_None: "match_field R n = None \<Longrightarrow> n \<notin> fst ` set R"
  by (auto simp: match_field_def find_None_iff split: option.splits)

lemma match_field_exact:
  assumes "match_field R n = Some (n, a)" "distinct (map fst R)"
  shows "(n, a) \<in> set R"
  using assms by (auto simp: match_field_def split: option.splits dest!: find_SomeD)

lemma view_empty: "reads r w \<Longrightarrow> is_empty w x \<Longrightarrow> view r w x = zero r"
  by (cases w) (auto simp: to_valid.simps split: gty.splits)

lemma field_of_iff: "distinct (map fst W) \<Longrightarrow> (n, om, b, w) \<in> set W \<Longrightarrow> field_of W n = Some w"
  by (induction W) (auto simp: rev_image_eqI)

lemma field_of_None: "field_of W n = None \<longleftrightarrow> n \<notin> fst ` set W"
  by (induction W) (auto split: if_splits)

text \<open>The members written for the fields \<open>W\<close> decode field by field: what was not yet read is zero.\<close>

lemma dec_members_json_of:
  assumes "distinct (map fst R)"
    and "\<And>n om b w a. (n, om, b, w) \<in> set W \<Longrightarrow> (n, a) \<in> set R \<Longrightarrow> reads a w \<Longrightarrow> ascii_names w \<Longrightarrow>
      dec a (zero a) (jvalid (json_of w (getv v n))) = (view a w (getv v n), False)"
    and "distinct (map fst W)" "list_all (\<lambda>(n, om, b, w). isASCII n \<and> ascii_names w) W"
    and "list_all (\<lambda>(n, om, b, w). case match_field R n of None \<Rightarrow> True | Some (m, a) \<Rightarrow> m = n \<and> reads a w) W"
    and "\<And>n a. n \<in> fst ` set W \<Longrightarrow> (n, a) \<in> set R \<Longrightarrow> g n a = zero a"
  shows "dec_members R (VStruct (map (\<lambda>(n, a). (n, g n a)) R)) (map (\<lambda>(k, j). (to_valid k, jvalid j))
       (concat (map (\<lambda>(n, om, b, t). if om \<and> is_empty t (getv v n) then [] else [(n, json_of t (getv v n))]) W)))
     = (VStruct (map (\<lambda>(n, a). (n, case field_of W n of None \<Rightarrow> g n a | Some w \<Rightarrow> view a w (getv v n))) R), False)"
  using assms(2-)
proof (induction W arbitrary: g)
  case (Cons f W)
  obtain n om b w where f: "f = (n, om, b, w)" by (cases f)
  have n: "isASCII n" "ascii_names w" "n \<notin> fst ` set W" using Cons.prems by (auto simp: f)
  let ?g' = "\<lambda>m a. if m = n then view a w (getv v n) else g m a"
  let ?ms = "map (\<lambda>(k, j). (to_valid k, jvalid j)) (concat (map (\<lambda>(n, om, b, t).
      if om \<and> is_empty t (getv v n) then [] else [(n, json_of t (getv v n))]) W))"
  have rest: "dec_members R (VStruct (map (\<lambda>(m, a). (m, ?g' m a)) R)) ?ms =
      (VStruct (map (\<lambda>(m, a). (m, case field_of W m of None \<Rightarrow> ?g' m a | Some w \<Rightarrow> view a w (getv v m))) R), False)"
  proof (rule Cons.IH)
    show "dec a (zero a) (jvalid (json_of w' (getv v m))) = (view a w' (getv v m), False)"
      if "(m, om, b, w') \<in> set W" "(m, a) \<in> set R" "reads a w'" "ascii_names w'" for m om b w' a
      using Cons.prems(1) [of m om b w' a] that by simp
  qed (use Cons.prems(2-) n in \<open>auto simp: f\<close>)
  have cong: "map (\<lambda>(m, a). (m, case field_of W m of None \<Rightarrow> ?g' m a | Some w \<Rightarrow> view a w (getv v m))) R =
      map (\<lambda>(m, a). (m, case field_of (f # W) m of None \<Rightarrow> g m a | Some w \<Rightarrow> view a w (getv v m))) R"
    using field_of_None [of W n] n by (auto simp: f)
  have member: "reads a w" if "(n, a) \<in> set R" for a
  proof -
    have "match_field R n \<noteq> None" using match_field_None that by force
    then show ?thesis
      using Cons.prems(4) match_field_exact [of R n] assms(1) that
      by (auto simp: f dest: eq_key_imp_eq_value)
  qed
  show ?case
  proof (cases "om \<and> is_empty w (getv v n)")
    case True
    have "map (\<lambda>(m, a). (m, g m a)) R = map (\<lambda>(m, a). (m, ?g' m a)) R"
      using view_empty [OF member] True Cons.prems(5) by (auto simp: f)
    then show ?thesis using rest True cong by (simp add: f del: map_eq_conv)
  next
    case False
    show ?thesis
    proof (cases "match_field R n")
      case None
      then have "map (\<lambda>(m, a). (m, g m a)) R = map (\<lambda>(m, a). (m, ?g' m a)) R"
        using match_field_None by force
      then show ?thesis using rest False cong None by (simp add: f to_valid_ascii n del: map_eq_conv)
    next
      case (Some ma)
      then obtain a where ma: "ma = (n, a)" using Cons.prems(4) by (auto simp: f)
      then have R: "(n, a) \<in> set R" using match_field_exact Some assms(1) by blast
      then have "dec a (zero a) (jvalid (json_of w (getv v n))) = (view a w (getv v n), False)"
        using Cons.prems(1) [of n om b w a] n member R by (simp add: f)
      moreover have "getv (VStruct (map (\<lambda>(m, a). (m, g m a)) R)) n = zero a"
        using getv_map [OF assms(1) R] Cons.prems(5) R by (simp add: f)
      moreover have "setv (VStruct (map (\<lambda>(m, a). (m, g m a)) R)) n (view a w (getv v n)) =
          VStruct (map (\<lambda>(m, a). (m, ?g' m a)) R)"
      proof -
        have "map (\<lambda>(m, b). (m, if m = n then view a w (getv v n) else g m b)) R = map (\<lambda>(m, a). (m, ?g' m a)) R"
          using R assms(1) by (auto dest: eq_key_imp_eq_value)
        then show ?thesis using setv_map [OF assms(1), of n g "view a w (getv v n)"] R by force
      qed
      ultimately show ?thesis
        using rest False cong Some by (simp add: f ma to_valid_ascii n del: map_eq_conv) blast
    qed
  qed
qed simp

lemma dec_string: "reads TStr w \<Longrightarrow> dec TStr (VStr []) (jvalid (json_of w v)) = (VStr (to_valid (gtext v)), False)"
  by (cases w) auto

lemma dec_json_of:
  "reads R W \<Longrightarrow> ascii_names W \<Longrightarrow> dec R (zero R) (jvalid (json_of W v)) = (view R W v, False)"
proof (induction R W v rule: view.induct)
  case (1 R W v)
  have "dec a (zero a) (jvalid (json_of w (getv v n))) = (view a w (getv v n), False)"
    if "(n, om, b, w) \<in> set W" "(n, a) \<in> set R" "reads a w" "ascii_names w" for n om b w a
    using 1 that field_of_iff by simp
  then show ?case
    using dec_members_json_of [of R W v "\<lambda>n. zero"] 1 by simp
next
  case (2 a w v)
  have "dec_elems a [] (map (jvalid \<circ> json_of w) xs) = (map (view a w) xs, False)"
    if "set xs \<subseteq> set (gelems v)" for xs
    using that 2 by (induction xs) auto
  then show ?case by (auto simp: comp_def)
qed (use dec_string in \<open>auto split: gty.splits\<close>)

theorem Unmarshal_json_of:
  assumes "reads R W" "ascii_names W" "fdepth W \<le> maxNestingDepth"
  shows "Unmarshal R (jprint (json_of W v)) = Inr (view R W v)"
  using json_parse_jprint [OF plain_json_of, of W v] jdepth_json_of [of W v] assms(3) dec_json_of [OF assms(1,2), of v]
  by (simp add: Unmarshal_def)

end
