(* ===== verification/Normalizer.thy ===== *)
theory Normalizer
  imports Fixm Kafka_Msg
begin

text \<open>
  normalizer/internal/pipeline/normalizer.go: the batch loop of the normalizer. An envelope is
  parsed, its flights are encoded one by one and published together; an envelope that cannot be
  parsed is dead-lettered; the last envelope of a batch is committed when no write failed.
\<close>

section \<open>State\<close>

record Normalizer =
  n_workers :: int
  n_batchSize :: int

definition n_defaultBatchSize :: int where "n_defaultBatchSize = 100"

definition n_New :: "int \<Rightarrow> Normalizer" where
  "n_New w = \<lparr>n_workers = (if w < 1 then 1 else w), n_batchSize = n_defaultBatchSize\<rparr>"

record n_Stats =
  nsEnvelopes :: int64
  nsBytesRead :: int64
  nsParseErrors :: int64

definition n_NewStats :: n_Stats where
  "n_NewStats = \<lparr>nsEnvelopes = 0, nsBytesRead = 0, nsParseErrors = 0\<rparr>"

record n_Prom =
  npEnvelopesProcessed :: nat
  npFlightsPublished :: nat
  npParseErrors :: nat
  npPublishErrors :: nat
  npDLQPublished :: nat

definition n_zeroProm :: n_Prom where
  "n_zeroProm = \<lparr>npEnvelopesProcessed = 0, npFlightsPublished = 0, npParseErrors = 0, npPublishErrors = 0,
     npDLQPublished = 0\<rparr>"

text \<open>A message to publish: key and value. The cause of a dead letter is a parse or an encode error.\<close>

type_synonym outmsg = "bytes \<times> bytes"
type_synonym n_cause = "xml_error + marshal_error"

datatype n_event =
    NPublish kmsg "outmsg list" bool
  | NDead kmsg "n_cause Envelope option" bool
  | NNothing kmsg
  | NCommit "kmsg list" kmsg bool

record n_acc =
  n_stats :: n_Stats
  n_prom :: n_Prom
  n_failed :: bool
  n_log :: "n_event list"

definition n_zeroAcc :: n_acc where
  "n_zeroAcc = \<lparr>n_stats = n_NewStats, n_prom = n_zeroProm, n_failed = False, n_log = []\<rparr>"

record n_env =
  n_now :: gotime
  n_pub_ok :: bool
  n_dlq_ok :: bool

section \<open>Operations\<close>

definition n_emit :: "n_event \<Rightarrow> n_acc \<Rightarrow> n_acc" where
  "n_emit e a = a\<lparr>n_log := n_log a @ [e]\<rparr>"

definition n_deadLetter :: "n_env \<Rightarrow> kmsg \<Rightarrow> n_cause \<Rightarrow> n_acc \<Rightarrow> n_acc" where
  "n_deadLetter env msg cause a =
     (case dlq_Publish (n_now env) (n_dlq_ok env) msg ''normalizer'' ''poison'' cause of
        (Some err, sent) \<Rightarrow> (n_emit (NDead msg sent False) a)\<lparr>n_failed := True\<rparr>
      | (None, sent) \<Rightarrow> (n_emit (NDead msg sent True) a)\<lparr>
          n_prom := (n_prom a)\<lparr>npDLQPublished := npDLQPublished (n_prom a) + 1\<rparr>\<rparr>)"

text \<open>The loop of \<^verbatim>\<open>encodeFlights\<close>, with the messages made so far.\<close>

fun encode_loop :: "outmsg list \<Rightarrow> gval list \<Rightarrow> marshal_error + outmsg list" where
  "encode_loop msgs [] = Inr msgs"
| "encode_loop msgs (f # fs) =
     (case EncodeOne f of
        Inl err \<Rightarrow> Inl err
      | Inr data \<Rightarrow> encode_loop (msgs @ [(gstr f [''flight'', ''gufi'', ''code''], data)]) fs)"

definition encodeFlights :: "gval list \<Rightarrow> marshal_error + outmsg list" where
  "encodeFlights flights = (if flights = [] then Inr [] else encode_loop [] flights)"

definition n_count :: "kmsg \<Rightarrow> n_acc \<Rightarrow> n_acc" where
  "n_count msg a = a\<lparr>
     n_stats := (n_stats a)\<lparr>nsEnvelopes := nsEnvelopes (n_stats a) + 1,
       nsBytesRead := nsBytesRead (n_stats a) + of_nat (length (Value msg))\<rparr>,
     n_prom := (n_prom a)\<lparr>npEnvelopesProcessed := npEnvelopesProcessed (n_prom a) + 1\<rparr>\<rparr>"

definition n_process :: "xml_reader \<Rightarrow> n_env \<Rightarrow> kmsg \<Rightarrow> n_acc \<Rightarrow> n_acc" where
  "n_process X env msg a0 =
     (let a = n_count msg a0
      in case ParseEnvelope X (Value msg) of
           Inl err \<Rightarrow>
             n_deadLetter env msg (Inl err) (a\<lparr>
               n_stats := (n_stats a)\<lparr>nsParseErrors := nsParseErrors (n_stats a) + 1\<rparr>,
               n_prom := (n_prom a)\<lparr>npParseErrors := npParseErrors (n_prom a) + 1\<rparr>\<rparr>)
         | Inr flights \<Rightarrow>
             (case encodeFlights flights of
                Inl err \<Rightarrow> n_deadLetter env msg (Inr err) a
              | Inr msgs \<Rightarrow>
                  if msgs = [] then n_emit (NNothing msg) a
                  else if \<not> n_pub_ok env then
                    n_emit (NPublish msg msgs False) (a\<lparr>
                      n_prom := (n_prom a)\<lparr>npPublishErrors := npPublishErrors (n_prom a) + 1\<rparr>,
                      n_failed := True\<rparr>)
                  else
                    n_emit (NPublish msg msgs True) (a\<lparr>
                      n_prom := (n_prom a)\<lparr>npFlightsPublished := npFlightsPublished (n_prom a) + length msgs\<rparr>\<rparr>)))"

function n_fill :: "'c fetcher \<Rightarrow> int \<Rightarrow> kmsg list \<Rightarrow> 'c \<Rightarrow> kmsg list \<times> 'c" where
  "n_fill fetch n batch c =
     (if int (length batch) < n
      then (case fetch FlushCtx c of
              (Inl err, c') \<Rightarrow> (batch, c')
            | (Inr msg, c') \<Rightarrow> n_fill fetch n (batch @ [msg]) c')
      else (batch, c))"
  by pat_completeness auto
termination
  by (relation "measure (\<lambda>(fetch, n, batch, c). nat (n - int (length batch)))") auto

declare n_fill.simps [simp del]

definition n_readBatch :: "Normalizer \<Rightarrow> 'c fetcher \<Rightarrow> 'c \<Rightarrow> (fetch_error + kmsg list) \<times> 'c" where
  "n_readBatch p fetch c =
     (case fetch RunCtx c of
        (Inl err, c') \<Rightarrow> (Inl err, c')
      | (Inr first, c') \<Rightarrow> (let (batch, c'') = n_fill fetch (n_batchSize p) [first] c' in (Inr batch, c'')))"

definition n_commit :: "bool \<Rightarrow> kmsg list \<Rightarrow> n_acc \<Rightarrow> n_acc" where
  "n_commit ok batch a = n_emit (NCommit batch (last batch) ok) a"

section \<open>The loop\<close>

datatype n_phase = NReading | NWorking "kmsg list" "kmsg list" | NReturned

record 'c n_run =
  n_consumer :: 'c
  n_acc_of :: n_acc
  n_phase :: n_phase

definition n_initial :: "'c \<Rightarrow> 'c n_run" where
  "n_initial c = \<lparr>n_consumer = c, n_acc_of = n_zeroAcc, n_phase = NReading\<rparr>"

inductive n_step :: "xml_reader \<Rightarrow> Normalizer \<Rightarrow> 'c fetcher \<Rightarrow> 'c n_run \<Rightarrow> 'c n_run \<Rightarrow> bool"
  for X p fetch where
  n_read_done: "\<lbrakk>n_phase r = NReading; n_readBatch p fetch (n_consumer r) = (Inl err, c')\<rbrakk>
    \<Longrightarrow> n_step X p fetch r (r\<lparr>n_consumer := c', n_phase := NReturned\<rparr>)"
| n_read_error: "\<lbrakk>n_phase r = NReading; n_readBatch p fetch (n_consumer r) = (Inl err, c')\<rbrakk>
    \<Longrightarrow> n_step X p fetch r (r\<lparr>n_consumer := c'\<rparr>)"
| n_read_empty: "\<lbrakk>n_phase r = NReading; n_readBatch p fetch (n_consumer r) = (Inr [], c')\<rbrakk>
    \<Longrightarrow> n_step X p fetch r (r\<lparr>n_consumer := c'\<rparr>)"
| n_read: "\<lbrakk>n_phase r = NReading; n_readBatch p fetch (n_consumer r) = (Inr batch, c'); batch \<noteq> []\<rbrakk>
    \<Longrightarrow> n_step X p fetch r (r\<lparr>n_consumer := c', n_phase := NWorking batch batch,
          n_acc_of := (n_acc_of r)\<lparr>n_failed := False\<rparr>\<rparr>)"
| n_work: "\<lbrakk>n_phase r = NWorking batch (xs @ m # ys)\<rbrakk>
    \<Longrightarrow> n_step X p fetch r (r\<lparr>n_acc_of := n_process X env m (n_acc_of r), n_phase := NWorking batch (xs @ ys)\<rparr>)"
| n_batch_failed: "\<lbrakk>n_phase r = NWorking batch []; n_failed (n_acc_of r)\<rbrakk>
    \<Longrightarrow> n_step X p fetch r (r\<lparr>n_phase := NReading\<rparr>)"
| n_batch_done: "\<lbrakk>n_phase r = NWorking batch []; \<not> n_failed (n_acc_of r)\<rbrakk>
    \<Longrightarrow> n_step X p fetch r (r\<lparr>n_acc_of := n_commit ok batch (n_acc_of r), n_phase := NReading\<rparr>)"

definition n_reachable :: "xml_reader \<Rightarrow> Normalizer \<Rightarrow> 'c fetcher \<Rightarrow> 'c n_run \<Rightarrow> 'c n_run \<Rightarrow> bool" where
  "n_reachable X p fetch = (n_step X p fetch)\<^sup>*\<^sup>*"

section \<open>What a call does\<close>

fun n_handled :: "n_event \<Rightarrow> bool" where
  "n_handled (NCommit b m ok) = False"
| "n_handled _ = True"

fun n_ev_msg :: "n_event \<Rightarrow> kmsg" where
  "n_ev_msg (NPublish m ms ok) = m"
| "n_ev_msg (NDead m env ok) = m"
| "n_ev_msg (NNothing m) = m"
| "n_ev_msg (NCommit b m ok) = m"

fun n_ev_ok :: "n_event \<Rightarrow> bool" where
  "n_ev_ok (NPublish m ms ok) = ok"
| "n_ev_ok (NDead m env ok) = ok"
| "n_ev_ok (NNothing m) = True"
| "n_ev_ok (NCommit b m ok) = ok"

text \<open>The messages made from a list of flights: one per flight, in order, keyed by GUFI.\<close>

definition flight_msgs :: "gval list \<Rightarrow> outmsg list" where
  "flight_msgs fs = map (\<lambda>f. (gstr f [''flight'', ''gufi'', ''code''], jprint (json_of fx_Message f))) fs"

lemma encode_loop_flight_msgs: "encode_loop msgs fs = Inr (msgs @ flight_msgs fs)"
  by (induction fs arbitrary: msgs) (simp_all add: EncodeOne_def flight_msgs_def)

lemma encodeFlights_flight_msgs: "encodeFlights fs = Inr (flight_msgs fs)"
  by (simp add: encodeFlights_def encode_loop_flight_msgs) (simp add: flight_msgs_def)

text \<open>The event a call of \<open>n_process\<close> ends in.\<close>

definition n_outcome :: "xml_reader \<Rightarrow> n_env \<Rightarrow> kmsg \<Rightarrow> n_event" where
  "n_outcome X env msg =
     (case ParseEnvelope X (Value msg) of
        Inl err \<Rightarrow> (case dlq_Publish (n_now env) (n_dlq_ok env) msg ''normalizer'' ''poison'' (Inl err) of
            (e, sent) \<Rightarrow> NDead msg sent (e = None))
      | Inr flights \<Rightarrow> if flights = [] then NNothing msg else NPublish msg (flight_msgs flights) (n_pub_ok env))"

lemmas n_process_defs = n_process_def n_count_def n_deadLetter_def n_emit_def n_outcome_def
  encodeFlights_flight_msgs Let_def

lemma n_process_log [go_simps]: "n_log (n_process X env m a) = n_log a @ [n_outcome X env m]"
  by (auto simp: n_process_defs flight_msgs_def split: sum.splits prod.splits option.splits)

lemma n_process_failed [go_simps]:
  "n_failed (n_process X env m a) \<longleftrightarrow> n_failed a \<or> \<not> n_ev_ok (n_outcome X env m)"
  by (auto simp: n_process_defs flight_msgs_def split: sum.splits prod.splits option.splits)

lemma n_outcome_msg [simp]: "n_ev_msg (n_outcome X env m) = m" "n_handled (n_outcome X env m)"
  by (auto simp: n_outcome_def split: sum.splits prod.splits)

section \<open>Invariants\<close>

interpretation nbf: batch_filler n_fill
  by unfold_locales (subst n_fill.simps, simp)+

interpretation nwl: worker_log n_ev_msg n_handled n_ev_ok .

lemma n_readBatch_Inr:
  assumes "n_readBatch p fetch c = (Inr b, c')"
  shows "b \<noteq> [] \<and> int (length b) \<le> max 1 (n_batchSize p)"
    and "in_order fetch pending \<Longrightarrow> pending c = b @ pending c'"
proof -
  obtain m c1 where m: "fetch RunCtx c = (Inr m, c1)" "n_fill fetch (n_batchSize p) [m] c1 = (b, c')"
    using assms by (auto simp: n_readBatch_def split: prod.splits sum.splits)
  show "b \<noteq> [] \<and> int (length b) \<le> max 1 (n_batchSize p)"
    using nbf.fill_first(1) [OF m(2)] by simp
  show "pending c = b @ pending c'" if "in_order fetch pending"
    using nbf.fill_first(2) [OF m(2) that] that m(1)
    by (auto simp: in_order_def dest!: spec [of _ RunCtx] spec [of _ c])
qed

text \<open>A message was delivered: its flights were published, all of them in one acknowledged write, or
  it cannot be parsed and its bytes are in the dead-letter topic.\<close>

definition n_delivered :: "xml_reader \<Rightarrow> n_event \<Rightarrow> bool" where
  "n_delivered X e = (let m = n_ev_msg e in
     case ParseEnvelope X (Value m) of
       Inl err \<Rightarrow> (\<exists>env. e = NDead m (Some env) True \<and> Payload env = Value m \<and> EnvOffset env = Offset m \<and> Cause env = Inl err)
     | Inr fs \<Rightarrow> e = (if fs = [] then NNothing m else NPublish m (flight_msgs fs) True))"

definition n_justified :: "xml_reader \<Rightarrow> n_event \<Rightarrow> bool" where
  "n_justified X e \<longleftrightarrow> (n_handled e \<longrightarrow> (\<exists>env. e = n_outcome X env (n_ev_msg e)))"

lemma n_outcome_delivered: "n_ev_ok (n_outcome X env m) \<Longrightarrow> n_delivered X (n_outcome X env m)"
  unfolding n_delivered_def
  by (auto simp: n_outcome_def dlq_Publish_def Let_def split: sum.splits if_splits)

lemma n_delivered_outcome:
  assumes "n_justified X e" "n_handled e" "n_ev_ok e"
  shows "n_delivered X e"
proof -
  obtain env where "e = n_outcome X env (n_ev_msg e)" using assms unfolding n_justified_def by blast
  with assms(3) show ?thesis using n_outcome_delivered by metis
qed

definition n_tallied :: "n_acc \<Rightarrow> bool" where
  "n_tallied a \<longleftrightarrow>
     npEnvelopesProcessed (n_prom a) = length (filter n_handled (n_log a)) \<and>
     npFlightsPublished (n_prom a) = (\<Sum>e\<leftarrow>n_log a. case e of NPublish m ms True \<Rightarrow> length ms | _ \<Rightarrow> 0) \<and>
     npDLQPublished (n_prom a) = length (filter (\<lambda>e. case e of NDead m env ok \<Rightarrow> ok | _ \<Rightarrow> False) (n_log a)) \<and>
     npParseErrors (n_prom a) = length (filter (\<lambda>e. case e of NDead m env ok \<Rightarrow> True | _ \<Rightarrow> False) (n_log a)) \<and>
     npPublishErrors (n_prom a) = length (filter (\<lambda>e. case e of NPublish m ms ok \<Rightarrow> \<not> ok | _ \<Rightarrow> False) (n_log a)) \<and>
     nsEnvelopes (n_stats a) = of_nat (npEnvelopesProcessed (n_prom a)) \<and>
     nsParseErrors (n_stats a) = of_nat (npParseErrors (n_prom a))"

lemma n_tallied_process [inv_intros]: "n_tallied a \<Longrightarrow> n_tallied (n_process X env m a)"
  by (auto simp: n_tallied_def n_process_defs flight_msgs_def split: sum.splits prod.splits option.splits)

definition n_closed :: "n_event list \<Rightarrow> bool" where
  "n_closed = every_prefix (\<lambda>l1 e. \<forall>batch m ok. e = NCommit batch m ok \<longrightarrow> nwl.closes_batch l1 batch m)"

definition n_inv :: "xml_reader \<Rightarrow> 'c n_run \<Rightarrow> bool" where
  "n_inv X r \<longleftrightarrow> n_tallied (n_acc_of r) \<and> n_closed (n_log (n_acc_of r)) \<and>
     list_all (n_justified X) (n_log (n_acc_of r)) \<and>
     (case n_phase r of NWorking batch queue \<Rightarrow> nwl.batch_open (n_log (n_acc_of r)) (n_failed (n_acc_of r)) batch queue
      | _ \<Rightarrow> True)"

lemma n_inv_initial [inv_intros]: "n_inv X (n_initial c)"
  by (simp add: n_inv_def n_initial_def n_zeroAcc_def n_tallied_def n_closed_def n_NewStats_def n_zeroProm_def)

lemma n_inv_step:
  assumes "n_step X p fetch r r'" "n_inv X r"
  shows "n_inv X r'"
  using assms
proof (cases rule: n_step.cases)
  case (n_work batch xs m ys env)
  let ?e = "n_outcome X env m"
  have "\<not> (\<exists>b m ok. ?e = NCommit b m ok)" "n_justified X ?e"
    using n_outcome_msg [of X env m] by (auto simp: n_justified_def simp del: n_outcome_msg)
  moreover have "nwl.batch_open (n_log (n_acc_of r) @ [?e]) (n_failed (n_acc_of r) \<or> \<not> n_ev_ok ?e) batch (xs @ ys)"
    using assms(2) n_work by (auto simp: n_inv_def intro!: nwl.batch_open_work)
  ultimately show ?thesis
    using assms(2) n_work by (simp add: n_inv_def go_simps n_closed_def n_tallied_process)
next
  case (n_batch_done batch ok)
  then show ?thesis
    using assms(2)
    by (auto simp: n_inv_def n_commit_def n_emit_def n_closed_def n_justified_def n_tallied_def nwl.batch_open_closes)
qed (auto simp: n_inv_def n_tallied_def intro: nwl.batch_open_start)

lemma n_inv_reachable:
  assumes "n_reachable X p fetch (n_initial c) r"
  shows "n_inv X r"
  using assms unfolding n_reachable_def
  by (induction rule: rtranclp_induct) (auto intro: n_inv_step n_inv_initial)

section \<open>Properties\<close>

text \<open>
  C14: an offset is committed only after every envelope of its batch was delivered: all its flights
  published in one acknowledged write, one message per flight in order and keyed by its GUFI, or,
  when it cannot be parsed, its bytes written to the dead-letter topic; and the count of published
  flights is the number of messages in acknowledged writes.
\<close>

theorem normalizer_commit_delivers:
  assumes "n_reachable X p fetch (n_initial c) r"
    and "n_log (n_acc_of r) = l1 @ NCommit batch m ok # l2"
  shows "m = last batch \<and> (\<exists>l0 outs. l1 = l0 @ outs \<and> mset (map n_ev_msg outs) = mset batch \<and>
       (\<forall>e \<in> set outs. n_delivered X e)) \<and>
     npFlightsPublished (n_prom (n_acc_of r)) =
       (\<Sum>e\<leftarrow>n_log (n_acc_of r). case e of NPublish m ms True \<Rightarrow> length ms | _ \<Rightarrow> 0)"
proof -
  have inv: "n_inv X r" by (rule n_inv_reachable [OF assms(1)])
  then have "nwl.closes_batch l1 batch m"
    using assms(2) by (auto simp: n_inv_def n_closed_def every_prefix_def)
  then obtain l0 outs where o: "m = last batch" "l1 = l0 @ outs" "mset (map n_ev_msg outs) = mset batch"
    "list_all (\<lambda>e. n_handled e \<and> n_ev_ok e) outs"
    unfolding nwl.closes_batch_def by blast
  moreover have "\<forall>e \<in> set outs. n_delivered X e"
    using inv o(2,4) assms(2) n_delivered_outcome by (auto simp: n_inv_def list_all_iff)
  moreover have "npFlightsPublished (n_prom (n_acc_of r)) =
       (\<Sum>e\<leftarrow>n_log (n_acc_of r). case e of NPublish m ms True \<Rightarrow> length ms | _ \<Rightarrow> 0)"
    using inv unfolding n_inv_def n_tallied_def by blast
  ultimately show ?thesis by blast
qed

text \<open>A whole iteration with a batch of one envelope.\<close>

lemma n_one_envelope:
  assumes "n_phase r = NReading" "n_readBatch p fetch (n_consumer r) = (Inr [m], c')"
    and a: "a = n_process X env m ((n_acc_of r)\<lparr>n_failed := False\<rparr>)" "\<not> n_failed a"
  shows "n_reachable X p fetch r (r\<lparr>n_consumer := c', n_acc_of := n_commit ok [m] a, n_phase := NReading\<rparr>)"
proof -
  let ?b = "r\<lparr>n_consumer := c', n_phase := NWorking [m] [m], n_acc_of := (n_acc_of r)\<lparr>n_failed := False\<rparr>\<rparr>"
  let ?w = "?b\<lparr>n_acc_of := a, n_phase := NWorking [m] ([] @ [])\<rparr>"
  let ?step = "n_step X p fetch"
  have "?step r ?b"
    using n_step.n_read [of r p fetch "[m]" c'] assms by simp
  moreover have "?step ?b ?w"
    using n_step.n_work [of ?b "[m]" "[]" m "[]"] a by simp
  moreover have "?step ?w (r\<lparr>n_consumer := c', n_acc_of := n_commit ok [m] a, n_phase := NReading\<rparr>)"
    using n_step.n_batch_done [of ?w "[m]"] a(2) by simp
  ultimately show ?thesis
    unfolding n_reachable_def by (meson converse_rtranclp_into_rtranclp rtranclp.rtrancl_refl)
qed

text \<open>An envelope with one flight, and a consumer that has it.\<close>

definition demo_flight_xml :: xnode where
  "demo_flight_xml = XE ''flight'' [([], ''timestamp'', ''t1'')]
     [XE ''flightIdentification'' [([], ''aircraftIdentification'', ''AAL1'')] [],
      XE ''gufi'' [] [XText ''g1'']]"

definition demo_xml :: xml_reader where
  "demo_xml data = Inr (XE ''MessageCollection'' [] [XE ''message'' [] [demo_flight_xml]])"

definition n_demo_msg :: kmsg where
  "n_demo_msg = \<lparr>Topic = ''raw'', Partition = 0, Offset = 5, Value = []\<rparr>"

definition n_demo_fetch :: "kmsg list fetcher" where
  "n_demo_fetch x c = (case c of [] \<Rightarrow> (Inl DeadlineExceeded, []) | m # ms \<Rightarrow> (Inr m, ms))"

theorem normalizer_commit_delivers_witness:
  "\<exists>l0 outs. mset (map n_ev_msg outs) = mset [n_demo_msg] \<and> (\<forall>e \<in> set outs. n_delivered demo_xml e) \<and>
     (\<exists>fs. ParseEnvelope demo_xml [] = Inr fs \<and> length fs = 1 \<and> [NPublish n_demo_msg (flight_msgs fs) True] = l0 @ outs)"
proof -
  let ?env = "\<lparr>n_now = 0, n_pub_ok = True, n_dlq_ok = True\<rparr>"
  let ?r = "n_initial [n_demo_msg]"
  let ?a = "n_process demo_xml ?env n_demo_msg ((n_acc_of ?r)\<lparr>n_failed := False\<rparr>)"
  have p: "\<not> isl (ParseEnvelope demo_xml [])" "length (projr (ParseEnvelope demo_xml [])) = 1" by code_simp+
  obtain fs where fs: "ParseEnvelope demo_xml [] = Inr fs" "length fs = 1"
    using p by (cases "ParseEnvelope demo_xml []") auto
  have o: "n_outcome demo_xml ?env n_demo_msg = NPublish n_demo_msg (flight_msgs fs) True"
    using fs by (auto simp: n_outcome_def n_demo_msg_def)
  have "n_fill n_demo_fetch 100 [n_demo_msg] [] = ([n_demo_msg], [])"
    by (subst n_fill.simps) (simp add: n_demo_fetch_def)
  then have "n_readBatch (n_New 1) n_demo_fetch [n_demo_msg] = (Inr [n_demo_msg], [])"
    by (simp add: n_readBatch_def n_demo_fetch_def n_New_def n_defaultBatchSize_def)
  then have r: "n_reachable demo_xml (n_New 1) n_demo_fetch ?r (?r\<lparr>n_consumer := [],
      n_acc_of := n_commit True [n_demo_msg] ?a, n_phase := NReading\<rparr>)"
    by (intro n_one_envelope) (simp_all add: n_process_failed o, simp_all add: n_initial_def n_zeroAcc_def)
  have l: "n_log (n_acc_of (?r\<lparr>n_consumer := [], n_acc_of := n_commit True [n_demo_msg] ?a, n_phase := NReading\<rparr>))
      = [NPublish n_demo_msg (flight_msgs fs) True] @ NCommit [n_demo_msg] n_demo_msg True # []"
    by (simp add: n_commit_def n_emit_def n_process_log o) (simp add: n_initial_def n_zeroAcc_def)
  obtain l0 outs where "[NPublish n_demo_msg (flight_msgs fs) True] = l0 @ outs"
    "mset (map n_ev_msg outs) = mset [n_demo_msg]" "\<forall>e \<in> set outs. n_delivered demo_xml e"
    using normalizer_commit_delivers [OF r l] by blast
  then show ?thesis using fs by blast
qed

end
