(* ===== verification/Normalizer_Readers.thy ===== *)
theory Normalizer_Readers
  imports Normalizer Filter_Flight Db_Flight Cache_Flight
begin

text \<open>
  What the three consumers read from a message the normalizer wrote: the filter, the database
  writer and the cache writer decode the JSON of one flight with structs of their own.
\<close>

text \<open>The value with every byte that is not UTF-8 replaced, as JSON carries it.\<close>

fun gvalid :: "gval \<Rightarrow> gval" where
  "gvalid (VStr s) = VStr (to_valid s)"
| "gvalid (VStruct fs) = VStruct (map (\<lambda>(n, v). (n, gvalid v)) fs)"
| "gvalid (VSlice xs spare) = VSlice (map gvalid xs) (map gvalid spare)"

lemma to_valid_Nil [simp]: "to_valid [] = []"
  by (simp add: to_valid.simps)

lemma getv_gvalid [simp]: "getv (gvalid v) n = gvalid (getv v n)"
  by (cases v) (auto simp: getv_def map_of_map split: option.split)

lemma gpath_gvalid [simp]: "gpath (gvalid v) p = gvalid (gpath v p)"
  unfolding gpath_def by (induction p arbitrary: v) auto

lemma gtext_gvalid [simp]: "gtext (gvalid v) = to_valid (gtext v)"
  by (cases v) auto

lemma gelems_gvalid [simp]: "gelems (gvalid v) = map gvalid (gelems v)"
  by (cases v) auto

lemma gstr_gtext: "gstr v p = gtext (gpath v p)"
  by (simp add: gstr_def split: gval.split)

lemma glist_gelems: "glist v p = gelems (gpath v p)"
  by (simp add: glist_def split: gval.split)

lemma gpath_simps [simp]: "gpath v [] = v" "gpath v (n # p) = gpath (getv v n) p"
  by (simp_all add: gpath_def)

lemmas read_simps = fx_defs getv_def gstr_gtext glist_gelems

lemma writer_ok: "ascii_names fx_Message" "fdepth fx_Message \<le> maxNestingDepth"
  by code_simp+

lemma readers_ok: "reads element fx_Message" "reads db_element fx_Message" "reads cw_element fx_Message"
  by code_simp+

lemma Unmarshal_message:
  assumes "reads R fx_Message"
  shows "Unmarshal R (jprint (json_of fx_Message m)) = Inr (view R fx_Message m)"
  by (rule Unmarshal_json_of [OF assms writer_ok])

lemma getv_view:
  "getv (view (TStruct R) (FStruct W) v) n = (case map_of R n of
     None \<Rightarrow> VStr []
   | Some a \<Rightarrow> (case field_of W n of None \<Rightarrow> zero a | Some w \<Rightarrow> view a w (getv v n)))"
proof -
  have "map_of (map (\<lambda>(n, a). (n, g n a)) R) n = map_option (g n) (map_of R n)" for g :: "string \<Rightarrow> gty \<Rightarrow> gval"
    by (induction R) auto
  then show ?thesis by (simp add: getv_def split: option.split)
qed

lemma gtext_view [simp]: "gtext (view TStr FStr v) = to_valid (gtext v)"
  by simp

lemma gelems_view [simp]: "gelems (view (TSlice a) (FSlice w) v) = map (view a w) (gelems v)"
  by simp

lemmas walk = gstr_gtext glist_gelems getv_view

lemma best_step_view: "best_step F (view db_position fx_Position p) = best_step F (gvalid p)"
  unfolding best_step_def db_position_def fx_defs by (simp add: walk fun_eq_iff del: view.simps split: option.split)

lemma flight_of_view: "flight_of F (view db_element fx_Message m) = flight_of F (gvalid m)"
proof -
  have pos: "fold (best_step F) (map (view db_position fx_Position) xs) b = fold (best_step F) (map gvalid xs) b" for xs b
    by (induction xs arbitrary: b) (simp_all add: best_step_view)
  show ?thesis
    using pos unfolding flight_of_def db_element_def runwayTime_def aerodrome_def
      fx_Message_def fx_Flight_def fx_FlightIdentification_def fx_FlightStatus_def fx_Gufi_def fx_Departure_def
      fx_Arrival_def fx_EnRoute_def fx_AircraftDescription_def fx_AircraftType_def fx_RunwayPositionAndTime_def
      fx_RunwayTime_def fx_TimeValue_def fx_AerodromeLocation_def fx_Point_def fx_Location_def
    by (simp add: walk Let_def del: view.simps)
qed

lemma cw_best_step_view: "cw_best_step F (view cw_positionType fx_Position p) = cw_best_step F (gvalid p)"
  unfolding cw_best_step_def cw_positionType_def fx_defs by (simp add: walk fun_eq_iff del: view.simps split: option.split)

lemma cw_flight_of_view: "cw_flight_of F (view cw_element fx_Message m) = cw_flight_of F (gvalid m)"
proof -
  have pos: "fold (cw_best_step F) (map (view cw_positionType fx_Position) xs) b =
      fold (cw_best_step F) (map gvalid xs) b" for xs b
    by (induction xs arbitrary: b) (simp_all add: cw_best_step_view)
  then show ?thesis
    unfolding cw_flight_of_def cw_element_def fx_Message_def fx_Flight_def fx_FlightIdentification_def
      fx_FlightStatus_def fx_Gufi_def fx_EnRoute_def fx_AircraftDescription_def
    by (simp add: walk Let_def del: view.simps)
qed

lemma cw_Parse_message: "cw_Parse F (jprint (json_of fx_Message m)) = Inr (cw_flight_of F (gvalid m))"
  by (simp add: cw_Parse_def Unmarshal_message readers_ok cw_flight_of_view)

lemma db_Parse_message: "db_Parse F (jprint (json_of fx_Message m)) = Inr (flight_of F (gvalid m))"
  by (simp add: db_Parse_def Unmarshal_message readers_ok flight_of_view)

lemma Parse_message:
  fixes m :: gval
  defines "p \<equiv> jprint (json_of fx_Message m)"
  shows "Parse p = Inr \<lparr>Raw = p,
     ident = \<lparr>CallSign = gstr (gvalid m) [''flight'', ''flightIdentification'', ''aircraftIdentification''],
              Registration = gstr (gvalid m) [''flight'', ''aircraftDescription'', ''registration'']\<rparr>,
     Gufi = gstr (gvalid m) [''flight'', ''gufi'', ''code'']\<rparr>"
  unfolding Parse_def p_def Unmarshal_message [OF readers_ok(1)]
  unfolding element_def fx_Message_def fx_Flight_def fx_FlightIdentification_def fx_AircraftDescription_def fx_Gufi_def
  by (simp add: walk del: view.simps)

section \<open>Property\<close>

text \<open>
  C12: what the normalizer writes for a flight reads back in every consumer: the filter gets the call
  sign, registration and GUFI of the flight, and the database writer and the cache writer get exactly
  the flight they would make of the normalizer's own value, with all of its positions (bytes that
  are not UTF-8 come back as the replacement character). Encoding never fails.
\<close>

theorem normalized_message_reads_back:
  "\<exists>data. EncodeOne m = Inr data \<and>
     Parse data = Inr \<lparr>Raw = data,
       ident = \<lparr>CallSign = gstr (gvalid m) [''flight'', ''flightIdentification'', ''aircraftIdentification''],
                Registration = gstr (gvalid m) [''flight'', ''aircraftDescription'', ''registration'']\<rparr>,
       Gufi = gstr (gvalid m) [''flight'', ''gufi'', ''code'']\<rparr> \<and>
     db_Parse F data = Inr (flight_of F (gvalid m)) \<and>
     cw_Parse F data = Inr (cw_flight_of F (gvalid m))"
  by (simp add: EncodeOne_def Parse_message db_Parse_message cw_Parse_message)

end
