(* ===== verification/Api_Live.thy ===== *)
theory Api_Live
  imports Cache_Writer Normalizer_Readers Go_Strconv
begin

text \<open>
  api/internal/live: the read side of the live view. \<^verbatim>\<open>ListFlights\<close> and \<^verbatim>\<open>GetFlight\<close> read the
  hashes the cache writer keeps, \<^verbatim>\<open>flightFromHash\<close> turns a hash into a flight, and the two handlers
  answer with JSON. Parameters are the texts the Redis client writes for floats and times, what
  \<^verbatim>\<open>strconv.ParseFloat\<close> returns beside an error (zero or an infinity), and the JSON text of a float,
  which NaN and the infinities do not have.
\<close>

section \<open>Model\<close>

record 'f api_libs =
  floats :: "'f float64"
  float_text :: "'f \<Rightarrow> string"
  time_text :: "gotime \<Rightarrow> string"
  parse_error_value :: "string \<Rightarrow> 'f"
  float_json :: "'f \<Rightarrow> string option"

fun rtext :: "'f api_libs \<Rightarrow> 'f rval \<Rightarrow> string" where
  "rtext L (RStr s) = s"
| "rtext L (RFloat x) = float_text L x"
| "rtext L (RTime t) = time_text L t"

text \<open>\<^verbatim>\<open>HGETALL\<close>: the empty reply of a missing key is \<open>None\<close>; Redis keeps no empty hash.\<close>

definition HGetAll :: "'f api_libs \<Rightarrow> gotime \<Rightarrow> 'f rdb \<Rightarrow> string \<Rightarrow> (string \<rightharpoonup> string) option" where
  "HGetAll L now d k = map_option (\<lambda>h n. map_option (rtext L) (rfields h n)) (lookup_key now d k)"

record 'f live_Flight =
  lf_Gufi :: string
  lf_CallSign :: string
  lf_Registration :: string
  lf_Status :: string
  lf_Lat :: 'f
  lf_Lon :: 'f
  lf_Alt :: 'f
  lf_AltUom :: string
  lf_Heading :: 'f
  lf_SpeedKt :: 'f
  lf_PositionTime :: string
  lf_Timestamp :: string
  lf_UpdatedAt :: string

definition parseF :: "'f api_libs \<Rightarrow> string \<Rightarrow> 'f" where
  "parseF L s = (case ParseFloat (floats L) s of Some x \<Rightarrow> x | None \<Rightarrow> parse_error_value L s)"

text \<open>Indexing a Go map: the empty string where there is no entry.\<close>

definition mget :: "(string \<rightharpoonup> string) \<Rightarrow> string \<Rightarrow> string" where
  "mget m k = (case m k of None \<Rightarrow> [] | Some v \<Rightarrow> v)"

definition flightFromHash :: "'f api_libs \<Rightarrow> (string \<rightharpoonup> string) \<Rightarrow> 'f live_Flight" where
  "flightFromHash L m = \<lparr>
     lf_Gufi = mget m ''gufi'',
     lf_CallSign = mget m ''callSign'',
     lf_Registration = mget m ''registration'',
     lf_Status = mget m ''status'',
     lf_Lat = parseF L (mget m ''lat''),
     lf_Lon = parseF L (mget m ''lon''),
     lf_Alt = parseF L (mget m ''alt''),
     lf_AltUom = mget m ''altUom'',
     lf_Heading = parseF L (mget m ''heading''),
     lf_SpeedKt = parseF L (mget m ''speedKt''),
     lf_PositionTime = mget m ''positionTime'',
     lf_Timestamp = mget m ''timestamp'',
     lf_UpdatedAt = mget m ''updatedAt''\<rparr>"

text \<open>What Redis answers during one request: the keys the scan iterates over, whether the scan and the
  pipelined reads went through, and the time of the reads.\<close>

record redis_replies =
  scanned :: "string list"
  scan_ok :: bool
  reply_ok :: bool
  read_at :: gotime

datatype store_error = RedisError

text \<open>After a pipeline that returned no error no single command has one.\<close>

definition ListFlights :: "'f api_libs \<Rightarrow> redis_replies \<Rightarrow> 'f rdb \<Rightarrow> store_error + 'f live_Flight list" where
  "ListFlights L env d =
     (if \<not> scan_ok env then Inl RedisError
      else if scanned env = [] then Inr []
      else if \<not> reply_ok env then Inl RedisError
      else Inr (List.map_filter (\<lambda>k. map_option (flightFromHash L) (HGetAll L (read_at env) d k)) (scanned env)))"

definition GetFlight :: "'f api_libs \<Rightarrow> string \<Rightarrow> redis_replies \<Rightarrow> string \<Rightarrow> 'f rdb \<Rightarrow> store_error + 'f live_Flight option" where
  "GetFlight L prefix env gufi d =
     (if \<not> reply_ok env then Inl RedisError
      else Inr (map_option (flightFromHash L) (HGetAll L (read_at env) d (prefix @ gufi))))"

section \<open>Answers\<close>

text \<open>A response with a body, or with the status set and no body because the encoder failed.\<close>

datatype response = Answer nat string | Unencodable nat

text \<open>\<^verbatim>\<open>encoding/json\<close> on the struct tags: \<^verbatim>\<open>omitempty\<close> leaves out the empty string and zero.\<close>

definition str_member :: "bool \<Rightarrow> string \<Rightarrow> string \<Rightarrow> (string \<times> json) list option" where
  "str_member omitempty n s = Some (if omitempty \<and> s = [] then [] else [(n, JStr s)])"

definition num_member :: "'f api_libs \<Rightarrow> bool \<Rightarrow> string \<Rightarrow> 'f \<Rightarrow> (string \<times> json) list option" where
  "num_member L omitempty n x =
     (if omitempty \<and> feq (floats L) x (fconst (floats L) 0) then Some []
      else map_option (\<lambda>t. [(n, JNum t)]) (float_json L x))"

fun all_members :: "'a list option list \<Rightarrow> 'a list option" where
  "all_members [] = Some []"
| "all_members (None # ms) = None"
| "all_members (Some m # ms) = map_option (append m) (all_members ms)"

definition live_json :: "'f api_libs \<Rightarrow> 'f live_Flight \<Rightarrow> json option" where
  "live_json L f = map_option JObj (all_members
     [str_member False ''gufi'' (lf_Gufi f), str_member False ''callSign'' (lf_CallSign f),
      str_member True ''registration'' (lf_Registration f), str_member False ''status'' (lf_Status f),
      num_member L False ''lat'' (lf_Lat f), num_member L False ''lon'' (lf_Lon f),
      num_member L True ''alt'' (lf_Alt f), str_member True ''altUom'' (lf_AltUom f),
      num_member L True ''heading'' (lf_Heading f), num_member L True ''speedKt'' (lf_SpeedKt f),
      str_member True ''positionTime'' (lf_PositionTime f), str_member True ''timestamp'' (lf_Timestamp f),
      str_member True ''updatedAt'' (lf_UpdatedAt f)])"

fun live_array :: "'f api_libs \<Rightarrow> 'f live_Flight list \<Rightarrow> json list option" where
  "live_array L [] = Some []"
| "live_array L (f # fs) =
     (case live_json L f of None \<Rightarrow> None | Some j \<Rightarrow> map_option ((#) j) (live_array L fs))"

definition answer :: "nat \<Rightarrow> json option \<Rightarrow> response" where
  "answer code j = (case j of None \<Rightarrow> Unencodable code | Some j \<Rightarrow> Answer code (jprint j))"

definition error_body :: "string \<Rightarrow> json option" where
  "error_body msg = Some (JObj [(''error'', JStr msg)])"

definition List_handler :: "'f api_libs \<Rightarrow> redis_replies \<Rightarrow> 'f rdb \<Rightarrow> response" where
  "List_handler L env d =
     (case ListFlights L env d of
        Inl _ \<Rightarrow> answer 502 (error_body ''failed to read flights'')
      | Inr fls \<Rightarrow> answer 200 (map_option
          (\<lambda>js. JObj [(''count'', JNum (show_nat (length fls))), (''flights'', JArr js)]) (live_array L fls)))"

definition Get_handler :: "'f api_libs \<Rightarrow> string \<Rightarrow> redis_replies \<Rightarrow> string \<Rightarrow> 'f rdb \<Rightarrow> response" where
  "Get_handler L prefix env gufi d =
     (case GetFlight L prefix env gufi d of
        Inl _ \<Rightarrow> answer 502 (error_body ''failed to read flight'')
      | Inr None \<Rightarrow> answer 404 (error_body ''flight not found'')
      | Inr (Some f) \<Rightarrow> answer 200 (live_json L f))"

section \<open>What a hash reads back as\<close>

text \<open>A flight as served, against the report the cache writer stored: all but the time of the write,
  and heading and speed only where the report has them. The altitude travels as text.\<close>

definition serves :: "'f api_libs \<Rightarrow> 'f live_Flight \<Rightarrow> 'f cw_Flight \<Rightarrow> bool" where
  "serves L v f \<longleftrightarrow> (let p = cw_position f in
     lf_Gufi v = cw_Gufi f \<and> lf_CallSign v = cw_CallSign f \<and> lf_Registration v = cw_Registration f \<and>
     lf_Status v = cw_Status f \<and> lf_Lat v = cp_Lat p \<and> lf_Lon v = cp_Lon p \<and>
     lf_Alt v = parseF L (cp_AltValue p) \<and> lf_AltUom v = cp_AltUOM p \<and>
     (cp_HasHeading p \<longrightarrow> lf_Heading v = cp_Heading p \<and> lf_SpeedKt v = cp_SpeedKt p) \<and>
     lf_PositionTime v = cp_PositionTime p \<and> lf_Timestamp v = cw_Timestamp f)"

text \<open>The text the client writes for a float reads back as that float.\<close>

definition prints_back :: "'f api_libs \<Rightarrow> bool" where
  "prints_back L \<longleftrightarrow> (\<forall>x. ParseFloat (floats L) (float_text L x) = Some x)"

text \<open>What the scan promises: the keys of the pattern that are there, possibly more than once.\<close>

definition scan_complete :: "string \<Rightarrow> redis_replies \<Rightarrow> 'f rdb \<Rightarrow> bool" where
  "scan_complete prefix env d \<longleftrightarrow>
     (\<forall>k \<in> set (scanned env). HasPrefix k prefix) \<and>
     (\<forall>k. HasPrefix k prefix \<and> lookup_key (read_at env) d k \<noteq> None \<longrightarrow> k \<in> set (scanned env))"

lemma mget_stored:
  "rfields h n = Some v \<Longrightarrow> mget (\<lambda>n. map_option (rtext L) (rfields h n)) n = rtext L v"
  by (simp add: mget_def)

lemma parseF_stored: "prints_back L \<Longrightarrow> parseF L (float_text L x) = x"
  by (simp add: prints_back_def parseF_def)

lemma fields_stored:
  assumes "shows_flight (Some h) (Some f)"
  shows "rfields h ''gufi'' = Some (RStr (cw_Gufi f))" "rfields h ''callSign'' = Some (RStr (cw_CallSign f))"
    "rfields h ''registration'' = Some (RStr (cw_Registration f))" "rfields h ''status'' = Some (RStr (cw_Status f))"
    "rfields h ''lat'' = Some (RFloat (cp_Lat (cw_position f)))" "rfields h ''lon'' = Some (RFloat (cp_Lon (cw_position f)))"
    "rfields h ''alt'' = Some (RStr (cp_AltValue (cw_position f)))"
    "rfields h ''altUom'' = Some (RStr (cp_AltUOM (cw_position f)))"
    "rfields h ''positionTime'' = Some (RStr (cp_PositionTime (cw_position f)))"
    "rfields h ''timestamp'' = Some (RStr (cw_Timestamp f))"
    "cp_HasHeading (cw_position f) \<Longrightarrow> rfields h ''heading'' = Some (RFloat (cp_Heading (cw_position f)))"
    "cp_HasHeading (cw_position f) \<Longrightarrow> rfields h ''speedKt'' = Some (RFloat (cp_SpeedKt (cw_position f)))"
proof -
  obtain now where h: "\<And>n x. map_of (cw_fields now f) n = Some x \<Longrightarrow> rfields h n = Some x"
    using assms by (auto simp: shows_flight_def)
  note h = h [unfolded cw_fields_def Let_def]
  show "rfields h ''gufi'' = Some (RStr (cw_Gufi f))" "rfields h ''callSign'' = Some (RStr (cw_CallSign f))"
    "rfields h ''registration'' = Some (RStr (cw_Registration f))" "rfields h ''status'' = Some (RStr (cw_Status f))"
    "rfields h ''lat'' = Some (RFloat (cp_Lat (cw_position f)))" "rfields h ''lon'' = Some (RFloat (cp_Lon (cw_position f)))"
    "rfields h ''alt'' = Some (RStr (cp_AltValue (cw_position f)))"
    "rfields h ''altUom'' = Some (RStr (cp_AltUOM (cw_position f)))"
    "rfields h ''positionTime'' = Some (RStr (cp_PositionTime (cw_position f)))"
    "rfields h ''timestamp'' = Some (RStr (cw_Timestamp f))"
    "cp_HasHeading (cw_position f) \<Longrightarrow> rfields h ''heading'' = Some (RFloat (cp_Heading (cw_position f)))"
    "cp_HasHeading (cw_position f) \<Longrightarrow> rfields h ''speedKt'' = Some (RFloat (cp_SpeedKt (cw_position f)))"
    by (rule h; simp)+
qed

lemma flightFromHash_serves:
  assumes "prints_back L" "shows_flight (Some h) (Some f)"
  shows "serves L (flightFromHash L (\<lambda>n. map_option (rtext L) (rfields h n))) f"
  using fields_stored [OF assms(2)]
  by (simp add: serves_def flightFromHash_def Let_def mget_stored parseF_stored [OF assms(1)])

lemma HGetAll_Some:
  "HGetAll L now d k = Some m \<longleftrightarrow>
   (\<exists>h. lookup_key now d k = Some h \<and> m = (\<lambda>n. map_option (rtext L) (rfields h n)))"
  by (auto simp: HGetAll_def)

lemma lookup_key_Some: "lookup_key now d k = Some h \<Longrightarrow> d k = Some h"
  by (auto simp: lookup_key_def split: option.splits if_splits)

lemma ListFlights_Inr:
  assumes "ListFlights L env d = Inr fls"
  shows "v \<in> set fls \<longleftrightarrow> (\<exists>k \<in> set (scanned env). \<exists>h. lookup_key (read_at env) d k = Some h \<and>
     v = flightFromHash L (\<lambda>n. map_option (rtext L) (rfields h n)))"
proof -
  have "fls = List.map_filter (\<lambda>k. map_option (flightFromHash L) (HGetAll L (read_at env) d k)) (scanned env)"
    using assms by (auto simp: ListFlights_def List.map_filter_def split: if_splits)
  then show ?thesis
    by (auto simp: List.map_filter_def HGetAll_def image_iff split: option.splits) force+
qed

text \<open>Every hash of the cache shows a report of one of the messages.\<close>

definition reported :: "'f float64 \<Rightarrow> cw_Store \<Rightarrow> kmsg list \<Rightarrow> 'f rdb \<Rightarrow> bool" where
  "reported F st ms d \<longleftrightarrow> (\<forall>k h. d k = Some h \<longrightarrow> (\<exists>m \<in> set ms. \<exists>f. cw_Parse F (Value m) = Inr f \<and>
     k = keyPrefix st @ cw_Gufi f \<and> shows_flight (Some h) (Some f)))"

lemma reported_mono: "reported F st ms d \<Longrightarrow> set ms \<subseteq> set ms' \<Longrightarrow> d' \<subseteq>\<^sub>m d \<Longrightarrow> reported F st ms' d'"
  unfolding reported_def map_le_def by (metis domI subsetD)

lemma reported_upsert:
  assumes "reported F st ms d" "cw_Parse F (Value m) = Inr f"
  shows "reported F st (ms @ [m]) (snd (UpsertFlight st now res f d))"
proof (cases "res = RRefused")
  case True
  then show ?thesis using assms(1) by (auto simp: UpsertFlight_def Let_def intro: reported_mono)
next
  case False
  show ?thesis
  proof (cases "0 < formatSec (ttl st)")
    case True
    show ?thesis
      using assms shows_flight_fields unfolding lookup_key_upsert [OF True False] reported_def by (auto; blast)
  next
    case no: False
    then have "snd (UpsertFlight st now res f d) = d(keyPrefix st @ cw_Gufi f := None)"
      using upsert_deletes [of st res now f d] upsert_frame [of _ st f now res d] False by (auto simp: fun_eq_iff)
    then have "snd (UpsertFlight st now res f d) \<subseteq>\<^sub>m d" by (simp add: map_le_def)
    then show ?thesis using assms(1) by (auto intro: reported_mono)
  qed
qed

lemma reported_process:
  assumes "reported F st ms (cw_redis s)"
  shows "reported F st (ms @ [m]) (cw_redis (cw_process F st env m s))"
proof (cases "cw_Parse F (Value m)")
  case (Inl e)
  then show ?thesis using assms by (auto simp: cw_process_redis intro: reported_mono)
next
  case (Inr f)
  have "snd (DeleteFlight st (cw_redis_res env) (cw_Gufi f) (cw_redis s)) \<subseteq>\<^sub>m cw_redis s"
    by (auto simp: DeleteFlight_def Del_def map_le_def)
  then show ?thesis
    using assms reported_upsert [OF assms Inr]
    by (auto simp: cw_process_redis Inr intro: reported_mono)
qed

lemma reported_fold:
  "reported F st ms (cw_redis s) \<Longrightarrow>
   reported F st (ms @ map snd ems) (cw_redis (fold (\<lambda>(env, m). cw_process F st env m) ems s))"
proof (induction ems arbitrary: ms s)
  case (Cons em ems)
  then show ?case
    using Cons.IH [OF reported_process [OF Cons.prems, of "snd em" "fst em"]] by (simp add: case_prod_beta)
qed simp

lemma all_members_None: "None \<in> set ms \<Longrightarrow> all_members ms = None"
  by (induction ms rule: all_members.induct) auto

lemma live_array_None: "f \<in> set fs \<Longrightarrow> live_json L f = None \<Longrightarrow> live_array L fs = None"
  by (induction fs) (auto split: option.split)

section \<open>Properties\<close>


text \<open>
  C31: one flight can take down the whole list: the altitude is cached as the text of the message, so
  as soon as one active flight's altitude is a text that parses to a value JSON cannot express (NaN or
  an infinity), the list of all flights is answered without a body.
\<close>

theorem one_flight_breaks_list:
  assumes "scan_complete prefix env d" "scan_ok env" "reply_ok env"
    and "lookup_key (read_at env) d (prefix @ g) = Some h" "shows_flight (Some h) (Some f)"
    and "ParseFloat (floats L) (cp_AltValue (cw_position f)) = Some x"
    and "float_json L x = None" "\<not> feq (floats L) x (fconst (floats L) 0)"
  shows "List_handler L env d = Unencodable 200"
proof -
  let ?v = "flightFromHash L (\<lambda>n. map_option (rtext L) (rfields h n))"
  have k: "prefix @ g \<in> set (scanned env)"
    using assms(1,4) by (auto simp: scan_complete_def HasPrefix_iff)
  then have "scanned env \<noteq> []" by auto
  then obtain fls where fls: "ListFlights L env d = Inr fls"
    using assms(2,3) by (simp add: ListFlights_def)
  then have "?v \<in> set fls" using ListFlights_Inr [OF fls] assms(4) k by blast
  moreover have "lf_Alt ?v = x"
    using fields_stored(7) [OF assms(5)] assms(6) by (simp add: flightFromHash_def mget_stored parseF_def)
  then have "num_member L True ''alt'' (lf_Alt ?v) = None"
    using assms(7,8) by (simp add: num_member_def)
  then have "live_json L ?v = None"
    unfolding live_json_def by (subst all_members_None) simp_all
  ultimately show ?thesis
    using fls by (simp add: List_handler_def answer_def live_array_None)
qed

section \<open>Concrete requests\<close>

definition int_libs :: "int api_libs" where
  "int_libs = \<lparr>floats = int_floats\<lparr>ParseFloat := (\<lambda>s. case s of c # t \<Rightarrow>
       if c = CHR ''-'' \<and> t \<noteq> [] \<and> list_all is_digit t \<and> 0 < read_nat t then Some (- read_nat t)
       else if list_all is_digit s then Some (read_nat s) else None | [] \<Rightarrow> None)\<rparr>,
     float_text = show_int,
     time_text = (\<lambda>t. []), parse_error_value = (\<lambda>s. 0),
     float_json = (\<lambda>x. if x = 666 then None else Some (show_nat (nat x)))\<rparr>"

definition demo_replies :: "string list \<Rightarrow> redis_replies" where
  "demo_replies ks = \<lparr>scanned = ks, scan_ok = True, reply_ok = True, read_at = 0\<rparr>"

lemma int_libs_prints_back: "prints_back int_libs"
proof -
  have "ParseFloat (floats int_libs) (show_int x) = Some x" for x
  proof (cases "x < 0")
    case True
    then show ?thesis by (simp add: int_libs_def show_int_def show_nat_digits)
  next
    case False
    obtain c t where s: "show_nat (nat x) = c # t" by (cases "show_nat (nat x)") auto
    have c: "is_digit c" "list_all is_digit t" using show_nat_digits [of "nat x"] by (simp_all add: s)
    have "\<not> is_digit (CHR ''-'')" by code_simp
    then have "c \<noteq> CHR ''-''" using c(1) by auto
    moreover have "read_nat (c # t) = x" using read_show_nat [of "nat x"] False by (simp add: s)
    ultimately show ?thesis using False c by (simp add: int_libs_def show_int_def s)
  qed
  then have "ParseFloat (floats int_libs) (float_text int_libs x) = Some x" for x
    by (simp add: int_libs_def)
  then show ?thesis by (simp add: prints_back_def)
qed

lemma shows_flight_upsert:
  assumes "0 < formatSec (ttl s)" "res \<noteq> RRefused"
  shows "\<exists>h. lookup_key now (snd (UpsertFlight s now res f d)) (keyPrefix s @ cw_Gufi f) = Some h \<and>
     shows_flight (Some h) (Some f)"
  unfolding lookup_key_upsert [OF assms]
  using assms(1) shows_flight_fields by (auto simp: lookup_key_def second_def)

lemma one_key_scan:
  "scan_complete (keyPrefix s) (demo_replies [keyPrefix s @ cw_Gufi f]) (snd (UpsertFlight s now res f Map.empty))"
proof -
  let ?d = "snd (UpsertFlight s now res f Map.empty)"
  have k: "k = keyPrefix s @ cw_Gufi f" if live: "lookup_key 0 ?d k \<noteq> None" for k
  proof (rule ccontr)
    assume "k \<noteq> keyPrefix s @ cw_Gufi f"
    from upsert_frame [OF this, of now res Map.empty] live show False by (simp add: lookup_key_def)
  qed
  show ?thesis
    unfolding scan_complete_def
  proof (intro conjI ballI allI impI)
    fix k assume "HasPrefix k (keyPrefix s) \<and>
      lookup_key (read_at (demo_replies [keyPrefix s @ cw_Gufi f])) ?d k \<noteq> None"
    then have "lookup_key 0 ?d k \<noteq> None" by (simp add: demo_replies_def)
    from k [OF this] show "k \<in> set (scanned (demo_replies [keyPrefix s @ cw_Gufi f]))"
      by (simp add: demo_replies_def)
  qed (auto simp: demo_replies_def HasPrefix_iff)
qed

text \<open>A message of an active flight with a position.\<close>

definition live_message :: gval where
  "live_message = VStruct [(''flight'', VStruct
     [(''flightIdentification'', VStruct [(''aircraftIdentification'', VStr ''AAL1'')]),
      (''flightStatus'', VStruct [(''fdpsFlightStatus'', VStr ''ACTIVE'')]),
      (''gufi'', VStruct [(''code'', VStr ''g'')]),
      (''enRoute'', VStruct [(''positions'', VSlice [VStruct
        [(''positionTime'', VStr ''t''), (''location'', VStruct [(''pos'', VStr ''40 70'')])]] [])])])]"

definition live_kmsg :: kmsg where
  "live_kmsg = \<lparr>Topic = [], Partition = 0, Offset = 0, Value = jprint (json_of fx_Message live_message)\<rparr>"

definition live_flight :: "int cw_Flight" where
  "live_flight = cw_flight_of (floats int_libs) (gvalid live_message)"

lemma live_flight_facts:
  "cw_Gufi live_flight = ''g''" "cw_CallSign live_flight = ''AAL1''" "cw_Status live_flight = statusActive"
  "cw_HasPosition live_flight" "cp_Lat (cw_position live_flight) = 40"
  by code_simp+

lemma live_kmsg_parse: "cw_Parse (floats int_libs) (Value live_kmsg) = Inr live_flight"
  by (simp add: live_kmsg_def cw_Parse_message live_flight_def)

abbreviation live_redis :: "int rdb" where
  "live_redis \<equiv> cw_redis (fold (\<lambda>(env, m). cw_process (floats int_libs) cw_demo_store env m)
     [(cw_demo_env RAcked, live_kmsg)] (cw_zero Map.empty))"

lemma live_redis_upsert: "live_redis = snd (UpsertFlight cw_demo_store 0 RAcked live_flight Map.empty)"
  using live_flight_facts by (simp add: cw_process_redis live_kmsg_parse cw_demo_env_def cw_zero_def)

lemma live_key: "keyPrefix cw_demo_store @ cw_Gufi live_flight = ''flight:g''"
  by (simp add: live_flight_facts cw_demo_store_def)

lemma live_redis_key: "\<exists>h. lookup_key 0 live_redis ''flight:g'' = Some h"
proof -
  have "0 < formatSec (ttl cw_demo_store)" by code_simp
  then show ?thesis
    using shows_flight_upsert [of cw_demo_store RAcked 0 live_flight Map.empty]
    unfolding live_redis_upsert live_key by blast
qed

lemma live_list: "\<exists>v. ListFlights int_libs (demo_replies [''flight:g'']) live_redis = Inr [v]"
  using live_redis_key by (auto simp: ListFlights_def demo_replies_def HGetAll_def List.map_filter_def)


theorem one_flight_breaks_list_witness:
  "List_handler int_libs (demo_replies [''flight:g''])
     (snd (UpsertFlight cw_demo_store 0 RAcked ((cw_demo_flight True)\<lparr>cw_position := (cw_zero_Position int_floats)\<lparr>cp_AltValue := ''666''\<rparr>\<rparr>)
        Map.empty)) = Unencodable 200"
proof -
  let ?f = "(cw_demo_flight True)\<lparr>cw_position := (cw_zero_Position int_floats)\<lparr>cp_AltValue := ''666''\<rparr>\<rparr>"
  let ?d = "snd (UpsertFlight cw_demo_store 0 RAcked ?f Map.empty)"
  have t: "0 < formatSec (ttl cw_demo_store)" by code_simp
  obtain h where h: "lookup_key 0 ?d (''flight:'' @ ''g'') = Some h" "shows_flight (Some h) (Some ?f)"
    using shows_flight_upsert [OF t, of RAcked 0 ?f Map.empty] by (auto simp: cw_demo_store_def cw_demo_flight_def)
  have "scan_complete ''flight:'' (demo_replies [''flight:g'']) ?d"
    using one_key_scan [of cw_demo_store ?f 0 RAcked] by (simp add: cw_demo_store_def cw_demo_flight_def)
  moreover have "ParseFloat (floats int_libs) ''666'' = Some 666" "float_json int_libs 666 = None"
    "\<not> feq (floats int_libs) 666 (fconst (floats int_libs) 0)"
    by code_simp+
  ultimately show ?thesis
    using one_flight_breaks_list [of "''flight:''" "demo_replies [''flight:g'']" ?d "''g''" h ?f int_libs 666] h
    by (simp add: demo_replies_def)
qed

end
