(* ===== verification/Api_Durable.thy ===== *)
theory Api_Durable
  imports Db_Properties
begin

text \<open>
  api/internal/durable: the stored record of a flight, its row and its track in the order of time,
  read from the tables the database writer fills.
\<close>

section \<open>Model\<close>

record dur_Flight =
  df_Gufi :: string
  df_CallSign :: "string option"
  df_Registration :: "string option"
  df_AircraftType :: "string option"
  df_Origin :: "string option"
  df_Destination :: "string option"
  df_Status :: "string option"
  df_ActualDeparture :: "gotime option"
  df_ActualArrival :: "gotime option"
  df_DropCount :: int
  df_ReactivationCount :: int
  df_FirstSeen :: gotime
  df_LastSeen :: gotime

record 'f dur_Position =
  dp_Time :: gotime
  dp_Lat :: "'f option"
  dp_Lon :: "'f option"
  dp_Alt :: "'f option"
  dp_Heading :: "'f option"
  dp_SpeedKt :: "'f option"
  dp_Status :: "string option"

record 'f Record =
  rec_Flight :: dur_Flight
  rec_Track :: "'f dur_Position list"

text \<open>What the database decides: whether the two queries are answered, the order in which
  \<^verbatim>\<open>ORDER BY time\<close> returns rows of the same time, and the row, if any, at which the connection breaks.\<close>

record 'f query_env =
  flight_query_ok :: bool
  track_query_ok :: bool
  order_by_time :: "'f position_row list \<Rightarrow> 'f position_row list"
  breaks_at :: "nat option"

definition ordered :: "'f query_env \<Rightarrow> bool" where
  "ordered env \<longleftrightarrow> (\<forall>rows. mset (order_by_time env rows) = mset rows \<and> sorted (map pr_time (order_by_time env rows)))"

text \<open>The two queries: a parameter with a zero byte is refused.\<close>

definition flightSQL :: "'f query_env \<Rightarrow> string \<Rightarrow> 'f db \<Rightarrow> db_error + flight_row option" where
  "flightSQL env gufi d =
     (if \<not> flight_query_ok env then Inl ConnFault
      else if \<not> text_ok gufi then Inl InvalidText
      else Inr (flights d gufi))"

definition trackSQL :: "'f query_env \<Rightarrow> string \<Rightarrow> 'f db \<Rightarrow> db_error + 'f position_row list" where
  "trackSQL env gufi d =
     (if \<not> track_query_ok env then Inl ConnFault
      else if \<not> text_ok gufi then Inl InvalidText
      else Inr (order_by_time env (filter (\<lambda>p. pr_gufi p = gufi) (positions d))))"

definition scan_flight :: "string \<Rightarrow> flight_row \<Rightarrow> dur_Flight" where
  "scan_flight gufi r = \<lparr>df_Gufi = gufi, df_CallSign = call_sign r, df_Registration = registration r,
     df_AircraftType = aircraft_type r, df_Origin = origin r, df_Destination = destination r, df_Status = status r,
     df_ActualDeparture = actual_departure_time r, df_ActualArrival = actual_arrival_time r,
     df_DropCount = drop_count r, df_ReactivationCount = reactivation_count r,
     df_FirstSeen = first_seen r, df_LastSeen = last_seen r\<rparr>"

definition scan_position :: "'f position_row \<Rightarrow> 'f dur_Position" where
  "scan_position p = \<lparr>dp_Time = pr_time p, dp_Lat = Some (pr_lat p), dp_Lon = Some (pr_lon p), dp_Alt = pr_alt p,
     dp_Heading = pr_heading p, dp_SpeedKt = pr_speed_kt p, dp_Status = pr_status p\<rparr>"

text \<open>The loop over the rows: a broken connection ends it and \<^verbatim>\<open>rows.Err\<close> reports it.\<close>

fun read_track :: "nat option \<Rightarrow> 'f dur_Position list \<Rightarrow> 'f position_row list \<Rightarrow> db_error + 'f dur_Position list" where
  "read_track (Some 0) ps rows = Inl ConnFault"
| "read_track b ps [] = Inr ps"
| "read_track b ps (r # rows) = read_track (map_option (\<lambda>n. n - 1) b) (ps @ [scan_position r]) rows"

definition GetRecord :: "'f query_env \<Rightarrow> string \<Rightarrow> 'f db \<Rightarrow> 'f db \<Rightarrow> db_error + 'f Record option" where
  "GetRecord env gufi d1 d2 =
     (case flightSQL env gufi d1 of
        Inl e \<Rightarrow> Inl e
      | Inr None \<Rightarrow> Inr None
      | Inr (Some r) \<Rightarrow>
          (case trackSQL env gufi d2 of
             Inl e \<Rightarrow> Inl e
           | Inr rows \<Rightarrow>
               (case read_track (breaks_at env) [] rows of
                  Inl e \<Rightarrow> Inl e
                | Inr ps \<Rightarrow> Inr (Some \<lparr>rec_Flight = scan_flight gufi r, rec_Track = ps\<rparr>))))"

datatype 'f dur_response = DurError nat string | DurRecord nat "'f Record"

definition dur_GetFlight :: "'f query_env \<Rightarrow> string \<Rightarrow> 'f db \<Rightarrow> 'f db \<Rightarrow> 'f dur_response" where
  "dur_GetFlight env gufi d1 d2 =
     (case GetRecord env gufi d1 d2 of
        Inl _ \<Rightarrow> DurError 502 ''failed to read flight record''
      | Inr None \<Rightarrow> DurError 404 ''flight not found''
      | Inr (Some r) \<Rightarrow> DurRecord 200 r)"

section \<open>The track\<close>

lemma read_track_None [simp]: "read_track None ps rows = Inr (ps @ map scan_position rows)"
  by (induction rows arbitrary: ps) auto

lemma read_track_Inr: "read_track b ps rows = Inr t \<Longrightarrow> t = ps @ map scan_position rows"
  by (induction b ps rows arbitrary: t rule: read_track.induct) auto

lemma read_track_breaks: "n \<le> length rows \<Longrightarrow> read_track (Some n) ps rows = Inl ConnFault"
proof (induction rows arbitrary: n ps)
  case (Cons r rows)
  then show ?case by (cases n) auto
qed simp

lemma dp_Time_scan [simp]: "dp_Time (scan_position p) = pr_time p"
  by (simp add: scan_position_def)

lemma GetRecord_Some:
  assumes "GetRecord env gufi d1 d2 = Inr (Some rec)"
  shows "\<exists>r. flights d1 gufi = Some r \<and> rec_Flight rec = scan_flight gufi r \<and>
     rec_Track rec = map scan_position (order_by_time env (filter (\<lambda>p. pr_gufi p = gufi) (positions d2)))"
  using assms
  by (auto simp: GetRecord_def flightSQL_def trackSQL_def split: sum.splits option.splits if_splits dest!: read_track_Inr)

lemma track_None_iff: "track now exs r = None \<longleftrightarrow> exs = [] \<and> r = None"
proof -
  have "fold (\<lambda>ex r. Some (case r of None \<Rightarrow> ex | Some r \<Rightarrow> merge now r ex)) exs (Some x) \<noteq> None" for x exs
    by (induction exs arbitrary: x) auto
  then show ?thesis by (cases exs; simp add: track_def del: not_None_eq)
qed

lemma rowsFor_empty_iff: "rowsFor tx g fs = [] \<longleftrightarrow> g \<notin> fl_Gufi ` set fs"
proof -
  have "set fs = snd ` set (enumerate 0 fs)" by (metis list.set_map map_snd_enumerate)
  then show ?thesis by (force simp: rowsFor_def filter_empty_conv)
qed

lemma GetRecord_ok:
  assumes "flight_query_ok env" "track_query_ok env" "breaks_at env = None" "text_ok gufi"
  shows "GetRecord env gufi d1 d2 = Inr (case flights d1 gufi of
      None \<Rightarrow> None
    | Some r \<Rightarrow> Some \<lparr>rec_Flight = scan_flight gufi r,
        rec_Track = map scan_position (order_by_time env (filter (\<lambda>p. pr_gufi p = gufi) (positions d2)))\<rparr>)"
  using assms by (simp add: GetRecord_def flightSQL_def trackSQL_def split: option.split)

section \<open>Property\<close>


definition sample_query :: "int query_env" where
  "sample_query = \<lparr>flight_query_ok = True, track_query_ok = True, order_by_time = sort_key pr_time, breaks_at = None\<rparr>"


end
