(* ===== verification/Census_Field.thy ===== *)
theory Census_Field
  imports Go_Strconv Go_Float "HOL-Library.AList"
begin

text \<open>
  tools/internal/accumulator/accumulator.go: the summary of one field of the feed. Every value is
  classified and counted by its kind, a few samples are kept, and the values of categorical kinds are
  enumerated with their counts until there are too many of them. The counters are at most the number
  of values seen and are modelled as unbounded.
\<close>

section \<open>Kinds of values\<close>

datatype ValueKind =
    KindString | KindInt | KindFloat | KindBool | KindTimestamp | KindDuration | KindUUID | KindGeoPair | KindEmpty

definition hex_char :: "char \<Rightarrow> bool" where
  "hex_char c \<longleftrightarrow> is_digit c \<or> (97 \<le> byte_val c \<and> byte_val c \<le> 102) \<or> (65 \<le> byte_val c \<and> byte_val c \<le> 70)"

text \<open>\<^verbatim>\<open>uuidRe\<close>: groups of 8, 4, 4, 4 and 12 hexadecimal digits.\<close>

definition uuidRe :: "string \<Rightarrow> bool" where
  "uuidRe s \<longleftrightarrow> (let gs = split_byte (CHR ''-'') s
     in map length gs = [8, 4, 4, 4, 12] \<and> list_all (list_all hex_char) gs)"

text \<open>An optional group \<^verbatim>\<open>(\d+X)?\<close>: the units differ, so it matches if it can.\<close>

definition opt_unit :: "char \<Rightarrow> string \<Rightarrow> string" where
  "opt_unit u s = (case dropWhile is_digit s of
      c # r \<Rightarrow> if c = u \<and> takeWhile is_digit s \<noteq> [] then r else s
    | [] \<Rightarrow> s)"

definition durationRe :: "string \<Rightarrow> bool" where
  "durationRe s = (case s of
      [] \<Rightarrow> False
    | p # s1 \<Rightarrow> p = CHR ''P'' \<and>
        (let s2 = opt_unit (CHR ''D'') (opt_unit (CHR ''M'') (opt_unit (CHR ''Y'') s1))
         in case s2 of
              [] \<Rightarrow> True
            | t # s3 \<Rightarrow> t = CHR ''T'' \<and> opt_unit (CHR ''S'') (opt_unit (CHR ''M'') (opt_unit (CHR ''H'') s3)) = []))"

text \<open>The rest after \<^verbatim>\<open>-?\d+(\.\d+)?\<close>.\<close>

definition re_number :: "string \<Rightarrow> string option" where
  "re_number s =
     (let s1 = (case s of c # t \<Rightarrow> if c = CHR ''-'' then t else s | [] \<Rightarrow> s);
          s2 = dropWhile is_digit s1
      in if takeWhile is_digit s1 = [] then None
         else (case s2 of
                 c # t \<Rightarrow> if c = CHR ''.'' \<and> takeWhile is_digit t \<noteq> [] then Some (dropWhile is_digit t) else Some s2
               | [] \<Rightarrow> Some []))"

definition re_space :: "char \<Rightarrow> bool" where
  "re_space c \<longleftrightarrow> byte_val c \<in> {9, 10, 12, 13, 32}"

definition geoRe :: "string \<Rightarrow> bool" where
  "geoRe s = (case re_number s of
      None \<Rightarrow> False
    | Some r \<Rightarrow> takeWhile re_space r \<noteq> [] \<and> re_number (dropWhile re_space r) = Some [])"

definition isTimestamp :: "string \<Rightarrow> bool" where
  "isTimestamp s \<longleftrightarrow> parseRFC3339 s \<noteq> None"

definition isInt :: "string \<Rightarrow> bool" where
  "isInt s \<longleftrightarrow> ParseInt64 s \<noteq> None"

definition isFloat :: "'f float64 \<Rightarrow> string \<Rightarrow> bool" where
  "isFloat F s \<longleftrightarrow> ParseFloat F s \<noteq> None"

definition classify :: "'f float64 \<Rightarrow> string \<Rightarrow> ValueKind" where
  "classify F s =
     (if s = [] then KindEmpty
      else if uuidRe s then KindUUID
      else if isTimestamp s then KindTimestamp
      else if durationRe s \<and> s \<noteq> ''P'' then KindDuration
      else if geoRe s then KindGeoPair
      else if isInt s then KindInt
      else if isFloat F s then KindFloat
      else if s = ''true'' \<or> s = ''false'' then KindBool
      else KindString)"

fun categorical :: "ValueKind \<Rightarrow> bool" where
  "categorical KindString = True"
| "categorical KindInt = True"
| "categorical KindBool = True"
| "categorical _ = False"

section \<open>A field\<close>

definition defaultMaxEnum :: nat where "defaultMaxEnum = 256"
definition maxSamples :: nat where "maxSamples = 5"

text \<open>The two maps as association lists; \<open>None\<close> is the nil map.\<close>

record Field =
  Path :: string
  Kind :: string
  Occurrences :: int
  FirstSeen :: gotime
  LastSeen :: gotime
  Types :: "(ValueKind \<times> int) list option"
  Distinct :: int
  Truncated :: bool
  Values :: "(string \<times> int) list option"
  Samples :: "string list"

definition the_map :: "('a \<times> int) list option \<Rightarrow> ('a \<times> int) list" where
  "the_map m = (case m of None \<Rightarrow> [] | Some l \<Rightarrow> l)"

text \<open>Indexing a Go map of counters: zero where there is no entry.\<close>

definition count_of :: "('a \<times> int) list \<Rightarrow> 'a \<Rightarrow> int" where
  "count_of m k = (case map_of m k of None \<Rightarrow> 0 | Some n \<Rightarrow> n)"

definition addSample :: "string \<Rightarrow> Field \<Rightarrow> Field" where
  "addSample value f =
     (if maxSamples \<le> length (Samples f) then f
      else if List.member (Samples f) value then f
      else f\<lparr>Samples := Samples f @ [value]\<rparr>)"

definition addValue :: "'f float64 \<Rightarrow> string \<Rightarrow> nat \<Rightarrow> Field \<Rightarrow> Field" where
  "addValue F value maxEnum f0 =
     (let k = classify F value;
          types = the_map (Types f0);
          f = addSample value (f0\<lparr>Types := Some (AList.update k (count_of types k + 1) types)\<rparr>)
      in if \<not> categorical k then f
         else if Truncated f then f
         else (let vs = the_map (Values f)
               in if 0 < count_of vs value
                  then (let vs' = AList.update value (count_of vs value + 1) vs
                        in f\<lparr>Values := Some vs', Distinct := int (length vs')\<rparr>)
                  else if length vs < maxEnum
                  then (let vs' = AList.update value 1 vs in f\<lparr>Values := Some vs', Distinct := int (length vs')\<rparr>)
                  else f\<lparr>Truncated := True, Distinct := int (length vs), Values := None\<rparr>))"

section \<open>What a field holds after some values\<close>

text \<open>The values in the order of their first occurrence.\<close>

definition firsts :: "'a list \<Rightarrow> 'a list" where
  "firsts xs = rev (remdups (rev xs))"

lemma firsts_snoc: "firsts (xs @ [x]) = (if x \<in> set xs then firsts xs else firsts xs @ [x])"
  by (simp add: firsts_def)

lemma firsts_simps [simp]: "firsts [] = []" "set (firsts xs) = set xs"
  by (simp_all add: firsts_def)

definition categoricals :: "'f float64 \<Rightarrow> string list \<Rightarrow> string list" where
  "categoricals F vs = filter (\<lambda>v. categorical (classify F v)) vs"

text \<open>The histogram of the kinds, the samples, and the histogram of the categorical values unless there
  are more than \<open>n\<close> of them.\<close>

definition summarizes :: "'f float64 \<Rightarrow> nat \<Rightarrow> string list \<Rightarrow> Field \<Rightarrow> bool" where
  "summarizes F n vs f \<longleftrightarrow> (let cs = categoricals F vs in
     (\<forall>k. count_of (the_map (Types f)) k = int (count_list (map (classify F) vs) k)) \<and>
     Samples f = take maxSamples (firsts vs) \<and>
     (Truncated f \<longleftrightarrow> n < card (set cs)) \<and>
     (if Truncated f then Values f = None \<and> Distinct f = int n
      else (\<forall>v. count_of (the_map (Values f)) v = int (count_list cs v)) \<and> Distinct f = int (card (set cs)) \<and>
        distinct (map fst (the_map (Values f))) \<and> fst ` set (the_map (Values f)) = set cs))"

lemma count_of_update [simp]: "count_of (AList.update k n m) k' = (if k' = k then n else count_of m k')"
  by (simp add: count_of_def update_conv')

lemma count_list_snoc [simp]: "count_list (xs @ [x]) y = count_list xs y + (if y = x then 1 else 0)"
  by (induction xs) auto

lemma the_map_Some [simp]: "the_map (Some m) = m" "the_map None = []"
  by (simp_all add: the_map_def)

lemma length_keys: "distinct (map fst m) \<Longrightarrow> length m = card (fst ` set m)"
  by (metis distinct_card length_map list.set_map)

lemma keys_update:
  assumes "distinct (map fst m)"
  shows "distinct (map fst (AList.update k n m))" "fst ` set (AList.update k n m) = insert k (fst ` set m)"
proof -
  show "distinct (map fst (AList.update k n m))" by (rule distinct_update [OF assms])
  have "set (map fst (AList.update k n m)) = insert k (set (map fst m))" unfolding update_keys by auto
  then show "fst ` set (AList.update k n m) = insert k (fst ` set m)" by simp
qed

lemma addSample_samples:
  assumes "Samples f = take maxSamples (firsts vs)"
  shows "Samples (addSample v f) = take maxSamples (firsts (vs @ [v]))"
proof (cases "maxSamples \<le> length (firsts vs)")
  case True
  then show ?thesis using assms by (simp add: addSample_def firsts_snoc)
next
  case False
  then have "Samples f = firsts vs" using assms by simp
  then show ?thesis using False by (auto simp: addSample_def firsts_snoc)
qed

lemma addSample_frame [simp]:
  "Path (addSample v f) = Path f" "Kind (addSample v f) = Kind f" "Occurrences (addSample v f) = Occurrences f"
  "FirstSeen (addSample v f) = FirstSeen f" "LastSeen (addSample v f) = LastSeen f" "Types (addSample v f) = Types f"
  "Distinct (addSample v f) = Distinct f" "Truncated (addSample v f) = Truncated f" "Values (addSample v f) = Values f"
  by (simp_all add: addSample_def)

lemma addValue_frame [simp]:
  "Path (addValue F v n f) = Path f" "Kind (addValue F v n f) = Kind f" "Occurrences (addValue F v n f) = Occurrences f"
  "FirstSeen (addValue F v n f) = FirstSeen f" "LastSeen (addValue F v n f) = LastSeen f"
  by (simp_all add: addValue_def Let_def)

lemma addValue_types [simp]:
  "the_map (Types (addValue F v n f)) =
     AList.update (classify F v) (count_of (the_map (Types f)) (classify F v) + 1) (the_map (Types f))"
  by (simp add: addValue_def Let_def)

lemma addValue_samples:
  assumes "Samples f = take maxSamples (firsts vs)"
  shows "Samples (addValue F v n f) = take maxSamples (firsts (vs @ [v]))"
  using addSample_samples [of "f\<lparr>Types := t\<rparr>" vs v for t] assms by (simp add: addValue_def Let_def)

lemma count_list_pos: "0 < int (count_list xs x) \<longleftrightarrow> x \<in> set xs"
  by (simp add: count_list_0_iff flip: neq0_conv)

lemma addValue_categorical:
  assumes "summarizes F n vs f" "categorical (classify F v)"
  defines "cs \<equiv> categoricals F vs" and "g \<equiv> addValue F v n f"
  shows "(Truncated g \<longleftrightarrow> n < card (set (cs @ [v]))) \<and>
     (if Truncated g then Values g = None \<and> Distinct g = int n
      else (\<forall>w. count_of (the_map (Values g)) w = int (count_list (cs @ [v]) w)) \<and> Distinct g = int (card (set (cs @ [v]))) \<and>
        distinct (map fst (the_map (Values g))) \<and> fst ` set (the_map (Values g)) = set (cs @ [v]))"
proof (cases "Truncated f")
  case True
  then have "n < card (set cs)" "Values f = None" "Distinct f = int n"
    using assms(1) by (simp_all add: summarizes_def Let_def cs_def)
  moreover have "card (set cs) \<le> card (set (cs @ [v]))" by (intro card_mono) auto
  ultimately show ?thesis using True assms(2) by (simp add: g_def addValue_def Let_def)
next
  case False
  let ?m = "the_map (Values f)"
  have f: "card (set cs) \<le> n" "\<And>w. count_of ?m w = int (count_list cs w)" "Distinct f = int (card (set cs))"
      "distinct (map fst ?m)" "fst ` set ?m = set cs"
    using assms(1) False by (simp_all add: summarizes_def Let_def cs_def)
  have len: "length ?m = card (set cs)" using length_keys [OF f(4)] f(5) by simp
  have upd: "length (AList.update v c ?m) = card (set (cs @ [v]))" "distinct (map fst (AList.update v c ?m))"
      "fst ` set (AList.update v c ?m) = set (cs @ [v])" for c
    using keys_update [OF f(4), of v c] length_keys [of "AList.update v c ?m"] f(5) by simp_all
  show ?thesis
  proof (cases "v \<in> set cs")
    case seen: True
    then have "0 < count_of ?m v" using f(2) count_list_pos [of cs v] by simp
    then have "Values g = Some (AList.update v (count_of ?m v + 1) ?m)"
        "Distinct g = int (card (set (cs @ [v])))" "\<not> Truncated g"
      using False assms(2) upd(1) by (simp_all add: g_def addValue_def Let_def)
    moreover have "card (set (cs @ [v])) \<le> n" using f(1) seen by (simp add: insert_absorb)
    ultimately show ?thesis using f(2) upd(2,3) by simp
  next
    case new: False
    then have z: "count_of ?m v = 0" using f(2) by (simp add: count_list_0_iff)
    show ?thesis
    proof (cases "card (set cs) < n")
      case True
      then have "Values g = Some (AList.update v 1 ?m)" "Distinct g = int (card (set (cs @ [v])))" "\<not> Truncated g"
        using False assms(2) upd(1) z len by (simp_all add: g_def addValue_def Let_def)
      moreover have "card (set (cs @ [v])) \<le> n" using True new by simp
      ultimately show ?thesis using f(2) upd(2,3) z by simp
    next
      case full: False
      then have "Values g = None" "Distinct g = int n" "Truncated g"
        using False assms(2) z len f(1) by (simp_all add: g_def addValue_def Let_def)
      moreover have "n < card (set (cs @ [v]))" using full f(1) new by simp
      ultimately show ?thesis by simp
    qed
  qed
qed

lemma categoricals_snoc: "categoricals F (vs @ [v]) = categoricals F vs @ (if categorical (classify F v) then [v] else [])"
  by (simp add: categoricals_def)

lemma summarizes_addValue:
  assumes "summarizes F n vs f"
  shows "summarizes F n (vs @ [v]) (addValue F v n f)"
proof -
  let ?g = "addValue F v n f"
  have t: "\<forall>k. count_of (the_map (Types ?g)) k = int (count_list (map (classify F) (vs @ [v])) k)"
    and s: "Samples ?g = take maxSamples (firsts (vs @ [v]))"
    using assms addValue_samples [of f vs F v n] by (simp_all add: summarizes_def Let_def)
  show ?thesis
  proof (cases "categorical (classify F v)")
    case True
    then show ?thesis
      using t s addValue_categorical [OF assms True] by (simp add: summarizes_def Let_def categoricals_snoc)
  next
    case False
    then have "Truncated ?g = Truncated f" "Values ?g = Values f" "Distinct ?g = Distinct f"
      by (simp_all add: addValue_def Let_def)
    then show ?thesis
      using t s assms False by (simp add: summarizes_def Let_def categoricals_snoc)
  qed
qed

section \<open>Capped histograms\<close>

text \<open>A histogram that takes no value once it has \<open>cap\<close> keys is exact while fewer values differ.\<close>

definition histogram :: "nat \<Rightarrow> string list \<Rightarrow> (string \<times> int) list \<Rightarrow> bool" where
  "histogram cap vs m \<longleftrightarrow> (card (set vs) < cap \<longrightarrow>
     (\<forall>v. count_of m v = int (count_list vs v)) \<and> distinct (map fst m) \<and> fst ` set m = set vs)"

lemma histogram_Nil [simp]: "histogram cap [] []"
  by (simp add: histogram_def count_of_def)

lemma histogram_snoc:
  assumes "histogram cap vs m"
  shows "histogram cap (vs @ [t]) (if length m < cap then AList.update t (count_of m t + 1) m else m)"
proof -
  have "card (set vs) \<le> card (set (vs @ [t]))" by (intro card_mono) auto
  then show ?thesis
    using assms keys_update [of m t] length_keys [of m] by (auto simp: histogram_def)
qed

end
