(* ===== verification/Census.thy ===== *)
theory Census
  imports Census_Field Kafka_Msg Os_Files "HOL-Library.Sublist"
begin

text \<open>
  tools/internal/accumulator/accumulator.go and tools/internal/pipeline/pipeline.go: the shape of the
  raw feed, one summary per element and attribute path, and the loop that folds messages into it while
  a timer saves snapshots and commits offsets. The tokenizer of \<^verbatim>\<open>encoding/xml\<close> is a parameter: the
  tokens of a document and how it ends.
\<close>

section \<open>The accumulator\<close>

datatype token =
    StartElement string "(string \<times> string \<times> string) list"
  | CharData string
  | EndElement string
  | OtherToken

datatype token_end = Eof | SyntaxError

type_synonym tokenizer = "bytes \<Rightarrow> token list \<times> token_end"
type_synonym fields = "string \<rightharpoonup> Field"

definition newField :: "string \<Rightarrow> string \<Rightarrow> gotime \<Rightarrow> Field" where
  "newField path kind now = \<lparr>Path = path, Kind = kind, Occurrences = 0, FirstSeen = now, LastSeen = zeroTime,
     Types = None, Distinct = 0, Truncated = False, Values = None, Samples = []\<rparr>"

definition touch :: "string \<Rightarrow> string \<Rightarrow> gotime \<Rightarrow> fields \<Rightarrow> fields" where
  "touch path kind now fs =
     (let f = (case fs path of Some f \<Rightarrow> f | None \<Rightarrow> newField path kind now)
      in fs(path \<mapsto> f\<lparr>Occurrences := Occurrences f + 1, LastSeen := now\<rparr>))"

definition add_value_at :: "'f float64 \<Rightarrow> nat \<Rightarrow> string \<Rightarrow> string \<Rightarrow> fields \<Rightarrow> fields" where
  "add_value_at F n path v fs = (case fs path of None \<Rightarrow> fs | Some f \<Rightarrow> fs(path \<mapsto> addValue F v n f))"

definition join_path :: "string list \<Rightarrow> string" where
  "join_path stack = joinWith ''/'' stack"

fun observe_attrs :: "'f float64 \<Rightarrow> nat \<Rightarrow> gotime \<Rightarrow> string \<Rightarrow> (string \<times> string \<times> string) list \<Rightarrow> fields \<Rightarrow> fields" where
  "observe_attrs F n now path [] fs = fs"
| "observe_attrs F n now path ((space, local, v) # as) fs =
     (if local = ''xmlns'' \<or> space = ''xmlns'' then observe_attrs F n now path as fs
      else observe_attrs F n now path as
        (add_value_at F n (path @ ''/@'' @ local) v (touch (path @ ''/@'' @ local) ''attribute'' now fs)))"

fun observe_loop :: "'f float64 \<Rightarrow> nat \<Rightarrow> gotime \<Rightarrow> string list \<Rightarrow> token list \<Rightarrow> fields \<Rightarrow> fields" where
  "observe_loop F n now stack [] fs = fs"
| "observe_loop F n now stack (StartElement name attrs # ts) fs =
     (let stack' = stack @ [name]; path = join_path stack'
      in observe_loop F n now stack' ts (observe_attrs F n now path attrs (touch path ''element'' now fs)))"
| "observe_loop F n now stack (CharData s # ts) fs =
     (let text = TrimSpace s
      in if text = [] \<or> stack = [] then observe_loop F n now stack ts fs
         else observe_loop F n now stack ts (add_value_at F n (join_path stack) text fs))"
| "observe_loop F n now stack (EndElement name # ts) fs = observe_loop F n now (butlast stack) ts fs"
| "observe_loop F n now stack (OtherToken # ts) fs = observe_loop F n now stack ts fs"

text \<open>\<^verbatim>\<open>Observe\<close>: the parse error, if any, and the fields; what was read before an error stays.\<close>

definition Observe :: "'f float64 \<Rightarrow> tokenizer \<Rightarrow> gotime \<Rightarrow> bytes \<Rightarrow> fields \<Rightarrow> bool \<times> fields" where
  "Observe F X now raw fs =
     (case X raw of (ts, e) \<Rightarrow> (e \<noteq> Eof, observe_loop F defaultMaxEnum now [] ts fs))"

section \<open>What a document says\<close>

datatype event = Touch string string | Datum string string

fun attr_events :: "string \<Rightarrow> (string \<times> string \<times> string) list \<Rightarrow> event list" where
  "attr_events path [] = []"
| "attr_events path ((space, local, v) # as) =
     (if local = ''xmlns'' \<or> space = ''xmlns'' then []
      else [Touch (path @ ''/@'' @ local) ''attribute'', Datum (path @ ''/@'' @ local) v]) @ attr_events path as"

fun doc_events :: "string list \<Rightarrow> token list \<Rightarrow> event list" where
  "doc_events stack [] = []"
| "doc_events stack (StartElement name attrs # ts) =
     Touch (join_path (stack @ [name])) ''element'' # attr_events (join_path (stack @ [name])) attrs @
     doc_events (stack @ [name]) ts"
| "doc_events stack (CharData s # ts) =
     (if TrimSpace s = [] \<or> stack = [] then [] else [Datum (join_path stack) (TrimSpace s)]) @ doc_events stack ts"
| "doc_events stack (EndElement name # ts) = doc_events (butlast stack) ts"
| "doc_events stack (OtherToken # ts) = doc_events stack ts"

fun apply_event :: "'f float64 \<Rightarrow> nat \<Rightarrow> gotime \<Rightarrow> event \<Rightarrow> fields \<Rightarrow> fields" where
  "apply_event F n now (Touch p k) fs = touch p k now fs"
| "apply_event F n now (Datum p v) fs = add_value_at F n p v fs"

lemma observe_attrs_events: "observe_attrs F n now p as fs = fold (apply_event F n now) (attr_events p as) fs"
  by (induction F n now p as fs rule: observe_attrs.induct) auto

lemma observe_loop_events: "observe_loop F n now stack ts fs = fold (apply_event F n now) (doc_events stack ts) fs"
  by (induction F n now stack ts fs rule: observe_loop.induct) (auto simp: observe_attrs_events Let_def)

text \<open>How often a path is touched, and its values, in order.\<close>

definition touches :: "string \<Rightarrow> event list \<Rightarrow> nat" where
  "touches p es = length (filter (\<lambda>e. case e of Touch q k \<Rightarrow> q = p | _ \<Rightarrow> False) es)"

definition values_at :: "string \<Rightarrow> event list \<Rightarrow> string list" where
  "values_at p es = concat (map (\<lambda>e. case e of Datum q v \<Rightarrow> if q = p then [v] else [] | _ \<Rightarrow> []) es)"

lemma touches_simps [simp]:
  "touches p [] = 0" "touches p (es @ es') = touches p es + touches p es'"
  "touches p [Touch q k] = (if q = p then 1 else 0)" "touches p [Datum q v] = 0"
  by (simp_all add: touches_def)

lemma values_at_simps [simp]:
  "values_at p [] = []" "values_at p (es @ es') = values_at p es @ values_at p es'"
  "values_at p [Touch q k] = []" "values_at p [Datum q v] = (if q = p then [v] else [])"
  by (simp_all add: values_at_def)

text \<open>Every value is of a path touched before, or in \<open>T\<close>.\<close>

fun covered :: "string set \<Rightarrow> event list \<Rightarrow> bool" where
  "covered T [] = True"
| "covered T (Touch p k # es) = covered (insert p T) es"
| "covered T (Datum p v # es) = (p \<in> T \<and> covered T es)"

lemma covered_mono: "covered T es \<Longrightarrow> T \<subseteq> T' \<Longrightarrow> covered T' es"
proof (induction T es arbitrary: T' rule: covered.induct)
  case (2 T p k es)
  then show ?case using "2.IH" [of "insert p T'"] by auto
qed auto

fun touched :: "event list \<Rightarrow> string set" where
  "touched [] = {}"
| "touched (Touch p k # es) = insert p (touched es)"
| "touched (Datum p v # es) = touched es"

lemma covered_append: "covered T (es @ es') \<longleftrightarrow> covered T es \<and> covered (T \<union> touched es) es'"
  by (induction T es rule: covered.induct) auto

definition open_paths :: "string list \<Rightarrow> string set" where
  "open_paths stack = join_path ` {p. p \<noteq> [] \<and> prefix p stack}"

lemma open_paths_snoc: "open_paths (stack @ [name]) = insert (join_path (stack @ [name])) (open_paths stack)"
  by (auto simp: open_paths_def)

lemma open_paths_butlast: "open_paths (butlast stack) \<subseteq> open_paths stack"
  by (cases stack rule: rev_cases) (auto simp: open_paths_snoc)

lemma open_paths_self: "stack \<noteq> [] \<Longrightarrow> join_path stack \<in> open_paths stack"
  by (cases stack rule: rev_cases) (auto simp: open_paths_snoc)

lemma attr_events_covered: "covered T (attr_events p as)"
  by (induction p as arbitrary: T rule: attr_events.induct) (auto intro: covered_mono)

lemma doc_events_covered: "open_paths stack \<subseteq> T \<Longrightarrow> covered T (doc_events stack ts)"
proof (induction stack ts arbitrary: T rule: doc_events.induct)
  case (2 stack name attrs ts)
  have "open_paths (stack @ [name]) \<subseteq> insert (join_path (stack @ [name])) T \<union> touched (attr_events (join_path (stack @ [name])) attrs)"
    using "2.prems" by (auto simp: open_paths_snoc)
  from "2.IH" [OF this] show ?case by (simp add: covered_append attr_events_covered)
next
  case (3 stack s ts)
  then show ?case using open_paths_self [of stack] by auto
next
  case (4 stack ts)
  then show ?case using open_paths_butlast [of stack] by auto
qed auto

section \<open>The model is exact\<close>

text \<open>The field of a path after some events: none if the path was never touched, else the number of
  touches and the summary of its values.\<close>

definition exact :: "'f float64 \<Rightarrow> nat \<Rightarrow> event list \<Rightarrow> fields \<Rightarrow> bool" where
  "exact F n es fs \<longleftrightarrow> (\<forall>p. case fs p of
      None \<Rightarrow> touches p es = 0 \<and> values_at p es = []
    | Some f \<Rightarrow> Path f = p \<and> 0 < touches p es \<and> Occurrences f = int (touches p es) \<and> summarizes F n (values_at p es) f)"

lemma summarizes_new: "summarizes F n [] (newField p k now)"
  by (simp add: summarizes_def newField_def categoricals_def count_of_def)

lemma summarizes_touch [simp]:
  "summarizes F n vs (f\<lparr>Occurrences := c, LastSeen := t\<rparr>) \<longleftrightarrow> summarizes F n vs f"
  by (simp add: summarizes_def)

lemma values_at_snoc [simp]:
  "values_at p (es @ [Touch q k]) = values_at p es"
  "values_at p (es @ [Datum q v]) = values_at p es @ (if q = p then [v] else [])"
  by simp_all

declare values_at_simps(2) [simp del]

lemma exactI:
  assumes "\<And>p. case fs p of
      None \<Rightarrow> touches p es = 0 \<and> values_at p es = []
    | Some f \<Rightarrow> Path f = p \<and> 0 < touches p es \<and> Occurrences f = int (touches p es) \<and> summarizes F n (values_at p es) f"
  shows "exact F n es fs"
  using assms by (simp add: exact_def)

lemma exactD:
  "exact F n es fs \<Longrightarrow> fs p = None \<Longrightarrow> touches p es = 0 \<and> values_at p es = []"
  "exact F n es fs \<Longrightarrow> fs p = Some f \<Longrightarrow>
     Path f = p \<and> 0 < touches p es \<and> Occurrences f = int (touches p es) \<and> summarizes F n (values_at p es) f"
  unfolding exact_def by (drule spec [of _ p], simp)+

lemma newField_simps [simp]: "Path (newField p k now) = p" "Occurrences (newField p k now) = 0"
  by (simp_all add: newField_def)

lemma exact_touch:
  assumes "exact F n es fs"
  shows "exact F n (es @ [Touch p k]) (touch p k now fs)"
proof (rule exactI)
  fix q
  show "case touch p k now fs q of
      None \<Rightarrow> touches q (es @ [Touch p k]) = 0 \<and> values_at q (es @ [Touch p k]) = []
    | Some f \<Rightarrow> Path f = q \<and> 0 < touches q (es @ [Touch p k]) \<and>
        Occurrences f = int (touches q (es @ [Touch p k])) \<and> summarizes F n (values_at q (es @ [Touch p k])) f"
    using exactD [OF assms, of q] summarizes_new
    by (cases "q = p"; cases "fs q") (simp_all add: touch_def Let_def)
qed

lemma exact_value:
  assumes "exact F n es fs" "p \<in> dom fs"
  shows "exact F n (es @ [Datum p v]) (add_value_at F n p v fs)"
proof (rule exactI)
  fix q
  obtain f where f: "fs p = Some f" using assms(2) by blast
  show "case add_value_at F n p v fs q of
      None \<Rightarrow> touches q (es @ [Datum p v]) = 0 \<and> values_at q (es @ [Datum p v]) = []
    | Some f \<Rightarrow> Path f = q \<and> 0 < touches q (es @ [Datum p v]) \<and>
        Occurrences f = int (touches q (es @ [Datum p v])) \<and> summarizes F n (values_at q (es @ [Datum p v])) f"
    using exactD [OF assms(1), of q] f
    by (cases "q = p"; cases "fs q") (auto simp: add_value_at_def intro: summarizes_addValue)
qed

lemma exact_fold:
  "exact F n es fs \<Longrightarrow> covered (dom fs) es' \<Longrightarrow> exact F n (es @ es') (fold (apply_event F n now) es' fs)"
proof (induction es' arbitrary: es fs)
  case (Cons e es')
  have "exact F n (es @ [e]) (apply_event F n now e fs) \<and> covered (dom (apply_event F n now e fs)) es'"
  proof (cases e)
    case (Touch p k)
    then show ?thesis using Cons.prems exact_touch [OF Cons.prems(1)] by (simp add: touch_def Let_def)
  next
    case (Datum p v)
    then have "p \<in> dom fs" "covered (dom fs) es'" using Cons.prems(2) by auto
    moreover from this have "dom (add_value_at F n p v fs) = dom fs"
      by (auto simp: add_value_at_def split: if_splits)
    ultimately show ?thesis using Datum exact_value [OF Cons.prems(1)] by simp
  qed
  then show ?case using Cons.IH [of "es @ [e]" "apply_event F n now e fs"] by simp
qed simp

lemma exact_Observe:
  assumes "exact F defaultMaxEnum es fs"
  shows "exact F defaultMaxEnum (es @ doc_events [] (fst (X raw))) (snd (Observe F X now raw fs))"
proof -
  have "covered (dom fs) (doc_events [] (fst (X raw)))"
    by (rule doc_events_covered) (simp add: open_paths_def)
  from exact_fold [OF assms this, of now] show ?thesis
    by (cases "X raw") (simp add: Observe_def observe_loop_events)
qed

text \<open>Messages observed one after another, each at its time.\<close>

definition observe_all :: "'f float64 \<Rightarrow> tokenizer \<Rightarrow> (gotime \<times> bytes) list \<Rightarrow> fields \<Rightarrow> fields" where
  "observe_all F X = fold (\<lambda>(now, raw) fs. snd (Observe F X now raw fs))"

definition all_events :: "tokenizer \<Rightarrow> (gotime \<times> bytes) list \<Rightarrow> event list" where
  "all_events X ms = concat (map (\<lambda>(now, raw). doc_events [] (fst (X raw))) ms)"

lemma exact_all:
  "exact F defaultMaxEnum es fs \<Longrightarrow> exact F defaultMaxEnum (es @ all_events X ms) (observe_all F X ms fs)"
proof (induction ms arbitrary: es fs)
  case (Cons m ms)
  obtain now raw where m: "m = (now, raw)" by (cases m)
  show ?case
    using Cons.IH [OF exact_Observe [OF Cons.prems, where now = now and raw = raw and X = X]]
    by (simp add: observe_all_def all_events_def m)
qed (simp add: observe_all_def all_events_def)

text \<open>
  C34: the census is exact: after any messages the model has one field for every element and attribute
  path that occurred, with the number of its occurrences, the number of its values of every kind, its
  first five distinct values as samples, and the exact histogram of its categorical values, unless
  there are more than 256 different ones, in which case the field is flagged and the histogram dropped.
\<close>

theorem census_exact:
  fixes X :: tokenizer and ms :: "(gotime \<times> bytes) list"
  defines "es \<equiv> all_events X ms"
  shows "case observe_all F X ms Map.empty p of
      None \<Rightarrow> touches p es = 0 \<and> values_at p es = []
    | Some f \<Rightarrow> Path f = p \<and> 0 < touches p es \<and> Occurrences f = int (touches p es) \<and>
        summarizes F defaultMaxEnum (values_at p es) f"
proof -
  have "exact F defaultMaxEnum [] Map.empty" by (simp add: exact_def)
  from exact_all [OF this, of X ms] show ?thesis
    unfolding es_def exact_def append_Nil by (rule spec)
qed

end
