(* ===== verification/Census_Loop.thy ===== *)
theory Census_Loop
  imports Census
begin

text \<open>
  Snapshots of the census on disk (\<^verbatim>\<open>SaveFile\<close> and \<^verbatim>\<open>LoadFile\<close> of
  tools/internal/accumulator/accumulator.go) and the loop of tools/internal/pipeline/pipeline.go: one
  goroutine folds messages in, another saves a snapshot and commits the last offset on a timer. The
  JSON text of a snapshot is a parameter, with reading back as a named hypothesis.
\<close>

section \<open>Snapshots\<close>

text \<open>\<^verbatim>\<open>os.WriteFile\<close>: the file is truncated first, and a write may break off.\<close>

definition WriteFile :: "osenv \<Rightarrow> string \<Rightarrow> string \<Rightarrow> bytes \<Rightarrow> fsys \<Rightarrow> os_error err \<times> fsys" where
  "WriteFile env d n c fs =
     (case create_fault env d n of
        Some e \<Rightarrow> (Some e, fs)
      | None \<Rightarrow>
          if fs d = None then (Some ErrNotExist, fs)
          else if stat fs d n = Some Dir then (Some (OSFault ''is a directory''), fs)
          else (case copy_fault env d n of
                  Some (e, k) \<Rightarrow> (Some e, put d n (File (take k c)) fs)
                | None \<Rightarrow> (close_fault env d n, put d n (File c) fs)))"

record codec =
  render :: "gotime \<Rightarrow> fields \<Rightarrow> bytes option"
  unrender :: "bytes \<Rightarrow> fields option option"

datatype save_error = RenderError | SaveOs os_error
datatype load_snapshot_error = SnapshotOs os_error | BadSnapshot

definition SaveFile :: "codec \<Rightarrow> osenv \<Rightarrow> gotime \<Rightarrow> string \<Rightarrow> string \<Rightarrow> fields \<Rightarrow> fsys \<Rightarrow> save_error err \<times> fsys" where
  "SaveFile J env now d n fls fs =
     (case render J now fls of
        None \<Rightarrow> (Some RenderError, fs)
      | Some data \<Rightarrow>
          (let tmp = n @ ''.tmp''
           in case WriteFile env d tmp data fs of
                (Some e, fs1) \<Rightarrow> (Some (SaveOs e), fs1)
              | (None, fs1) \<Rightarrow> (case Rename env d tmp d n fs1 of
                    (Some e, fs2) \<Rightarrow> (Some (SaveOs e), fs2)
                  | (None, fs2) \<Rightarrow> (None, fs2))))"

text \<open>A JSON \<^verbatim>\<open>null\<close> for the fields is the inner \<open>None\<close>.\<close>

definition LoadFile :: "codec \<Rightarrow> osenv \<Rightarrow> string \<Rightarrow> string \<Rightarrow> fsys \<Rightarrow> fields \<Rightarrow> load_snapshot_error err \<times> fields" where
  "LoadFile J env d n fs fls =
     (case ReadFile env fs d n of
        Inl e \<Rightarrow> if e = ErrNotExist then (None, fls) else (Some (SnapshotOs e), fls)
      | Inr data \<Rightarrow> (case unrender J data of
            None \<Rightarrow> (Some BadSnapshot, fls)
          | Some None \<Rightarrow> (None, Map.empty)
          | Some (Some f) \<Rightarrow> (None, f)))"

definition reads_back :: "codec \<Rightarrow> bool" where
  "reads_back J \<longleftrightarrow> (\<forall>now f b. render J now f = Some b \<longrightarrow> unrender J b = Some (Some f))"

lemma tmp_name: "n @ ''.tmp'' \<noteq> n"
  by simp

lemma WriteFile_frame: "(d', n') \<noteq> (d, n) \<Longrightarrow> stat (snd (WriteFile env d n c fs)) d' n' = stat fs d' n'"
  by (auto simp: WriteFile_def split: option.splits)

lemma WriteFile_ok: "fst (WriteFile env d n c fs) = None \<Longrightarrow> stat (snd (WriteFile env d n c fs)) d n = Some (File c)"
  by (auto simp: WriteFile_def split: option.splits if_splits)

lemma SaveFile_stat:
  assumes "SaveFile J env now d n fls fs = (e, fs')"
  shows "case e of
      Some _ \<Rightarrow> stat fs' d n = stat fs d n
    | None \<Rightarrow> \<exists>b. render J now fls = Some b \<and> stat fs' d n = Some (File b)"
proof (cases "render J now fls")
  case None
  then show ?thesis using assms by (auto simp: SaveFile_def)
next
  case (Some data)
  obtain w fs1 where w: "WriteFile env d (n @ ''.tmp'') data fs = (w, fs1)" by fastforce
  have keep: "stat fs1 d n = stat fs d n"
    using WriteFile_frame [of d n d "n @ ''.tmp''" env data fs] w by simp
  have new: "w = None \<Longrightarrow> stat fs1 d (n @ ''.tmp'') = Some (File data)"
    using WriteFile_ok [of env d "n @ ''.tmp''" data fs] w by simp
  show ?thesis
    using assms Some w keep new by (auto simp: SaveFile_def Rename_def Let_def split: option.splits)
qed


section \<open>The loop\<close>

text \<open>Where the fetching goroutine is: fetching, with a message folded in but not yet noted as the
  last one, or returned; and where the ticking one is.\<close>

datatype fetch_pc = Fetching | Folded kmsg | Stopped "save_error err"
datatype tick_pc = Waiting | Saved | Committing "kmsg option"

record 'c census_run =
  cn_consumer :: 'c
  cn_fields :: fields
  cn_seen :: "(gotime \<times> kmsg) list"
  cn_last :: "kmsg option"
  cn_disk :: fsys
  cn_fetch :: fetch_pc
  cn_tick :: tick_pc
  cn_commits :: "(kmsg \<times> bool) list"

inductive census_step :: "'f float64 \<Rightarrow> tokenizer \<Rightarrow> codec \<Rightarrow> string \<Rightarrow> string \<Rightarrow> 'c fetcher \<Rightarrow>
    'c census_run \<Rightarrow> 'c census_run \<Rightarrow> bool"
  for F X J d n fetch where
  c_error: "\<lbrakk>cn_fetch r = Fetching; fetch RunCtx (cn_consumer r) = (Inl err, c')\<rbrakk>
    \<Longrightarrow> census_step F X J d n fetch r (r\<lparr>cn_consumer := c'\<rparr>)"
| c_done: "\<lbrakk>cn_fetch r = Fetching; fetch RunCtx (cn_consumer r) = (Inl err, c');
      SaveFile J env now d n (cn_fields r) (cn_disk r) = (e, fs')\<rbrakk>
    \<Longrightarrow> census_step F X J d n fetch r (r\<lparr>cn_consumer := c', cn_disk := fs', cn_fetch := Stopped e\<rparr>)"
| c_observe: "\<lbrakk>cn_fetch r = Fetching; fetch RunCtx (cn_consumer r) = (Inr m, c')\<rbrakk>
    \<Longrightarrow> census_step F X J d n fetch r (r\<lparr>cn_consumer := c', cn_fields := snd (Observe F X now (Value m) (cn_fields r)),
          cn_seen := cn_seen r @ [(now, m)], cn_fetch := Folded m\<rparr>)"
| c_last: "cn_fetch r = Folded m
    \<Longrightarrow> census_step F X J d n fetch r (r\<lparr>cn_last := Some m, cn_fetch := Fetching\<rparr>)"
| t_save: "\<lbrakk>cn_tick r = Waiting; SaveFile J env now d n (cn_fields r) (cn_disk r) = (e, fs')\<rbrakk>
    \<Longrightarrow> census_step F X J d n fetch r (r\<lparr>cn_disk := fs', cn_tick := Saved\<rparr>)"
| t_read: "cn_tick r = Saved
    \<Longrightarrow> census_step F X J d n fetch r (r\<lparr>cn_tick := Committing (cn_last r)\<rparr>)"
| t_none: "cn_tick r = Committing None
    \<Longrightarrow> census_step F X J d n fetch r (r\<lparr>cn_tick := Waiting\<rparr>)"
| t_commit: "cn_tick r = Committing (Some m)
    \<Longrightarrow> census_step F X J d n fetch r (r\<lparr>cn_commits := cn_commits r @ [(m, ok)], cn_tick := Waiting\<rparr>)"

definition census_reachable :: "'f float64 \<Rightarrow> tokenizer \<Rightarrow> codec \<Rightarrow> string \<Rightarrow> string \<Rightarrow> 'c fetcher \<Rightarrow>
    'c census_run \<Rightarrow> 'c census_run \<Rightarrow> bool" where
  "census_reachable F X J d n fetch = (census_step F X J d n fetch)\<^sup>*\<^sup>*"

definition census_initial :: "'c \<Rightarrow> fields \<Rightarrow> fsys \<Rightarrow> 'c census_run" where
  "census_initial c fls fs = \<lparr>cn_consumer = c, cn_fields = fls, cn_seen = [], cn_last = None, cn_disk = fs,
     cn_fetch = Fetching, cn_tick = Waiting, cn_commits = []\<rparr>"

text \<open>The messages folded in, as the model sees them.\<close>

definition seen_inputs :: "(gotime \<times> kmsg) list \<Rightarrow> (gotime \<times> bytes) list" where
  "seen_inputs ms = map (\<lambda>(t, m). (t, Value m)) ms"

text \<open>The snapshot on disk is the initial one or that of the messages of some prefix.\<close>

definition census_inv :: "'f float64 \<Rightarrow> tokenizer \<Rightarrow> codec \<Rightarrow> string \<Rightarrow> string \<Rightarrow> fields \<Rightarrow> fsys \<Rightarrow> 'c census_run \<Rightarrow> bool" where
  "census_inv F X J d n f0 fs0 r \<longleftrightarrow>
     cn_fields r = observe_all F X (seen_inputs (cn_seen r)) f0 \<and>
     (stat (cn_disk r) d n = stat fs0 d n \<or>
      (\<exists>k now b. render J now (observe_all F X (seen_inputs (take k (cn_seen r))) f0) = Some b \<and>
         stat (cn_disk r) d n = Some (File b))) \<and>
     (\<forall>m. cn_fetch r = Folded m \<or> cn_last r = Some m \<or> cn_tick r = Committing (Some m) \<or> m \<in> fst ` set (cn_commits r) \<longrightarrow>
        m \<in> snd ` set (cn_seen r))"

lemma observe_all_snoc:
  "observe_all F X (seen_inputs (ms @ [(t, m)])) f0 = snd (Observe F X t (Value m) (observe_all F X (seen_inputs ms) f0))"
  by (simp add: observe_all_def seen_inputs_def)

lemma save_inv:
  assumes "census_inv F X J d n f0 fs0 r" "SaveFile J env now d n (cn_fields r) (cn_disk r) = (e, fs')"
  shows "stat fs' d n = stat fs0 d n \<or>
      (\<exists>k now b. render J now (observe_all F X (seen_inputs (take k (cn_seen r))) f0) = Some b \<and> stat fs' d n = Some (File b))"
proof (cases e)
  case None
  then obtain b where "render J now (cn_fields r) = Some b" "stat fs' d n = Some (File b)"
    using SaveFile_stat [OF assms(2)] by auto
  then have "render J now (observe_all F X (seen_inputs (take (length (cn_seen r)) (cn_seen r))) f0) = Some b \<and>
      stat fs' d n = Some (File b)"
    using assms(1) by (simp add: census_inv_def)
  then show ?thesis by blast
next
  case (Some err)
  then show ?thesis using SaveFile_stat [OF assms(2)] assms(1) by (simp add: census_inv_def)
qed

lemma census_inv_step:
  assumes "census_step F X J d n fetch r r'" "census_inv F X J d n f0 fs0 r"
  shows "census_inv F X J d n f0 fs0 r'"
  using assms
proof (cases rule: census_step.cases)
  case (c_observe m c' now)
  have disk: "stat (cn_disk r) d n = stat fs0 d n \<or>
      (\<exists>k t b. render J t (observe_all F X (seen_inputs (take k (cn_seen r @ [(now, m)]))) f0) = Some b \<and>
         stat (cn_disk r) d n = Some (File b))"
  proof -
    have "take (min k (length (cn_seen r))) (cn_seen r @ [(now, m)]) = take k (cn_seen r)" for k
      by (simp add: min_def)
    then show ?thesis using assms(2) unfolding census_inv_def by metis
  qed
  show ?thesis
    using assms(2) disk c_observe by (auto simp: census_inv_def observe_all_snoc)
next
  case (c_done err c' env now e fs')
  then show ?thesis
    using save_inv [OF assms(2) c_done(4)] assms(2) by (auto simp: census_inv_def)
next
  case (t_save env now e fs')
  then show ?thesis
    using save_inv [OF assms(2) t_save(3)] assms(2) by (auto simp: census_inv_def)
qed (auto simp: census_inv_def)

lemma census_inv_reachable:
  assumes "census_reachable F X J d n fetch (census_initial c f0 fs0) r"
  shows "census_inv F X J d n f0 fs0 r"
  using assms unfolding census_reachable_def
proof (induction rule: rtranclp_induct)
  case base
  then show ?case by (simp add: census_inv_def census_initial_def observe_all_def seen_inputs_def)
qed (rule census_inv_step)

section \<open>Properties\<close>

text \<open>
  In every reachable state the model is that of exactly the messages folded in, in order, the
  snapshot on disk is the initial one or that of some prefix of them, and an offset is committed only
  for a message that was folded in.
\<close>

theorem census_loop_invariant:
  assumes "census_reachable F X J d n fetch (census_initial c f0 fs0) r"
  shows "cn_fields r = observe_all F X (seen_inputs (cn_seen r)) f0 \<and>
     (stat (cn_disk r) d n = stat fs0 d n \<or>
      (\<exists>k now b. render J now (observe_all F X (seen_inputs (take k (cn_seen r))) f0) = Some b \<and>
         stat (cn_disk r) d n = Some (File b))) \<and>
     (\<forall>m ok. (m, ok) \<in> set (cn_commits r) \<longrightarrow> m \<in> snd ` set (cn_seen r))"
proof -
  have inv: "census_inv F X J d n f0 fs0 r" by (rule census_inv_reachable [OF assms])
  have "m \<in> snd ` set (cn_seen r)" if "(m, ok) \<in> set (cn_commits r)" for m ok
  proof -
    have "m \<in> fst ` set (cn_commits r)" using that by (rule rev_image_eqI) simp
    then show ?thesis using inv by (simp add: census_inv_def)
  qed
  then show ?thesis using inv by (simp add: census_inv_def)
qed

text \<open>A consumer that hands out a list.\<close>

definition list_fetch :: "kmsg list fetcher" where
  "list_fetch x ms = (case ms of [] \<Rightarrow> (Inl FetchFailed, []) | m # ms' \<Rightarrow> (Inr m, ms'))"

text \<open>
  C36: an offset may be committed past the snapshot: when a message is folded in between the writing of
  the snapshot and the reading of the last message, its offset is committed although the snapshot does
  not contain it; a census that restarts from there has lost it.
\<close>

theorem commit_past_snapshot:
  fixes F :: "'f float64" and X :: tokenizer and m1 :: kmsg and t :: gotime
  defines "one \<equiv> observe_all F X [(t, Value m1)] Map.empty"
  assumes "render J t one = Some b" "reads_back J" "fs0 d \<noteq> None" "stat fs0 d (n @ ''.tmp'') \<noteq> Some Dir"
  shows "\<exists>r. census_reachable F X J d n list_fetch (census_initial [m1, m2] Map.empty fs0) r \<and>
     cn_commits r = [(m2, True)] \<and> cn_consumer r = [] \<and> map snd (cn_seen r) = [m1, m2] \<and>
     LoadFile J no_faults d n (cn_disk r) Map.empty = (None, one)"
proof -
  let ?step = "census_step F X J d n list_fetch"
  let ?r0 = "census_initial [m1, m2] Map.empty fs0"
  let ?r1 = "?r0\<lparr>cn_consumer := [m2], cn_fields := one, cn_seen := [(t, m1)], cn_fetch := Folded m1\<rparr>"
  let ?r2 = "?r1\<lparr>cn_last := Some m1, cn_fetch := Fetching\<rparr>"
  obtain e fs' where sv: "SaveFile J no_faults t d n one fs0 = (e, fs')" by fastforce
  let ?r3 = "?r2\<lparr>cn_disk := fs', cn_tick := Saved\<rparr>"
  let ?two = "snd (Observe F X t (Value m2) one)"
  let ?r4 = "?r3\<lparr>cn_consumer := [], cn_fields := ?two, cn_seen := [(t, m1), (t, m2)], cn_fetch := Folded m2\<rparr>"
  let ?r5 = "?r4\<lparr>cn_last := Some m2, cn_fetch := Fetching\<rparr>"
  let ?r6 = "?r5\<lparr>cn_tick := Committing (Some m2)\<rparr>"
  let ?r7 = "?r6\<lparr>cn_commits := [(m2, True)], cn_tick := Waiting\<rparr>"
  have "?step ?r0 ?r1"
    using c_observe [of ?r0 list_fetch m1 "[m2]" F X J d n t]
    by (simp add: census_initial_def list_fetch_def one_def observe_all_def)
  moreover have "?step ?r1 ?r2"
    using c_last [of ?r1 m1 F X J d n list_fetch] by simp
  moreover have "?step ?r2 ?r3"
    using t_save [of ?r2 J no_faults t d n e fs' F X list_fetch] sv by (simp add: census_initial_def)
  moreover have "?step ?r3 ?r4"
    using c_observe [of ?r3 list_fetch m2 "[]" F X J d n t] by (simp add: list_fetch_def)
  moreover have "?step ?r4 ?r5"
    using c_last [of ?r4 m2 F X J d n list_fetch] by simp
  moreover have "?step ?r5 ?r6"
    using t_read [of ?r5 F X J d n list_fetch] by simp
  moreover have "?step ?r6 ?r7"
    using t_commit [of ?r6 m2 F X J d n list_fetch True] by (simp add: census_initial_def)
  ultimately have "census_reachable F X J d n list_fetch ?r0 ?r7"
    unfolding census_reachable_def by (blast intro: converse_rtranclp_into_rtranclp)
  moreover have "e = None"
    using sv assms(2,4,5) by (auto simp: SaveFile_def WriteFile_def Rename_def no_faults_def Let_def split: option.splits if_splits)
  then have "LoadFile J no_faults d n fs' Map.empty = (None, one)"
    using SaveFile_stat [OF sv] assms(3) by (auto simp: LoadFile_def ReadFile_def no_faults_def reads_back_def)
  ultimately show ?thesis by (intro exI [of _ ?r7]) (simp add: census_initial_def)
qed

section \<open>Concrete runs\<close>

text \<open>A feed of empty documents, and a codec for the model it gives.\<close>

definition no_tokens :: tokenizer where "no_tokens raw = ([], Eof)"

definition empty_codec :: codec where
  "empty_codec = \<lparr>render = (\<lambda>now f. if f = Map.empty then Some ''{}'' else None),
     unrender = (\<lambda>b. if b = ''{}'' then Some (Some Map.empty) else None)\<rparr>"

lemma empty_reads_back: "reads_back empty_codec"
  by (simp add: reads_back_def empty_codec_def)

lemma no_tokens_observe: "observe_all F no_tokens [(t, raw)] Map.empty = Map.empty"
  by (simp add: observe_all_def Observe_def no_tokens_def)

definition census_msg :: "int \<Rightarrow> kmsg" where
  "census_msg n = \<lparr>Topic = ''fixm.raw'', Partition = 0, Offset = n, Value = []\<rparr>"


theorem commit_past_snapshot_witness:
  "\<exists>r. census_reachable int_floats no_tokens empty_codec ''.'' ''census.json'' list_fetch
       (census_initial [census_msg 1, census_msg 2] Map.empty [''.'' \<mapsto> []]) r \<and>
     cn_commits r = [(census_msg 2, True)] \<and> map snd (cn_seen r) = [census_msg 1, census_msg 2]"
proof -
  have "render empty_codec 0 (observe_all int_floats no_tokens [(0, Value (census_msg 1))] Map.empty) = Some ''{}''"
    by (simp add: no_tokens_observe empty_codec_def)
  moreover have "stat [''.'' \<mapsto> []] ''.'' (''census.json'' @ ''.tmp'') \<noteq> Some Dir" "[''.'' \<mapsto> []] ''.'' \<noteq> None"
    by (simp_all add: stat_def dir_entries_def)
  ultimately show ?thesis
    using commit_past_snapshot [OF _ empty_reads_back, of 0 int_floats no_tokens "census_msg 1" "''{}''" "[''.'' \<mapsto> []]" "''.''"
        "''census.json''" "census_msg 2"]
    by (elim meta_impE ex_forward) simp_all
qed

theorem census_loop_invariant_witness:
  "\<exists>r. census_reachable int_floats no_tokens empty_codec ''.'' ''census.json'' list_fetch
       (census_initial [census_msg 1] Map.empty [''.'' \<mapsto> []]) r \<and> cn_seen r = [(0, census_msg 1)] \<and>
     cn_fields r = observe_all int_floats no_tokens (seen_inputs [(0, census_msg 1)]) Map.empty"
proof -
  let ?i = "census_initial [census_msg 1] Map.empty [''.'' \<mapsto> []]"
  let ?r = "?i\<lparr>cn_consumer := [], cn_fields := snd (Observe int_floats no_tokens 0 (Value (census_msg 1)) (cn_fields ?i)),
    cn_seen := cn_seen ?i @ [(0, census_msg 1)], cn_fetch := Folded (census_msg 1)\<rparr>"
  have "census_step int_floats no_tokens empty_codec ''.'' ''census.json'' list_fetch ?i ?r"
    by (rule c_observe) (simp_all add: census_initial_def list_fetch_def)
  then have r: "census_reachable int_floats no_tokens empty_codec ''.'' ''census.json'' list_fetch ?i ?r"
    unfolding census_reachable_def by (rule r_into_rtranclp)
  have s: "cn_seen ?r = [(0, census_msg 1)]" by (simp add: census_initial_def)
  show ?thesis using census_loop_invariant [OF r] s r by (intro exI [of _ ?r]) (simp only: s simp_thms)
qed

end
