(* ===== verification/Lifecycle.thy ===== *)
theory Lifecycle
  imports Normalizer_Readers "HOL-Library.Product_Lexorder"
begin

text \<open>
  filter/cmd/dev_lifecycle/main.go: the analysis that asks whether a flight reported DROPPED comes back
  to ACTIVE: the observations of every GUFI in the order of time, and the counts of the report. The
  percentages and the order in which the counts are printed are left out.
\<close>

section \<open>Reading the topic\<close>

definition lc_element :: gty where
  "lc_element = TStruct [(''flight'', TStruct
     [(''timestamp'', TStr),
      (''gufi'', TStruct [(''code'', TStr)]),
      (''flightStatus'', TStruct [(''fdpsFlightStatus'', TStr)]),
      (''arrival'', TStruct [(''runwayPositionAndTime'', TStruct [(''runwayTime'', TStruct
        [(''actual'', TStruct [(''time'', TStr)])])])])])]"

record obs =
  ts :: gotime
  idx :: nat
  ob_status :: string
  hasArrOff :: bool

definition lc_parseTime :: "string \<Rightarrow> gotime" where
  "lc_parseTime s = (case parseRFC3339 s of Some t \<Rightarrow> t | None \<Rightarrow> zeroTime)"

definition trim_left :: "bytes \<Rightarrow> bytes" where
  "trim_left data = dropWhile (\<lambda>c. c \<in> set [CHR '' '', CHR 0x09, CHR 0x0D, CHR 0x0A]) data"

definition decodeElements :: "bytes \<Rightarrow> unmarshal_error + gval list" where
  "decodeElements data =
     (let trimmed = trim_left data
      in if trimmed \<noteq> [] \<and> hd trimmed = CHR ''[''
         then (case Unmarshal (TSlice lc_element) data of Inl e \<Rightarrow> Inl e | Inr v \<Rightarrow> Inr (gelems v))
         else (case Unmarshal lc_element data of Inl e \<Rightarrow> Inl e | Inr v \<Rightarrow> Inr [v]))"

text \<open>The state of the reading loop; the timelines are a Go map.\<close>

record lc_state =
  timelines :: "string \<rightharpoonup> obs list"
  envelopes :: nat
  observations :: nat
  next_idx :: nat

definition lc_obs :: "nat \<Rightarrow> gval \<Rightarrow> obs" where
  "lc_obs i e = \<lparr>ts = lc_parseTime (gstr e [''flight'', ''timestamp'']), idx = i,
     ob_status = gstr e [''flight'', ''flightStatus'', ''fdpsFlightStatus''],
     hasArrOff = (gstr e [''flight'', ''arrival'', ''runwayPositionAndTime'', ''runwayTime'', ''actual'', ''time''] \<noteq> [])\<rparr>"

definition lc_add :: "gval \<Rightarrow> lc_state \<Rightarrow> lc_state" where
  "lc_add e s =
     (let gufi = gstr e [''flight'', ''gufi'', ''code''];
          status = gstr e [''flight'', ''flightStatus'', ''fdpsFlightStatus'']
      in if gufi = [] \<or> status = [] then s
         else s\<lparr>observations := observations s + 1,
           timelines := (timelines s)(gufi \<mapsto>
             (case timelines s gufi of None \<Rightarrow> [] | Some seq \<Rightarrow> seq) @ [lc_obs (next_idx s) e]),
           next_idx := next_idx s + 1\<rparr>)"

definition lc_message :: "bytes \<Rightarrow> lc_state \<Rightarrow> lc_state" where
  "lc_message data s =
     (let s = s\<lparr>envelopes := envelopes s + 1\<rparr>
      in case decodeElements data of Inl e \<Rightarrow> s | Inr env \<Rightarrow> fold lc_add env s)"

text \<open>The loop over the messages the reader returns until it fails or the limit is reached.\<close>

fun lc_read :: "int \<Rightarrow> bytes list \<Rightarrow> lc_state \<Rightarrow> lc_state" where
  "lc_read limit msgs s =
     (if 0 < limit \<and> limit \<le> int (envelopes s) then s
      else (case msgs of [] \<Rightarrow> s | m # ms \<Rightarrow> lc_read limit ms (lc_message m s)))"

declare lc_read.simps [simp del]

definition lc_start :: lc_state where
  "lc_start = \<lparr>timelines = Map.empty, envelopes = 0, observations = 0, next_idx = 0\<rparr>"

section \<open>The report\<close>

definition DROPPED :: string where "DROPPED = ''DROPPED''"
definition ACTIVE :: string where "ACTIVE = ''ACTIVE''"

text \<open>\<^verbatim>\<open>sort.Slice\<close> by time and then by index; the indices differ, so the order is determined.\<close>

definition sort_seq :: "obs list \<Rightarrow> obs list" where
  "sort_seq seq = sort_key (\<lambda>ob. (ts ob, idx ob)) seq"

record seq_scan =
  firstDrop :: int
  sawDrop :: bool
  sawActiveAfterDrop :: bool
  dropped_here :: nat
  arr_here :: nat

definition scan_start :: seq_scan where
  "scan_start = \<lparr>firstDrop = -1, sawDrop = False, sawActiveAfterDrop = False, dropped_here = 0, arr_here = 0\<rparr>"

definition scan_obs :: "nat \<times> obs \<Rightarrow> seq_scan \<Rightarrow> seq_scan" where
  "scan_obs io s =
     (let (i, ob) = io;
          s1 = (if ob_status ob = DROPPED
                then (let s0 = s\<lparr>dropped_here := dropped_here s + 1,
                                 arr_here := arr_here s + (if hasArrOff ob then 1 else 0)\<rparr>
                      in if \<not> sawDrop s0 then s0\<lparr>sawDrop := True, firstDrop := int i\<rparr> else s0)
                else s)
      in if sawDrop s1 \<and> ob_status ob = ACTIVE then s1\<lparr>sawActiveAfterDrop := True\<rparr> else s1)"

definition scan_seq :: "obs list \<Rightarrow> seq_scan" where
  "scan_seq seq = fold scan_obs (enumerate 0 seq) scan_start"

record lc_report =
  everDropped :: nat
  droppedThenActive :: nat
  droppedThenAny :: "string \<Rightarrow> nat"
  droppedTerminalEnd :: nat
  droppedTotal :: nat
  droppedWithArrOff :: nat
  resurrectedExamples :: "string list"

definition report_zero :: lc_report where
  "report_zero = \<lparr>everDropped = 0, droppedThenActive = 0, droppedThenAny = (\<lambda>_. 0), droppedTerminalEnd = 0,
     droppedTotal = 0, droppedWithArrOff = 0, resurrectedExamples = []\<rparr>"

text \<open>\<^verbatim>\<open>formatTimeline\<close>: the GUFI and its statuses, runs of the same status collapsed.\<close>

fun collapse :: "string \<Rightarrow> string list \<Rightarrow> string list" where
  "collapse lst [] = []"
| "collapse lst (s # ss) = (if s = lst then collapse lst ss else s # collapse s ss)"

definition formatTimeline :: "string \<Rightarrow> obs list \<Rightarrow> string" where
  "formatTimeline gufi seq = gufi @ '' : '' @ joinWith '' -> '' (collapse [] (map ob_status seq))"

definition report_seq :: "int \<Rightarrow> string \<Rightarrow> obs list \<Rightarrow> lc_report \<Rightarrow> lc_report" where
  "report_seq examples gufi seq0 r =
     (let seq = sort_seq seq0; s = scan_seq seq;
          r = r\<lparr>droppedTotal := droppedTotal r + dropped_here s, droppedWithArrOff := droppedWithArrOff r + arr_here s\<rparr>;
          r = (if sawDrop s
               then (let r = r\<lparr>everDropped := everDropped r + 1\<rparr>
                     in if firstDrop s = int (length seq) - 1 then r\<lparr>droppedTerminalEnd := droppedTerminalEnd r + 1\<rparr>
                        else (let st = ob_status (seq ! nat (firstDrop s + 1))
                              in r\<lparr>droppedThenAny := (droppedThenAny r)(st := droppedThenAny r st + 1)\<rparr>))
               else r)
      in if sawActiveAfterDrop s then r\<lparr>droppedThenActive := droppedThenActive r + 1,
           resurrectedExamples := resurrectedExamples r @
             (if int (length (resurrectedExamples r)) < examples then [formatTimeline gufi seq] else [])\<rparr>
         else r)"

text \<open>The loop over the timelines, in the iteration order of the map.\<close>

definition report :: "int \<Rightarrow> (string \<rightharpoonup> obs list) \<Rightarrow> string list \<Rightarrow> lc_report" where
  "report examples tls order = fold (\<lambda>g. report_seq examples g (case tls g of None \<Rightarrow> [] | Some seq \<Rightarrow> seq)) order report_zero"

section \<open>Scanning one timeline\<close>

text \<open>The position of the first DROPPED.\<close>

definition first_drop :: "obs list \<Rightarrow> nat" where
  "first_drop seq = length (takeWhile (\<lambda>ob. ob_status ob \<noteq> DROPPED) seq)"

definition dropped :: "obs list \<Rightarrow> bool" where
  "dropped seq \<longleftrightarrow> (\<exists>ob \<in> set seq. ob_status ob = DROPPED)"

definition comes_back :: "obs list \<Rightarrow> bool" where
  "comes_back seq \<longleftrightarrow> (\<exists>i j. i < j \<and> j < length seq \<and> ob_status (seq ! i) = DROPPED \<and> ob_status (seq ! j) = ACTIVE)"

lemma DROPPED_ACTIVE [simp]: "DROPPED \<noteq> ACTIVE" "ACTIVE \<noteq> DROPPED"
  by (simp_all add: DROPPED_def ACTIVE_def)

lemma comes_back_snoc: "comes_back (seq @ [ob]) \<longleftrightarrow> comes_back seq \<or> (dropped seq \<and> ob_status ob = ACTIVE)"
proof
  assume "comes_back (seq @ [ob])"
  then obtain i j where "i < j" "j < Suc (length seq)" "ob_status ((seq @ [ob]) ! i) = DROPPED"
      "ob_status ((seq @ [ob]) ! j) = ACTIVE"
    by (auto simp: comes_back_def)
  then show "comes_back seq \<or> (dropped seq \<and> ob_status ob = ACTIVE)"
    by (cases "j = length seq") (auto simp: comes_back_def dropped_def nth_append)
next
  assume "comes_back seq \<or> (dropped seq \<and> ob_status ob = ACTIVE)"
  then show "comes_back (seq @ [ob])"
  proof
    assume "comes_back seq"
    then obtain i j where "i < j" "j < length seq" "ob_status (seq ! i) = DROPPED" "ob_status (seq ! j) = ACTIVE"
      by (auto simp: comes_back_def)
    then show ?thesis unfolding comes_back_def by (intro exI [of _ i] exI [of _ j]) (simp add: nth_append)
  next
    assume "dropped seq \<and> ob_status ob = ACTIVE"
    then obtain i where "i < length seq" "ob_status (seq ! i) = DROPPED" "ob_status ob = ACTIVE"
      by (auto simp: dropped_def in_set_conv_nth)
    then show ?thesis
      unfolding comes_back_def by (intro exI [of _ i] exI [of _ "length seq"]) (simp add: nth_append)
  qed
qed

lemma scan_seq_spec:
  "scan_seq seq = \<lparr>firstDrop = (if dropped seq then int (first_drop seq) else -1), sawDrop = dropped seq,
     sawActiveAfterDrop = comes_back seq,
     dropped_here = length (filter (\<lambda>ob. ob_status ob = DROPPED) seq),
     arr_here = length (filter (\<lambda>ob. ob_status ob = DROPPED \<and> hasArrOff ob) seq)\<rparr>"
proof (induction seq rule: rev_induct)
  case Nil
  then show ?case by (simp add: scan_seq_def scan_start_def dropped_def comes_back_def)
next
  case (snoc ob seq)
  have "scan_seq (seq @ [ob]) = scan_obs (length seq, ob) (scan_seq seq)"
    by (simp add: scan_seq_def enumerate_append_eq)
  moreover have "\<not> dropped seq \<Longrightarrow> first_drop (seq @ [ob]) = (if ob_status ob = DROPPED then length seq else Suc (length seq))"
    by (auto simp: first_drop_def dropped_def takeWhile_append)
  moreover have "dropped seq \<Longrightarrow> first_drop (seq @ [ob]) = first_drop seq"
    by (auto simp: first_drop_def dropped_def takeWhile_append)
  moreover have "dropped (seq @ [ob]) \<longleftrightarrow> dropped seq \<or> ob_status ob = DROPPED"
    by (auto simp: dropped_def)
  moreover have "\<not> dropped seq \<Longrightarrow> \<not> comes_back seq"
    by (auto simp: dropped_def comes_back_def)
  ultimately show ?case
    by (auto simp: snoc.IH scan_obs_def comes_back_snoc Let_def)
qed

lemma first_drop_less: "dropped seq \<Longrightarrow> first_drop seq < length seq"
  unfolding first_drop_def dropped_def
  by (metis (mono_tags, lifting) length_takeWhile_le nat_less_le takeWhile_eq_all_conv takeWhile_eq_take take_all_iff order_refl)

lemma collapse_remdups_adj: "[] \<notin> set ss \<Longrightarrow> collapse [] ss = remdups_adj ss"
proof -
  have "s \<noteq> lst \<Longrightarrow> collapse lst (s # ss) = remdups_adj (s # ss)" for lst s ss
  proof (induction ss arbitrary: lst s)
    case (Cons t ss)
    then show ?case by (cases "t = s") auto
  qed simp
  then show "[] \<notin> set ss \<Longrightarrow> collapse [] ss = remdups_adj ss" by (cases ss) auto
qed

section \<open>The report\<close>

lemma dropped_sort_seq [simp]: "dropped (sort_seq seq) = dropped seq"
  by (simp add: dropped_def sort_seq_def)

lemma filter_sort_seq [simp]: "length (filter P (sort_seq seq)) = length (filter P seq)"
  by (simp add: sort_seq_def filter_sort)

text \<open>The status after the first DROPPED, when there is one.\<close>

definition after_drop :: "obs list \<Rightarrow> string option" where
  "after_drop seq = (if dropped seq \<and> Suc (first_drop seq) < length seq
     then Some (ob_status (seq ! Suc (first_drop seq))) else None)"

definition countp :: "('a \<Rightarrow> bool) \<Rightarrow> 'a list \<Rightarrow> nat" where
  "countp P xs = length (filter P xs)"

lemma countp_simps [simp]: "countp P [] = 0" "countp P (x # xs) = (if P x then 1 else 0) + countp P xs"
    "countp P (xs @ ys) = countp P xs + countp P ys"
  by (simp_all add: countp_def)

lemma report_seq_spec:
  "report_seq examples g seq r =
     \<lparr>everDropped = everDropped r + (if dropped seq then 1 else 0),
      droppedThenActive = droppedThenActive r + (if comes_back (sort_seq seq) then 1 else 0),
      droppedThenAny = (\<lambda>st. droppedThenAny r st + (if after_drop (sort_seq seq) = Some st then 1 else 0)),
      droppedTerminalEnd = droppedTerminalEnd r + (if dropped seq \<and> after_drop (sort_seq seq) = None then 1 else 0),
      droppedTotal = droppedTotal r + length (filter (\<lambda>ob. ob_status ob = DROPPED) seq),
      droppedWithArrOff = droppedWithArrOff r + length (filter (\<lambda>ob. ob_status ob = DROPPED \<and> hasArrOff ob) seq),
      resurrectedExamples = resurrectedExamples r @
        (if comes_back (sort_seq seq) \<and> int (length (resurrectedExamples r)) < examples
         then [formatTimeline g (sort_seq seq)] else [])\<rparr>"
proof -
  have "dropped seq \<Longrightarrow> first_drop (sort_seq seq) < length (sort_seq seq)"
    using first_drop_less [of "sort_seq seq"] by simp
  then show ?thesis
    by (cases "dropped seq") (auto simp: report_seq_def scan_seq_spec after_drop_def Let_def nat_add_distrib fun_eq_iff)
qed

definition timeline :: "(string \<rightharpoonup> obs list) \<Rightarrow> string \<Rightarrow> obs list" where
  "timeline tls g = (case tls g of None \<Rightarrow> [] | Some seq \<Rightarrow> seq)"

lemma report_spec:
  "report examples tls order =
     \<lparr>everDropped = countp (\<lambda>g. dropped (timeline tls g)) order,
      droppedThenActive = countp (\<lambda>g. comes_back (sort_seq (timeline tls g))) order,
      droppedThenAny = (\<lambda>st. countp (\<lambda>g. after_drop (sort_seq (timeline tls g)) = Some st) order),
      droppedTerminalEnd = countp (\<lambda>g. dropped (timeline tls g) \<and> after_drop (sort_seq (timeline tls g)) = None) order,
      droppedTotal = (\<Sum>g \<leftarrow> order. length (filter (\<lambda>ob. ob_status ob = DROPPED) (timeline tls g))),
      droppedWithArrOff = (\<Sum>g \<leftarrow> order. length (filter (\<lambda>ob. ob_status ob = DROPPED \<and> hasArrOff ob) (timeline tls g))),
      resurrectedExamples = take (nat examples) (map (\<lambda>g. formatTimeline g (sort_seq (timeline tls g)))
        (filter (\<lambda>g. comes_back (sort_seq (timeline tls g))) order))\<rparr>"
proof (induction order rule: rev_induct)
  case Nil
  then show ?case by (simp add: report_def report_zero_def)
next
  case (snoc g order)
  have "report examples tls (order @ [g]) = report_seq examples g (timeline tls g) (report examples tls order)"
    by (simp add: report_def timeline_def)
  then show ?case by (auto simp: snoc.IH report_seq_spec)
qed

lemma countp_card: "distinct xs \<Longrightarrow> countp P xs = card {x \<in> set xs. P x}"
  unfolding countp_def by (metis distinct_card distinct_filter set_filter)

section \<open>Reading what the normalizer wrote\<close>

abbreviation fx_gufi :: "gval \<Rightarrow> string" where
  "fx_gufi m \<equiv> gstr (gvalid m) [''flight'', ''gufi'', ''code'']"

abbreviation fx_status :: "gval \<Rightarrow> string" where
  "fx_status m \<equiv> gstr (gvalid m) [''flight'', ''flightStatus'', ''fdpsFlightStatus'']"

abbreviation written :: "gval \<Rightarrow> bytes" where
  "written m \<equiv> jprint (json_of fx_Message m)"

lemma lc_reads: "reads lc_element fx_Message"
  by code_simp

lemma decodeElements_written: "decodeElements (written m) = Inr [view lc_element fx_Message m]"
proof -
  have "\<exists>t. written m = CHR ''{'' # t" by (simp add: fx_Message_def)
  then have "hd (trim_left (written m)) \<noteq> CHR ''[''" by (auto simp: trim_left_def)
  then show ?thesis by (simp add: decodeElements_def Unmarshal_message lc_reads)
qed

lemma lc_view:
  "gstr (view lc_element fx_Message m) [''flight'', ''gufi'', ''code''] = fx_gufi m"
  "gstr (view lc_element fx_Message m) [''flight'', ''flightStatus'', ''fdpsFlightStatus''] = fx_status m"
  unfolding lc_element_def fx_defs by (simp_all add: walk del: view.simps)

lemma lc_read_fold:
  "lc_read limit msgs s =
     fold lc_message (if limit \<le> 0 then msgs else take (nat (limit - int (envelopes s))) msgs) s"
proof (induction msgs arbitrary: s)
  case Nil
  then show ?case by (subst lc_read.simps) simp
next
  case (Cons m ms)
  have fold_env: "envelopes (fold lc_add es t) = envelopes t" for es t
    by (induction es arbitrary: t) (simp_all add: lc_add_def Let_def)
  have env: "envelopes (lc_message m s) = Suc (envelopes s)"
    by (simp add: lc_message_def fold_env Let_def split: sum.split)
  have "nat (limit - int (envelopes s)) = Suc (nat (limit - int (envelopes (lc_message m s))))"
    if "\<not> limit \<le> int (envelopes s)"
    using that env by simp
  then show ?case by (subst lc_read.simps) (simp add: Cons.IH)
qed

lemma lc_message_written:
  "lc_message (written m) s = lc_add (view lc_element fx_Message m) (s\<lparr>envelopes := envelopes s + 1\<rparr>)"
  by (simp add: lc_message_def decodeElements_written Let_def)

definition observed :: "string \<Rightarrow> gval \<Rightarrow> bool" where
  "observed g m \<longleftrightarrow> fx_gufi m = g \<and> g \<noteq> [] \<and> fx_status m \<noteq> []"

lemma timeline_lc_add:
  "map ob_status (timeline (timelines (lc_add (view lc_element fx_Message m) s)) g) =
     map ob_status (timeline (timelines s) g) @ (if observed g m then [fx_status m] else [])"
  by (simp add: lc_add_def lc_view observed_def lc_obs_def timeline_def Let_def split: option.split)

lemma timeline_written:
  "map ob_status (timeline (timelines (fold lc_message (map written ms) s)) g) =
     map ob_status (timeline (timelines s) g) @ map fx_status (filter (observed g) ms)"
proof (induction ms arbitrary: s)
  case (Cons m ms)
  have env: "timeline (timelines (s\<lparr>envelopes := n\<rparr>)) g = timeline (timelines s) g" for n by simp
  show ?case by (simp add: lc_message_written timeline_lc_add Cons.IH)
qed simp

lemma dropped_statuses: "dropped seq \<longleftrightarrow> DROPPED \<in> set (map ob_status seq)"
  by (force simp: dropped_def)

lemma timeline_of_read:
  "map ob_status (timeline (timelines (lc_read 0 (map written ms) lc_start)) g) = map fx_status (filter (observed g) ms)"
  by (simp add: lc_read_fold timeline_written) (simp add: timeline_def lc_start_def)

lemma card_over_map:
  assumes "distinct order" "set order = dom tls" and "\<not> P []"
  shows "countp (\<lambda>g. P (timeline tls g)) order = card {g. P (timeline tls g)}"
proof -
  have "{g \<in> set order. P (timeline tls g)} = {g. P (timeline tls g)}"
    using assms(2,3) by (auto simp: timeline_def split: option.splits)
  then show ?thesis by (simp add: countp_card [OF assms(1)])
qed

lemma finite_over_map:
  assumes "set order = dom tls" and "\<not> P []"
  shows "finite {g. P (timeline tls g)}"
proof (rule finite_subset)
  show "{g. P (timeline tls g)} \<subseteq> set order"
    using assms by (auto simp: timeline_def split: option.splits)
qed simp

lemma last_dropped:
  "dropped seq \<and> after_drop seq = None \<longleftrightarrow> (\<exists>init ob. seq = init @ [ob] \<and> \<not> dropped init \<and> ob_status ob = DROPPED)"
proof
  assume a: "dropped seq \<and> after_drop seq = None"
  let ?init = "takeWhile (\<lambda>ob. ob_status ob \<noteq> DROPPED) seq"
  have "length seq = Suc (length ?init)"
    using a first_drop_less [of seq] by (auto simp: after_drop_def first_drop_def split: if_splits)
  then obtain ob where d: "dropWhile (\<lambda>ob. ob_status ob \<noteq> DROPPED) seq = [ob]"
    by (metis (no_types, lifting) add_Suc_right add_left_cancel add.right_neutral length_0_conv length_Suc_conv
        length_append takeWhile_dropWhile_id)
  then have "seq = ?init @ [ob]" by (metis takeWhile_dropWhile_id)
  moreover have "\<not> dropped ?init" by (auto simp: dropped_def dest: set_takeWhileD)
  moreover have "ob_status ob = DROPPED"
    using hd_dropWhile [of "\<lambda>ob. ob_status ob \<noteq> DROPPED" seq] d by force
  ultimately show "\<exists>init ob. seq = init @ [ob] \<and> \<not> dropped init \<and> ob_status ob = DROPPED" by blast
next
  assume "\<exists>init ob. seq = init @ [ob] \<and> \<not> dropped init \<and> ob_status ob = DROPPED"
  then obtain init ob where s: "seq = init @ [ob]" "\<not> dropped init" "ob_status ob = DROPPED" by blast
  then have "first_drop seq = length init" by (auto simp: first_drop_def dropped_def takeWhile_append)
  with s show "dropped seq \<and> after_drop seq = None" by (simp add: after_drop_def dropped_def)
qed

lemma comes_back_dropped: "comes_back (sort_seq seq) \<Longrightarrow> dropped seq"
proof -
  assume "comes_back (sort_seq seq)"
  then have "dropped (sort_seq seq)" by (auto simp: comes_back_def dropped_def)
  then show ?thesis by simp
qed


definition status_message :: "string \<Rightarrow> string \<Rightarrow> gval" where
  "status_message t st = VStruct [(''flight'', VStruct [(''timestamp'', VStr t),
     (''gufi'', VStruct [(''code'', VStr ''G'')]),
     (''flightStatus'', VStruct [(''fdpsFlightStatus'', VStr st)])])]"

abbreviation lost_and_found :: "gval list" where
  "lost_and_found \<equiv> [status_message ''2026-01-01T00:02:00Z'' DROPPED, status_message ''2026-01-01T00:03:00Z'' ACTIVE]"

text \<open>One flight, DROPPED and a minute later ACTIVE again.\<close>

lemma status_message_reads [simp]:
  "fx_gufi (status_message t st) = to_valid ''G''" "fx_status (status_message t st) = to_valid st"
  by (simp_all add: status_message_def gstr_gtext getv_def)

lemma lost_and_found_dom: "dom (timelines (lc_read 0 (map written lost_and_found) lc_start)) = {''G''}"
proof -
  have v: "to_valid ''G'' = ''G''" "to_valid DROPPED = DROPPED" "to_valid ACTIVE = ACTIVE" "DROPPED \<noteq> []" "ACTIVE \<noteq> []"
    by code_simp+
  show ?thesis
    by (simp add: lc_read_fold lc_message_written lc_add_def lc_view v Let_def lc_start_def)
qed


end
