(* ===== verification/Shape_Xml.thy ===== *)
theory Shape_Xml
  imports Census Fixm
begin

text \<open>
  normalizer/cmd/dev_census/main.go: the tree of the raw feed, one node per element path below a
  flight, with the share of the flights that carry it, its largest cardinality in one flight, its texts
  and its attributes. A node is reached through one chain of \<^verbatim>\<open>children\<close> maps only, so a pointer to a
  node is the path to it. The printed report is left out.
\<close>

section \<open>The tree\<close>

definition enumerate_attrs :: "string list" where
  "enumerate_attrs =
     [''source'', ''system'', ''flightType'', ''fdpsFlightStatus'', ''reportSource'', ''coastIndicator'',
      ''event'', ''wakeTurbulence'', ''equipmentQualifier'', ''uom'', ''codeSpace'', ''invalid'', ''nil'',
      ''initialFlightRules'', ''airspaceType'', ''centre'', ''coordinationTimeHandling'', ''standardCapabilities'',
      ''tfmsSpecialAircraftQualifier'', ''aircraftPerformance'', ''phase'', ''airborneHold'']"

type_synonym path = "string list"

record shape_attr =
  at_flights :: int
  at_sample :: string
  at_values :: "(string \<times> int) list option"

record shape_node =
  nd_flights :: int
  nd_maxRepeat :: int
  nd_hasText :: bool
  nd_sampleText :: string
  nd_textValues :: "(string \<times> int) list"
  nd_attrs :: "string \<rightharpoonup> shape_attr"
  nd_order :: "string list"

definition newNode :: shape_node where
  "newNode = \<lparr>nd_flights = 0, nd_maxRepeat = 0, nd_hasText = False, nd_sampleText = [], nd_textValues = [],
     nd_attrs = Map.empty, nd_order = []\<rparr>"

text \<open>The \<^verbatim>\<open>children\<close> maps of all nodes together are the domain of \<open>sh_nodes\<close>.\<close>

record shape =
  sh_envelopes :: int
  sh_flights :: int
  sh_nodes :: "path \<rightharpoonup> shape_node"
  sh_seen :: "path \<rightharpoonup> int"
  sh_seenAt :: "(path \<times> string) set"

definition newCensus :: shape where
  "newCensus = \<lparr>sh_envelopes = 0, sh_flights = 0, sh_nodes = [[] \<mapsto> newNode], sh_seen = Map.empty, sh_seenAt = {}\<rparr>"

definition node_at :: "shape \<Rightarrow> path \<Rightarrow> shape_node" where
  "node_at sh p = (case sh_nodes sh p of Some n \<Rightarrow> n | None \<Rightarrow> newNode)"

definition set_node :: "path \<Rightarrow> shape_node \<Rightarrow> shape \<Rightarrow> shape" where
  "set_node p n sh = sh\<lparr>sh_nodes := (sh_nodes sh)(p \<mapsto> n)\<rparr>"

section \<open>Walking a document\<close>

definition new_attr :: "string \<Rightarrow> shape_attr" where
  "new_attr l = \<lparr>at_flights = 0, at_sample = [], at_values = (if l \<in> set enumerate_attrs then Some [] else None)\<rparr>"

definition attr_value :: "string \<Rightarrow> shape_attr \<Rightarrow> shape_attr" where
  "attr_value v a0 =
     (let a = (if at_sample a0 = [] then a0\<lparr>at_sample := v\<rparr> else a0)
      in case at_values a of
           None \<Rightarrow> a
         | Some vs \<Rightarrow> if length vs < 300 then a\<lparr>at_values := Some (AList.update v (count_of vs v + 1) vs)\<rparr> else a)"

definition record_attr :: "path \<Rightarrow> string \<times> string \<times> string \<Rightarrow> shape \<Rightarrow> shape" where
  "record_attr p = (\<lambda>(space, local, v) sh.
     if space = ''xmlns'' \<or> local = ''xmlns'' then sh
     else if local = ''type'' \<and> space \<noteq> [] then sh
     else (let n = node_at sh p;
               a = (case nd_attrs n local of Some a \<Rightarrow> a | None \<Rightarrow> new_attr local);
               sh1 = set_node p (n\<lparr>nd_attrs := (nd_attrs n)(local \<mapsto> attr_value v a)\<rparr>) sh
           in sh1\<lparr>sh_seenAt := insert (p, local) (sh_seenAt sh1)\<rparr>))"

definition record_node :: "path \<Rightarrow> (string \<times> string \<times> string) list \<Rightarrow> shape \<Rightarrow> shape" where
  "record_node p as sh =
     fold (record_attr p) as
       (sh\<lparr>sh_seen := (sh_seen sh)(p \<mapsto> (case sh_seen sh p of None \<Rightarrow> 0 | Some c \<Rightarrow> c) + 1)\<rparr>)"

definition flush :: "shape \<Rightarrow> shape" where
  "flush sh = sh\<lparr>sh_nodes := (\<lambda>p. case sh_nodes sh p of
       None \<Rightarrow> None
     | Some n0 \<Rightarrow>
         (let n = (case sh_seen sh p of
                     None \<Rightarrow> n0
                   | Some cnt \<Rightarrow>
                       (let n1 = n0\<lparr>nd_flights := nd_flights n0 + 1\<rparr>
                        in if nd_maxRepeat n1 < cnt then n1\<lparr>nd_maxRepeat := cnt\<rparr> else n1))
          in Some (n\<lparr>nd_attrs := (\<lambda>l. case nd_attrs n l of
               None \<Rightarrow> None
             | Some a \<Rightarrow> Some (if (p, l) \<in> sh_seenAt sh then a\<lparr>at_flights := at_flights a + 1\<rparr> else a))\<rparr>))),
     sh_seen := Map.empty, sh_seenAt := {}\<rparr>"

definition add_child :: "path \<Rightarrow> string \<Rightarrow> shape \<Rightarrow> shape" where
  "add_child p l sh =
     (if sh_nodes sh (p @ [l]) \<noteq> None then sh
      else (let n = node_at sh p
            in set_node p (n\<lparr>nd_order := nd_order n @ [l]\<rparr>) (set_node (p @ [l]) newNode sh)))"

definition add_text :: "path \<Rightarrow> string \<Rightarrow> shape \<Rightarrow> shape" where
  "add_text p s sh =
     (let text = TrimSpace s
      in if text = [] then sh
         else (let n1 = (node_at sh p)\<lparr>nd_hasText := True\<rparr>;
                   n2 = (if nd_sampleText n1 = [] then n1\<lparr>nd_sampleText := text\<rparr> else n1);
                   vs = nd_textValues n2;
                   n3 = (if length vs < 60 then n2\<lparr>nd_textValues := AList.update text (count_of vs text + 1) vs\<rparr> else n2)
               in set_node p n3 sh))"

text \<open>The token loop of \<^verbatim>\<open>walk\<close>: whether the walk is inside a flight, the stack of nodes, the tokens.\<close>

fun walk_loop :: "bool \<Rightarrow> path list \<Rightarrow> token list \<Rightarrow> shape \<Rightarrow> shape" where
  "walk_loop inFlight stack [] sh = sh"
| "walk_loop inFlight stack (StartElement name attrs # ts) sh =
     (if name = ''flight''
      then walk_loop True [[]] ts (record_node [] attrs (flush (sh\<lparr>sh_flights := sh_flights sh + 1\<rparr>)))
      else if \<not> inFlight then walk_loop inFlight stack ts sh
      else (let parent = last stack; n = parent @ [name]
            in walk_loop inFlight (stack @ [n]) ts (record_node n attrs (add_child parent name sh))))"
| "walk_loop inFlight stack (CharData s # ts) sh =
     walk_loop inFlight stack ts (if \<not> inFlight \<or> stack = [] then sh else add_text (last stack) s sh)"
| "walk_loop inFlight stack (EndElement name # ts) sh =
     (if name = ''flight'' then walk_loop False [] ts sh
      else walk_loop inFlight (if inFlight \<and> 1 < length stack then butlast stack else stack) ts sh)"
| "walk_loop inFlight stack (OtherToken # ts) sh = walk_loop inFlight stack ts sh"

definition walk_doc :: "tokenizer \<Rightarrow> bytes \<Rightarrow> shape \<Rightarrow> bool \<times> shape" where
  "walk_doc X data sh = (case X data of (ts, e) \<Rightarrow> (e \<noteq> Eof, walk_loop False [] ts sh))"

text \<open>The loop of \<^verbatim>\<open>main\<close> over the messages the reader gives, and the final flush.\<close>

fun shape_read :: "tokenizer \<Rightarrow> int \<Rightarrow> bytes list \<Rightarrow> shape \<Rightarrow> shape" where
  "shape_read X limit msgs sh =
     (if 0 < limit \<and> limit \<le> sh_envelopes sh then sh
      else (case msgs of
              [] \<Rightarrow> sh
            | m # ms \<Rightarrow> shape_read X limit ms (snd (walk_doc X m (sh\<lparr>sh_envelopes := sh_envelopes sh + 1\<rparr>)))))"

declare shape_read.simps [simp del]

definition shape_run :: "tokenizer \<Rightarrow> int \<Rightarrow> bytes list \<Rightarrow> shape" where
  "shape_run X limit msgs = flush (shape_read X limit msgs newCensus)"

section \<open>Documents as trees\<close>

text \<open>The tokens of an element, and the tokens that matter: no comments and no white space.\<close>

fun tokens_of :: "xnode \<Rightarrow> token list" where
  "tokens_of (XText s) = [CharData s]"
| "tokens_of (XE l as ch) = StartElement l as # concat (map tokens_of ch) @ [EndElement l]"

fun significant :: "token \<Rightarrow> bool" where
  "significant OtherToken = False"
| "significant (CharData s) = (TrimSpace s \<noteq> [])"
| "significant _ = True"

definition is_document :: "token list \<Rightarrow> xnode \<Rightarrow> bool" where
  "is_document ts d \<longleftrightarrow> filter significant ts = filter significant (tokens_of d)"

text \<open>The flights of a document, outermost first; none of them contains another.\<close>

fun flights_of :: "xnode \<Rightarrow> xnode list" where
  "flights_of (XText s) = []"
| "flights_of (XE l as ch) = (if l = ''flight'' then [XE l as ch] else concat (map flights_of ch))"

fun flight_free :: "xnode \<Rightarrow> bool" where
  "flight_free (XText s) = True"
| "flight_free (XE l as ch) = (l \<noteq> ''flight'' \<and> list_all flight_free ch)"

fun children_of :: "xnode \<Rightarrow> xnode list" where
  "children_of (XText s) = []"
| "children_of (XE l as ch) = ch"

fun attrs_of :: "xnode \<Rightarrow> (string \<times> string \<times> string) list" where
  "attrs_of (XText s) = []"
| "attrs_of (XE l as ch) = as"

definition plain_flight :: "xnode \<Rightarrow> bool" where
  "plain_flight f \<longleftrightarrow> list_all flight_free (children_of f)"

text \<open>What the walk does, one step per element or text, in the order of the document.\<close>

datatype step = Elem path string "(string \<times> string \<times> string) list" | Txt path string

fun steps_of :: "path \<Rightarrow> xnode \<Rightarrow> step list" where
  "steps_of p (XText s) = [Txt p s]"
| "steps_of p (XE l as ch) = Elem p l as # concat (map (steps_of (p @ [l])) ch)"

fun do_step :: "step \<Rightarrow> shape \<Rightarrow> shape" where
  "do_step (Elem p l as) sh = record_node (p @ [l]) as (add_child p l sh)"
| "do_step (Txt p s) sh = add_text p s sh"

definition visit_flight :: "xnode \<Rightarrow> shape \<Rightarrow> shape" where
  "visit_flight f sh =
     fold do_step (concat (map (steps_of []) (children_of f)))
       (record_node [] (attrs_of f) (flush (sh\<lparr>sh_flights := sh_flights sh + 1\<rparr>)))"

lemma walk_significant: "walk_loop b st (filter significant ts) sh = walk_loop b st ts sh"
  by (induction b st ts sh rule: walk_loop.induct) (auto simp: Let_def add_text_def)

lemma walk_inside:
  assumes "st \<noteq> []"
  shows "flight_free c \<Longrightarrow>
    walk_loop True st (tokens_of c @ ts) sh = walk_loop True st ts (fold do_step (steps_of (last st) c) sh)"
  using assms
proof (induction c arbitrary: st ts sh)
  case (XText s)
  then show ?case by simp
next
  case (XE l as ch)
  let ?p = "last st @ [l]"
  have inner: "walk_loop True (st @ [?p]) (concat (map tokens_of cs) @ ts') sh' =
      walk_loop True (st @ [?p]) ts' (fold do_step (concat (map (steps_of ?p) cs)) sh')"
    if "set cs \<subseteq> set ch" for cs ts' sh'
    using that
  proof (induction cs arbitrary: sh')
    case (Cons c cs)
    have "flight_free c" using Cons.prems XE.prems(1) by (auto simp: list_all_iff)
    then show ?case
      using XE.IH [of c "st @ [?p]"] Cons by simp
  qed simp
  show ?case
    using XE.prems inner [of ch "EndElement l # ts"] by (simp add: Let_def)
qed

lemma walk_forest:
  assumes "list_all flight_free cs" "st \<noteq> []"
  shows "walk_loop True st (concat (map tokens_of cs) @ ts) sh =
    walk_loop True st ts (fold do_step (concat (map (steps_of (last st)) cs)) sh)"
  using assms by (induction cs arbitrary: sh) (simp_all add: walk_inside)

lemma walk_outside:
  "list_all plain_flight (flights_of d) \<Longrightarrow>
    walk_loop False [] (tokens_of d @ ts) sh = walk_loop False [] ts (fold visit_flight (flights_of d) sh)"
proof (induction d arbitrary: ts sh)
  case (XText s)
  then show ?case by simp
next
  case (XE l as ch)
  show ?case
  proof (cases "l = ''flight''")
    case True
    then show ?thesis using XE.prems by (simp add: plain_flight_def walk_forest visit_flight_def)
  next
    case False
    have "walk_loop False [] (concat (map tokens_of cs) @ ts') sh' =
        walk_loop False [] ts' (fold visit_flight (concat (map flights_of cs)) sh')"
      if "set cs \<subseteq> set ch" for cs ts' sh'
      using that
    proof (induction cs arbitrary: sh')
      case (Cons c cs)
      have "list_all plain_flight (flights_of c)" using Cons.prems XE.prems False by (auto simp: list_all_iff)
      then show ?case using XE.IH [of c] Cons by simp
    qed simp
    then show ?thesis using False by simp
  qed
qed

lemma walk_document:
  assumes "is_document ts d" "list_all plain_flight (flights_of d)"
  shows "walk_loop False [] ts sh = fold visit_flight (flights_of d) sh"
proof -
  have "walk_loop False [] ts sh = walk_loop False [] (filter significant (tokens_of d)) sh"
    using assms(1) by (simp add: is_document_def flip: walk_significant [of False "[]" ts])
  also have "\<dots> = walk_loop False [] (tokens_of d @ []) sh" by (simp add: walk_significant)
  finally show ?thesis using walk_outside [OF assms(2), of "[]" sh] by simp
qed

section \<open>What a flight holds\<close>

text \<open>The paths of the elements of a flight, its texts and its attributes, in the order of the document.\<close>

fun paths_of :: "path \<Rightarrow> xnode \<Rightarrow> path list" where
  "paths_of p (XText s) = []"
| "paths_of p (XE l as ch) = (p @ [l]) # concat (map (paths_of (p @ [l])) ch)"

fun texts_of :: "path \<Rightarrow> xnode \<Rightarrow> (path \<times> string) list" where
  "texts_of p (XText s) = (if TrimSpace s = [] then [] else [(p, TrimSpace s)])"
| "texts_of p (XE l as ch) = concat (map (texts_of (p @ [l])) ch)"

definition kept :: "string \<times> string \<times> string \<Rightarrow> bool" where
  "kept = (\<lambda>(space, local, v). space \<noteq> ''xmlns'' \<and> local \<noteq> ''xmlns'' \<and> \<not> (local = ''type'' \<and> space \<noteq> []))"

definition own_attrs :: "path \<Rightarrow> (string \<times> string \<times> string) list \<Rightarrow> (path \<times> string) list" where
  "own_attrs p as = map (\<lambda>(space, local, v). (p, local)) (filter kept as)"

fun attrs_in :: "path \<Rightarrow> xnode \<Rightarrow> (path \<times> string) list" where
  "attrs_in p (XText s) = []"
| "attrs_in p (XE l as ch) = own_attrs (p @ [l]) as @ concat (map (attrs_in (p @ [l])) ch)"

definition flight_paths :: "xnode \<Rightarrow> path list" where
  "flight_paths f = [] # concat (map (paths_of []) (children_of f))"

definition flight_texts :: "xnode \<Rightarrow> (path \<times> string) list" where
  "flight_texts f = concat (map (texts_of []) (children_of f))"

definition flight_attrs :: "xnode \<Rightarrow> (path \<times> string) list" where
  "flight_attrs f = own_attrs [] (attrs_of f) @ concat (map (attrs_in []) (children_of f))"

text \<open>The same by steps.\<close>

fun step_paths :: "step \<Rightarrow> path list" where
  "step_paths (Elem p l as) = [p @ [l]]"
| "step_paths (Txt p s) = []"

fun step_texts :: "step \<Rightarrow> (path \<times> string) list" where
  "step_texts (Elem p l as) = []"
| "step_texts (Txt p s) = (if TrimSpace s = [] then [] else [(p, TrimSpace s)])"

fun step_attrs :: "step \<Rightarrow> (path \<times> string) list" where
  "step_attrs (Elem p l as) = own_attrs (p @ [l]) as"
| "step_attrs (Txt p s) = []"

fun step_base :: "step \<Rightarrow> path" where
  "step_base (Elem p l as) = p"
| "step_base (Txt p s) = p"

abbreviation all_of :: "('a \<Rightarrow> 'b list) \<Rightarrow> 'a list \<Rightarrow> 'b list" where
  "all_of f xs \<equiv> concat (map f xs)"

lemma all_of_cong: "(\<And>x. x \<in> set xs \<Longrightarrow> all_of g (f x) = h x) \<Longrightarrow> all_of g (all_of f xs) = all_of h xs"
  by (induction xs) auto

lemma steps_of_spec:
  "all_of step_paths (steps_of p c) = paths_of p c"
  "all_of step_texts (steps_of p c) = texts_of p c"
  "all_of step_attrs (steps_of p c) = attrs_in p c"
  "\<forall>s \<in> set (steps_of p c). step_base s \<in> insert p (set (paths_of p c))"
  by (induction p c rule: steps_of.induct) (simp_all add: all_of_cong, blast)

definition flight_steps :: "xnode \<Rightarrow> step list" where
  "flight_steps f = all_of (steps_of []) (children_of f)"

lemma flight_steps_spec:
  "[] # all_of step_paths (flight_steps f) = flight_paths f"
  "all_of step_texts (flight_steps f) = flight_texts f"
  "own_attrs [] (attrs_of f) @ all_of step_attrs (flight_steps f) = flight_attrs f"
  "s \<in> set (flight_steps f) \<Longrightarrow> step_base s \<in> set (flight_paths f)"
  using steps_of_spec(4)
  by (auto simp: flight_steps_def flight_paths_def flight_texts_def flight_attrs_def all_of_cong steps_of_spec(1,2,3))

section \<open>The effect of a flight\<close>

lemma node_at_set_node [simp]: "node_at (set_node p n sh) q = (if q = p then n else node_at sh q)"
  by (simp add: node_at_def set_node_def)

lemma set_node_frame [simp]:
  "sh_seen (set_node p n sh) = sh_seen sh" "sh_seenAt (set_node p n sh) = sh_seenAt sh"
  "sh_flights (set_node p n sh) = sh_flights sh" "sh_envelopes (set_node p n sh) = sh_envelopes sh"
  "dom (sh_nodes (set_node p n sh)) = insert p (dom (sh_nodes sh))"
  by (simp_all add: set_node_def)

lemma node_at_frame [simp]:
  "node_at (sh\<lparr>sh_seen := s\<rparr>) = node_at sh" "node_at (sh\<lparr>sh_seenAt := t\<rparr>) = node_at sh"
  "node_at (sh\<lparr>sh_flights := k\<rparr>) = node_at sh" "node_at (sh\<lparr>sh_envelopes := k\<rparr>) = node_at sh"
  by (simp_all add: node_at_def fun_eq_iff)

text \<open>Seen counts.\<close>

definition seen_of :: "path list \<Rightarrow> path \<rightharpoonup> int" where
  "seen_of ps = (\<lambda>q. if q \<in> set ps then Some (int (count_list ps q)) else None)"

lemma record_attr_frame [simp]:
  "sh_seen (record_attr p a sh) = sh_seen sh" "sh_flights (record_attr p a sh) = sh_flights sh"
  "sh_envelopes (record_attr p a sh) = sh_envelopes sh"
  by (cases a, simp add: record_attr_def Let_def)+

lemma fold_record_attr_frame [simp]:
  "sh_seen (fold (record_attr p) as sh) = sh_seen sh" "sh_flights (fold (record_attr p) as sh) = sh_flights sh"
  "sh_envelopes (fold (record_attr p) as sh) = sh_envelopes sh"
  by (induction as arbitrary: sh) simp_all

lemma record_node_seen: "sh_seen sh = seen_of ps \<Longrightarrow> sh_seen (record_node p as sh) = seen_of (ps @ [p])"
  by (auto simp: record_node_def seen_of_def fun_eq_iff count_list_0_iff)

lemma do_step_seen: "sh_seen sh = seen_of ps \<Longrightarrow> sh_seen (do_step s sh) = seen_of (ps @ step_paths s)"
  by (cases s) (simp_all add: record_node_seen add_child_def add_text_def Let_def)

lemma do_steps_seen: "sh_seen sh = seen_of ps \<Longrightarrow> sh_seen (fold do_step ss sh) = seen_of (ps @ all_of step_paths ss)"
proof (induction ss arbitrary: sh ps)
  case (Cons s ss)
  show ?case using Cons.IH [OF do_step_seen [OF Cons.prems, of s]] by simp
qed simp

text \<open>Marked attributes.\<close>

lemma record_attr_seenAt: "sh_seenAt (record_attr p a sh) = sh_seenAt sh \<union> set (own_attrs p [a])"
  by (cases a) (simp add: record_attr_def own_attrs_def kept_def Let_def)

lemma record_attrs_seenAt: "sh_seenAt (fold (record_attr p) as sh) = sh_seenAt sh \<union> set (own_attrs p as)"
  by (induction as arbitrary: sh) (auto simp: record_attr_seenAt own_attrs_def)

lemma do_steps_seenAt: "sh_seenAt (fold do_step ss sh) = sh_seenAt sh \<union> set (all_of step_attrs ss)"
proof (induction ss arbitrary: sh)
  case (Cons s ss)
  have "sh_seenAt (do_step s sh) = sh_seenAt sh \<union> set (step_attrs s)"
    by (cases s) (simp_all add: record_node_def record_attrs_seenAt add_child_def add_text_def Let_def)
  then show ?case by (simp add: Cons.IH Un_assoc)
qed simp

text \<open>The number of flights, and what a step leaves alone.\<close>

lemma do_step_flights [simp]: "sh_flights (do_step s sh) = sh_flights sh" "sh_envelopes (do_step s sh) = sh_envelopes sh"
  by (cases s, simp_all add: record_node_def add_child_def add_text_def Let_def)+

lemma do_steps_flights [simp]: "sh_flights (fold do_step ss sh) = sh_flights sh" "sh_envelopes (fold do_step ss sh) = sh_envelopes sh"
  by (induction ss arbitrary: sh) simp_all

text \<open>What a node says of past flights, of its texts and of its attributes.\<close>

definition past :: "shape_node \<Rightarrow> int \<times> int" where
  "past n = (nd_flights n, nd_maxRepeat n)"

definition attr_past :: "shape_node \<Rightarrow> string \<Rightarrow> int" where
  "attr_past n l = (case nd_attrs n l of None \<Rightarrow> 0 | Some a \<Rightarrow> at_flights a)"

lemma attr_value_flights [simp]: "at_flights (attr_value v a) = at_flights a"
  by (simp add: attr_value_def Let_def split: option.split)

lemma new_attr_flights [simp]: "at_flights (new_attr l) = 0" by (simp add: new_attr_def)

lemma record_attr_skip: "\<not> kept a \<Longrightarrow> record_attr p a sh = sh"
  by (cases a) (auto simp: record_attr_def kept_def)

lemma record_attr_keep:
  assumes "kept (space, local, v)"
  shows "node_at (record_attr p (space, local, v) sh) =
    (node_at sh)(p := (node_at sh p)\<lparr>nd_attrs := (nd_attrs (node_at sh p))(local \<mapsto>
      attr_value v (case nd_attrs (node_at sh p) local of Some a \<Rightarrow> a | None \<Rightarrow> new_attr local))\<rparr>)"
  using assms by (auto simp: record_attr_def kept_def Let_def fun_eq_iff)

lemma record_attr_node:
  "past (node_at (record_attr p a sh) q) = past (node_at sh q)"
  "attr_past (node_at (record_attr p a sh) q) l = attr_past (node_at sh q) l"
  "dom (nd_attrs (node_at (record_attr p a sh) q)) = dom (nd_attrs (node_at sh q)) \<union> {l. (q, l) \<in> set (own_attrs p [a])}"
proof -
  obtain space loc v where a: "a = (space, loc, v)" by (cases a)
  show "past (node_at (record_attr p a sh) q) = past (node_at sh q)"
    by (cases "kept a") (simp_all add: record_attr_skip record_attr_keep a past_def)
  show "attr_past (node_at (record_attr p a sh) q) l = attr_past (node_at sh q) l"
    by (cases "kept a") (simp_all add: record_attr_skip record_attr_keep a attr_past_def split: option.split)
  show "dom (nd_attrs (node_at (record_attr p a sh) q)) = dom (nd_attrs (node_at sh q)) \<union> {l. (q, l) \<in> set (own_attrs p [a])}"
    by (cases "kept a") (auto simp: record_attr_skip record_attr_keep a own_attrs_def)
qed

lemma record_attrs_node:
  "past (node_at (fold (record_attr p) as sh) q) = past (node_at sh q)"
  "attr_past (node_at (fold (record_attr p) as sh) q) l = attr_past (node_at sh q) l"
  "dom (nd_attrs (node_at (fold (record_attr p) as sh) q)) = dom (nd_attrs (node_at sh q)) \<union> {l. (q, l) \<in> set (own_attrs p as)}"
proof (induction as arbitrary: sh)
  case (Cons a as)
  have split: "set (own_attrs p (a # as)) = set (own_attrs p [a]) \<union> set (own_attrs p as)"
    by (auto simp: own_attrs_def)
  {
    case 1 then show ?case using Cons.IH(1) record_attr_node(1) by simp
  next
    case 2 then show ?case using Cons.IH(2) record_attr_node(2) by simp
  next
    case 3 then show ?case using Cons.IH(3) record_attr_node(3) split by auto
  }
qed (simp_all add: own_attrs_def)

text \<open>The texts of a node.\<close>

definition text_part :: "shape_node \<Rightarrow> bool \<times> string \<times> (string \<times> int) list" where
  "text_part n = (nd_hasText n, nd_sampleText n, nd_textValues n)"

definition texts_ok :: "string list \<Rightarrow> shape_node \<Rightarrow> bool" where
  "texts_ok vs n \<longleftrightarrow>
     (nd_hasText n \<longleftrightarrow> vs \<noteq> []) \<and> nd_sampleText n = (case vs of [] \<Rightarrow> [] | v # _ \<Rightarrow> v) \<and>
     histogram 60 vs (nd_textValues n)"

lemma texts_ok_cong: "text_part n = text_part n' \<Longrightarrow> texts_ok vs n = texts_ok vs n'"
  by (simp add: text_part_def texts_ok_def)

definition text_step :: "string \<Rightarrow> shape_node \<Rightarrow> shape_node" where
  "text_step text n =
     (let n1 = n\<lparr>nd_hasText := True\<rparr>;
          n2 = (if nd_sampleText n1 = [] then n1\<lparr>nd_sampleText := text\<rparr> else n1);
          vs = nd_textValues n2
      in if length vs < 60 then n2\<lparr>nd_textValues := AList.update text (count_of vs text + 1) vs\<rparr> else n2)"

lemma add_text_node:
  "node_at (add_text p s sh) = (if TrimSpace s = [] then node_at sh else (node_at sh)(p := text_step (TrimSpace s) (node_at sh p)))"
  by (simp add: add_text_def text_step_def Let_def fun_eq_iff)

lemma texts_ok_step:
  assumes "texts_ok vs n" "[] \<notin> set vs" "t \<noteq> []"
  shows "texts_ok (vs @ [t]) (text_step t n)"
proof -
  have sample: "nd_hasText (text_step t n)" "nd_sampleText (text_step t n) = (case vs @ [t] of [] \<Rightarrow> [] | v # _ \<Rightarrow> v)"
    using assms by (auto simp: texts_ok_def text_step_def Let_def split: list.splits)
  have "nd_textValues (text_step t n) =
      (if length (nd_textValues n) < 60 then AList.update t (count_of (nd_textValues n) t + 1) (nd_textValues n) else nd_textValues n)"
    by (simp add: text_step_def Let_def)
  then show ?thesis using sample assms(1) histogram_snoc [of 60 vs "nd_textValues n" t] by (simp add: texts_ok_def)
qed

lemma text_step_frame [simp]:
  "past (text_step t n) = past n" "nd_attrs (text_step t n) = nd_attrs n" "attr_past (text_step t n) l = attr_past n l"
  by (simp_all add: text_step_def past_def attr_past_def Let_def)

lemma record_attr_text: "text_part (node_at (record_attr p a sh) q) = text_part (node_at sh q)"
  by (cases a; cases "kept a") (simp_all add: record_attr_skip record_attr_keep text_part_def)

lemma record_attrs_text: "text_part (node_at (fold (record_attr p) as sh) q) = text_part (node_at sh q)"
  by (induction as arbitrary: sh) (simp_all add: record_attr_text)

lemma newNode_simps [simp]:
  "past newNode = (0, 0)" "nd_attrs newNode = Map.empty" "attr_past newNode l = 0" "texts_ok [] newNode"
  by (simp_all add: newNode_def past_def attr_past_def texts_ok_def)

lemma add_child_node:
  "past (node_at (add_child p l sh) q) = past (node_at sh q)"
  "nd_attrs (node_at (add_child p l sh) q) = nd_attrs (node_at sh q)"
  "text_part (node_at (add_child p l sh) q) = text_part (node_at sh q)"
  "attr_past (node_at (add_child p l sh) q) k = attr_past (node_at sh q) k"
  by (auto simp: add_child_def past_def text_part_def attr_past_def Let_def node_at_def set_node_def)

lemma do_step_node:
  "past (node_at (do_step s sh) q) = past (node_at sh q)"
  "attr_past (node_at (do_step s sh) q) l = attr_past (node_at sh q) l"
  "dom (nd_attrs (node_at (do_step s sh) q)) = dom (nd_attrs (node_at sh q)) \<union> {l. (q, l) \<in> set (step_attrs s)}"
  by (cases s, simp_all add: record_node_def record_attrs_node add_child_node add_text_node)+

definition texts_at :: "path \<Rightarrow> (path \<times> string) list \<Rightarrow> string list" where
  "texts_at q xs = map snd (filter (\<lambda>(p, t). p = q) xs)"

lemma texts_at_simps [simp]: "texts_at q [] = []" "texts_at q (xs @ ys) = texts_at q xs @ texts_at q ys"
    "texts_at q ((p, t) # xs) = (if p = q then [t] else []) @ texts_at q xs"
  by (simp_all add: texts_at_def)

lemma do_step_texts:
  assumes "texts_ok vs (node_at sh q)" "[] \<notin> set vs"
  shows "texts_ok (vs @ texts_at q (step_texts s)) (node_at (do_step s sh) q)"
proof (cases s)
  case (Elem p l as)
  have "text_part (node_at (do_step s sh) q) = text_part (node_at sh q)"
    by (simp add: Elem record_node_def record_attrs_text add_child_node)
  from texts_ok_cong [OF this, of vs] show ?thesis using assms(1) by (simp add: Elem)
next
  case (Txt p t)
  then show ?thesis using assms texts_ok_step [OF assms] by (auto simp: add_text_node)
qed

lemma step_texts_nonempty: "[] \<notin> set (texts_at q (step_texts s))"
  by (cases s) auto

lemma do_steps_node:
  "past (node_at (fold do_step ss sh) q) = past (node_at sh q)"
  "attr_past (node_at (fold do_step ss sh) q) l = attr_past (node_at sh q) l"
  "dom (nd_attrs (node_at (fold do_step ss sh) q)) = dom (nd_attrs (node_at sh q)) \<union> {l. (q, l) \<in> set (all_of step_attrs ss)}"
  by (induction ss arbitrary: sh) (auto simp: do_step_node)

lemma do_steps_texts:
  "texts_ok vs (node_at sh q) \<Longrightarrow> [] \<notin> set vs \<Longrightarrow>
     texts_ok (vs @ texts_at q (all_of step_texts ss)) (node_at (fold do_step ss sh) q)"
proof (induction ss arbitrary: vs sh)
  case (Cons s ss)
  then show ?case
    using Cons.IH [OF do_step_texts [OF Cons.prems, of s]] step_texts_nonempty [of q s] by simp
qed simp

text \<open>The paths that have a node.\<close>

lemma record_attr_dom:
  "dom (sh_nodes sh) \<subseteq> dom (sh_nodes (record_attr p a sh)) \<and> dom (sh_nodes (record_attr p a sh)) \<subseteq> insert p (dom (sh_nodes sh))"
proof -
  obtain space loc v where a: "a = (space, loc, v)" by (cases a)
  have "sh_nodes (record_attr p a sh) = sh_nodes sh \<or> (\<exists>n. sh_nodes (record_attr p a sh) = (sh_nodes sh)(p \<mapsto> n))"
    by (auto simp: a record_attr_def set_node_def Let_def)
  then show ?thesis by auto
qed

lemma record_attrs_dom:
  "dom (sh_nodes sh) \<subseteq> dom (sh_nodes (fold (record_attr p) as sh)) \<and>
   dom (sh_nodes (fold (record_attr p) as sh)) \<subseteq> insert p (dom (sh_nodes sh))"
proof (induction as arbitrary: sh)
  case (Cons a as)
  show ?case using Cons.IH [of "record_attr p a sh"] record_attr_dom [of sh p a] by (simp only: fold_simps comp_apply) blast
qed auto

lemma add_child_dom:
  "dom (sh_nodes sh) \<union> {p @ [l]} \<subseteq> dom (sh_nodes (add_child p l sh)) \<and>
   dom (sh_nodes (add_child p l sh)) \<subseteq> insert p (dom (sh_nodes sh) \<union> {p @ [l]})"
  by (auto simp: add_child_def set_node_def Let_def)

lemma record_node_dom:
  "dom (sh_nodes sh) \<subseteq> dom (sh_nodes (record_node p as sh)) \<and> dom (sh_nodes (record_node p as sh)) \<subseteq> insert p (dom (sh_nodes sh))"
  using record_attrs_dom [of "sh\<lparr>sh_seen := s\<rparr>" p as for s] by (simp add: record_node_def)

lemma grows:
  assumes "A \<union> B \<subseteq> C" "C \<subseteq> insert p (A \<union> B)" "C \<subseteq> D" "D \<subseteq> insert x C" "x \<in> B"
  shows "A \<union> B \<subseteq> D \<and> D \<subseteq> insert p (A \<union> B)"
  using assms by blast

lemma do_step_dom:
  "dom (sh_nodes sh) \<union> set (step_paths s) \<subseteq> dom (sh_nodes (do_step s sh)) \<and>
   dom (sh_nodes (do_step s sh)) \<subseteq> insert (step_base s) (dom (sh_nodes sh) \<union> set (step_paths s))"
proof (cases s)
  case (Elem p l as)
  show ?thesis
    unfolding Elem do_step.simps step_paths.simps step_base.simps list.set
    by (rule grows [OF conjunct1 [OF add_child_dom] conjunct2 [OF add_child_dom]
        conjunct1 [OF record_node_dom] conjunct2 [OF record_node_dom]]) simp
qed (auto simp: add_text_def set_node_def Let_def)

lemma do_steps_dom:
  "dom (sh_nodes sh) \<union> set (all_of step_paths ss) \<subseteq> dom (sh_nodes (fold do_step ss sh)) \<and>
   dom (sh_nodes (fold do_step ss sh)) \<subseteq> step_base ` set ss \<union> dom (sh_nodes sh) \<union> set (all_of step_paths ss)"
proof (induction ss arbitrary: sh)
  case (Cons s ss)
  have "set (all_of step_paths (s # ss)) = set (step_paths s) \<union> set (all_of step_paths ss)" by simp
  then show ?case using Cons.IH [of "do_step s sh"] do_step_dom [of sh s] by (simp only: fold_simps comp_apply list.set image_insert) blast
qed simp

text \<open>Flushing.\<close>

lemma flush_frame [simp]:
  "sh_seen (flush sh) = Map.empty" "sh_seenAt (flush sh) = {}" "sh_flights (flush sh) = sh_flights sh"
  "dom (sh_nodes (flush sh)) = dom (sh_nodes sh)" "flush (sh\<lparr>sh_flights := k\<rparr>) = (flush sh)\<lparr>sh_flights := k\<rparr>"
  "flush (sh\<lparr>sh_envelopes := k\<rparr>) = (flush sh)\<lparr>sh_envelopes := k\<rparr>"
  by (auto simp: flush_def Let_def cong: option.case_cong split: option.splits)

lemma flush_node:
  assumes "p \<in> dom (sh_nodes sh)"
  shows "past (node_at (flush sh) p) = (case sh_seen sh p of
      None \<Rightarrow> past (node_at sh p)
    | Some c \<Rightarrow> (nd_flights (node_at sh p) + 1, max (nd_maxRepeat (node_at sh p)) c))"
    "attr_past (node_at (flush sh) p) l =
      attr_past (node_at sh p) l + (if l \<in> dom (nd_attrs (node_at sh p)) \<and> (p, l) \<in> sh_seenAt sh then 1 else 0)"
    "dom (nd_attrs (node_at (flush sh) p)) = dom (nd_attrs (node_at sh p))"
    "text_part (node_at (flush sh) p) = text_part (node_at sh p)"
proof -
  obtain n where n: "sh_nodes sh p = Some n" using assms by blast
  show "past (node_at (flush sh) p) = (case sh_seen sh p of
      None \<Rightarrow> past (node_at sh p)
    | Some c \<Rightarrow> (nd_flights (node_at sh p) + 1, max (nd_maxRepeat (node_at sh p)) c))"
    by (simp add: node_at_def flush_def n past_def Let_def split: option.split)
  show "attr_past (node_at (flush sh) p) l =
      attr_past (node_at sh p) l + (if l \<in> dom (nd_attrs (node_at sh p)) \<and> (p, l) \<in> sh_seenAt sh then 1 else 0)"
    by (auto simp: node_at_def flush_def n attr_past_def Let_def split: option.split)
  show "dom (nd_attrs (node_at (flush sh) p)) = dom (nd_attrs (node_at sh p))"
    by (auto simp: node_at_def flush_def n Let_def split: option.splits)
  show "text_part (node_at (flush sh) p) = text_part (node_at sh p)"
    by (simp add: node_at_def flush_def n text_part_def Let_def split: option.split)
qed

lemma node_at_outside: "p \<notin> dom (sh_nodes sh) \<Longrightarrow> node_at sh p = newNode"
  by (auto simp: node_at_def split: option.split)

section \<open>Exactness\<close>

definition carrying :: "(xnode \<Rightarrow> bool) \<Rightarrow> xnode list \<Rightarrow> int" where
  "carrying P fs = int (length (filter P fs))"

definition peak :: "path \<Rightarrow> xnode list \<Rightarrow> int" where
  "peak p fs = Max (insert 0 ((\<lambda>f. int (count_list (flight_paths f) p)) ` set fs))"

lemma carrying_simps [simp]: "carrying P [] = 0" "carrying P (fs @ [f]) = carrying P fs + (if P f then 1 else 0)"
  by (simp_all add: carrying_def)

lemma peak_simps [simp]: "peak p [] = 0" "peak p (fs @ [f]) = max (peak p fs) (int (count_list (flight_paths f) p))"
  by (simp_all add: peak_def insert_commute [of 0] max.commute)

lemma peak_nonneg: "0 \<le> peak p fs" by (simp add: peak_def)

lemma count_list_absent [simp]: "x \<notin> set xs \<Longrightarrow> count_list xs x = 0"
  by (simp add: count_list_0_iff)

text \<open>The node of a path after the flights \<open>fs\<close>.\<close>

definition node_exact :: "xnode list \<Rightarrow> path \<Rightarrow> shape_node \<Rightarrow> bool" where
  "node_exact fs p n \<longleftrightarrow>
     nd_flights n = carrying (\<lambda>f. p \<in> set (flight_paths f)) fs \<and> nd_maxRepeat n = peak p fs \<and>
     texts_ok (texts_at p (all_of flight_texts fs)) n \<and>
     (\<forall>l. attr_past n l = carrying (\<lambda>f. (p, l) \<in> set (flight_attrs f)) fs) \<and>
     dom (nd_attrs n) = {l. \<exists>f \<in> set fs. (p, l) \<in> set (flight_attrs f)}"

definition shape_exact :: "xnode list \<Rightarrow> shape \<Rightarrow> bool" where
  "shape_exact fs sh \<longleftrightarrow> sh_flights sh = int (length fs) \<and>
     dom (sh_nodes sh) = insert [] (\<Union>f \<in> set fs. set (flight_paths f)) \<and>
     (\<forall>p. node_exact fs p (node_at sh p))"

text \<open>A flight visited from a flushed state, and flushed.\<close>

definition flight_body :: "xnode \<Rightarrow> shape \<Rightarrow> shape" where
  "flight_body f sh = fold do_step (flight_steps f) (record_node [] (attrs_of f) (sh\<lparr>sh_flights := sh_flights sh + 1\<rparr>))"

lemma visit_flight_body: "visit_flight f sh = flight_body f (flush sh)"
  by (simp add: visit_flight_def flight_body_def flight_steps_def)

lemma flight_body_node:
  "past (node_at (flight_body f sh) q) = past (node_at sh q)"
  "attr_past (node_at (flight_body f sh) q) l = attr_past (node_at sh q) l"
  "dom (nd_attrs (node_at (flight_body f sh) q)) = dom (nd_attrs (node_at sh q)) \<union> {l. (q, l) \<in> set (flight_attrs f)}"
proof -
  note simps = flight_body_def do_steps_node record_node_def record_attrs_node
  show "past (node_at (flight_body f sh) q) = past (node_at sh q)" by (simp add: simps)
  show "attr_past (node_at (flight_body f sh) q) l = attr_past (node_at sh q) l" by (simp add: simps)
  have "set (flight_attrs f) = set (own_attrs [] (attrs_of f)) \<union> set (all_of step_attrs (flight_steps f))"
    by (simp flip: flight_steps_spec(3))
  then show "dom (nd_attrs (node_at (flight_body f sh) q)) = dom (nd_attrs (node_at sh q)) \<union> {l. (q, l) \<in> set (flight_attrs f)}"
    by (simp only: simps node_at_frame) blast
qed

lemma texts_of_nonempty: "[] \<notin> snd ` set (texts_of p c)"
  by (induction p c rule: texts_of.induct) auto

lemma flight_texts_nonempty: "[] \<notin> set (texts_at q (all_of flight_texts fs))"
  using texts_of_nonempty by (force simp: texts_at_def flight_texts_def)

lemma flight_body_texts:
  assumes "texts_ok (texts_at q (all_of flight_texts fs)) (node_at sh q)"
  shows "texts_ok (texts_at q (all_of flight_texts (fs @ [f]))) (node_at (flight_body f sh) q)"
proof -
  let ?sh = "record_node [] (attrs_of f) (sh\<lparr>sh_flights := sh_flights sh + 1\<rparr>)"
  have "text_part (node_at ?sh q) = text_part (node_at sh q)" by (simp add: record_node_def record_attrs_text)
  from texts_ok_cong [OF this] assms have "texts_ok (texts_at q (all_of flight_texts fs)) (node_at ?sh q)" by simp
  from do_steps_texts [OF this flight_texts_nonempty, of "flight_steps f"] show ?thesis
    by (simp add: flight_body_def flight_steps_spec(2))
qed

lemma flight_body_marks:
  assumes "sh_seen sh = Map.empty" "sh_seenAt sh = {}"
  shows "sh_seen (flight_body f sh) = seen_of (flight_paths f)" "sh_seenAt (flight_body f sh) = set (flight_attrs f)"
    "sh_flights (flight_body f sh) = sh_flights sh + 1"
proof -
  let ?sh = "record_node [] (attrs_of f) (sh\<lparr>sh_flights := sh_flights sh + 1\<rparr>)"
  have "sh_seen ?sh = seen_of [[]]"
    using record_node_seen [of "sh\<lparr>sh_flights := sh_flights sh + 1\<rparr>" "[]" "[]" "attrs_of f"] assms(1)
    by (simp add: seen_of_def)
  from do_steps_seen [OF this, of "flight_steps f"] show "sh_seen (flight_body f sh) = seen_of (flight_paths f)"
    by (simp add: flight_body_def flip: flight_steps_spec(1))
  show "sh_seenAt (flight_body f sh) = set (flight_attrs f)"
    using assms(2) by (simp add: flight_body_def do_steps_seenAt record_node_def record_attrs_seenAt flip: flight_steps_spec(3))
  show "sh_flights (flight_body f sh) = sh_flights sh + 1" by (simp add: flight_body_def record_node_def)
qed

lemma close_sets:
  assumes "B \<subseteq> F" "F = insert x S" "A \<union> S \<subseteq> D" "D \<subseteq> B \<union> A \<union> S" "x \<in> A"
  shows "D = A \<union> F"
  using assms by blast

lemma flight_body_dom:
  assumes "[] \<in> dom (sh_nodes sh)"
  shows "dom (sh_nodes (flight_body f sh)) = dom (sh_nodes sh) \<union> set (flight_paths f)"
proof -
  let ?sh = "record_node [] (attrs_of f) (sh\<lparr>sh_flights := sh_flights sh + 1\<rparr>)"
  have d: "dom (sh_nodes ?sh) = dom (sh_nodes sh)"
    using record_node_dom [of "sh\<lparr>sh_flights := sh_flights sh + 1\<rparr>" "[]" "attrs_of f"] assms by auto
  have "step_base ` set (flight_steps f) \<subseteq> set (flight_paths f)" using flight_steps_spec(4) by blast
  moreover have "set (flight_paths f) = insert [] (set (all_of step_paths (flight_steps f)))"
    by (simp flip: flight_steps_spec(1))
  moreover have "dom (sh_nodes sh) \<union> set (all_of step_paths (flight_steps f)) \<subseteq> dom (sh_nodes (flight_body f sh))"
      "dom (sh_nodes (flight_body f sh)) \<subseteq>
        step_base ` set (flight_steps f) \<union> dom (sh_nodes sh) \<union> set (all_of step_paths (flight_steps f))"
    using do_steps_dom [of ?sh "flight_steps f"] unfolding flight_body_def d by simp_all
  ultimately show ?thesis
    using assms by (rule close_sets)
qed

lemma node_exactI:
  assumes "past n = (carrying (\<lambda>f. p \<in> set (flight_paths f)) fs, peak p fs)"
    and "texts_ok (texts_at p (all_of flight_texts fs)) n"
    and "\<And>l. attr_past n l = carrying (\<lambda>f. (p, l) \<in> set (flight_attrs f)) fs"
    and "dom (nd_attrs n) = {l. \<exists>f \<in> set fs. (p, l) \<in> set (flight_attrs f)}"
  shows "node_exact fs p n"
  using assms by (simp add: node_exact_def past_def)

lemma flight_attrs_paths: "(p, l) \<in> set (flight_attrs f) \<Longrightarrow> p \<in> set (flight_paths f)"
proof -
  have "(p, l) \<in> set (attrs_in b c) \<Longrightarrow> p \<in> set (paths_of b c)" for b c
    by (induction b c rule: attrs_in.induct) (auto simp: own_attrs_def)
  then show "(p, l) \<in> set (flight_attrs f) \<Longrightarrow> p \<in> set (flight_paths f)"
    by (auto simp: flight_attrs_def flight_paths_def own_attrs_def)
qed

lemma flight_texts_paths: "(p, t) \<in> set (flight_texts f) \<Longrightarrow> p \<in> set (flight_paths f)"
proof -
  have "(p, t) \<in> set (texts_of b c) \<Longrightarrow> p \<in> insert b (set (paths_of b c))" for b c
    by (induction b c rule: texts_of.induct) (auto split: if_splits)
  then show "(p, t) \<in> set (flight_texts f) \<Longrightarrow> p \<in> set (flight_paths f)"
    by (fastforce simp: flight_texts_def flight_paths_def)
qed

lemma shape_exact_flight:
  assumes "shape_exact fs sh" "sh_seen sh = Map.empty" "sh_seenAt sh = {}"
  shows "shape_exact (fs @ [f]) (flush (flight_body f sh))"
proof -
  let ?b = "flight_body f sh" and ?P = "set (flight_paths f)"
  have dom: "dom (sh_nodes ?b) = dom (sh_nodes sh) \<union> ?P"
    using assms(1) by (intro flight_body_dom) (simp add: shape_exact_def)
  note marks = flight_body_marks [OF assms(2,3), of f]
  have node: "node_exact (fs @ [f]) p (node_at (flush ?b) p)" for p
  proof -
    have old: "node_exact fs p (node_at sh p)" using assms(1) by (simp add: shape_exact_def)
    show ?thesis
    proof (cases "p \<in> dom (sh_nodes ?b)")
      case True
      note fl = flush_node [OF True, unfolded flight_body_node marks]
      show ?thesis
      proof (rule node_exactI)
        have sh: "past (node_at sh p) = (carrying (\<lambda>f. p \<in> set (flight_paths f)) fs, peak p fs)"
          using old by (simp add: node_exact_def past_def)
        then have "past (node_at ?b p) = (carrying (\<lambda>f. p \<in> set (flight_paths f)) fs, peak p fs)"
          by (simp add: flight_body_node)
        then have "nd_flights (node_at ?b p) = carrying (\<lambda>f. p \<in> set (flight_paths f)) fs" "nd_maxRepeat (node_at ?b p) = peak p fs"
          by (simp_all add: past_def)
        then show "past (node_at (flush ?b) p) = (carrying (\<lambda>f. p \<in> set (flight_paths f)) (fs @ [f]), peak p (fs @ [f]))"
          using sh peak_nonneg [of p fs] by (simp add: fl(1) seen_of_def)
        show "texts_ok (texts_at p (all_of flight_texts (fs @ [f]))) (node_at (flush ?b) p)"
          using flight_body_texts [of p fs sh f] old texts_ok_cong [OF fl(4)] by (simp add: node_exact_def)
        show "attr_past (node_at (flush ?b) p) l = carrying (\<lambda>f. (p, l) \<in> set (flight_attrs f)) (fs @ [f])" for l
          using old by (simp add: fl(2) node_exact_def)
        show "dom (nd_attrs (node_at (flush ?b) p)) = {l. \<exists>f \<in> set (fs @ [f]). (p, l) \<in> set (flight_attrs f)}"
          using old by (auto simp: fl(3) node_exact_def)
      qed
    next
      case False
      then have out: "p \<notin> ?P" "\<And>g. g \<in> set fs \<Longrightarrow> p \<notin> set (flight_paths g)"
        using dom assms(1) by (auto simp: shape_exact_def)
      have texts: "texts_at p (flight_texts g) = []" if "p \<notin> set (flight_paths g)" for g
        using that flight_texts_paths by (fastforce simp: texts_at_def filter_empty_conv)
      have "node_at (flush ?b) p = node_at sh p"
        using False dom by (simp add: node_at_outside)
      moreover have "(p, l) \<notin> set (flight_attrs f)" for l using out(1) flight_attrs_paths by blast
      ultimately show ?thesis
        using old out(1) texts [OF out(1)] peak_nonneg [of p fs] by (simp add: node_exact_def)
    qed
  qed
  show ?thesis
    using assms(1) node marks(3) dom by (auto simp: shape_exact_def)
qed

lemma flush_shape_exact:
  "shape_exact fs (flush sh) \<Longrightarrow> shape_exact (fs @ gs) (flush (fold visit_flight gs sh))"
proof (induction gs arbitrary: fs sh)
  case (Cons g gs)
  from shape_exact_flight [OF Cons.prems] have "shape_exact (fs @ [g]) (flush (visit_flight g sh))"
    by (simp add: visit_flight_body)
  from Cons.IH [OF this] show ?case by simp
qed simp

lemma newCensus_exact: "shape_exact [] (flush newCensus)"
proof -
  have "node_at (flush newCensus) p = newNode" for p
    by (simp add: node_at_def flush_def newCensus_def newNode_def)
  then show ?thesis
    by (simp add: shape_exact_def node_exact_def newCensus_def) (simp add: newNode_def peak_def)
qed

section \<open>The run\<close>

text \<open>The messages are documents, one tree each, no flight inside another.\<close>

definition reads_trees :: "tokenizer \<Rightarrow> bytes list \<Rightarrow> xnode list \<Rightarrow> bool" where
  "reads_trees X msgs docs \<longleftrightarrow>
     list_all2 (\<lambda>m d. is_document (fst (X m)) d \<and> list_all plain_flight (flights_of d)) msgs docs"

lemma shape_read_trees:
  assumes "reads_trees X msgs docs" "shape_exact fs (flush sh)" "limit \<le> 0"
  shows "shape_exact (fs @ concat (map flights_of docs)) (flush (shape_read X limit msgs sh))"
  using assms
proof (induction msgs arbitrary: docs fs sh)
  case Nil
  then show ?case by (subst shape_read.simps) (simp add: reads_trees_def)
next
  case (Cons m msgs)
  then obtain d ds where d: "docs = d # ds" "is_document (fst (X m)) d" "list_all plain_flight (flights_of d)" "reads_trees X msgs ds"
    by (auto simp: reads_trees_def list_all2_Cons1)
  let ?sh = "sh\<lparr>sh_envelopes := sh_envelopes sh + 1\<rparr>"
  have "snd (walk_doc X m ?sh) = fold visit_flight (flights_of d) ?sh"
    using walk_document [OF d(2,3), of ?sh] by (cases "X m") (simp add: walk_doc_def)
  moreover have "shape_exact fs (flush ?sh)"
    using Cons.prems(2) by (simp add: shape_exact_def)
  ultimately have "shape_exact (fs @ flights_of d) (flush (snd (walk_doc X m ?sh)))"
    using flush_shape_exact [of fs ?sh "flights_of d"] by simp
  from Cons.IH [OF d(4) this Cons.prems(3)] show ?case
    using Cons.prems(3) by (subst shape_read.simps) (simp add: d(1))
qed

text \<open>
  C38: the tree is exact: read to the end, well-formed messages whose flights do not nest give a tree with a
  node for precisely the element paths that occur below a flight; every node says how many flights
  carry it and how often it occurs in one flight at most, its text and its first sample, the exact
  histogram of its texts when fewer than 60 differ, and for exactly the attributes seen there the
  number of flights carrying them.
\<close>

theorem shape_run_exact:
  assumes "reads_trees X msgs docs" and "fs = concat (map flights_of docs)"
  shows "sh_flights (shape_run X 0 msgs) = int (length fs) \<and>
    dom (sh_nodes (shape_run X 0 msgs)) = insert [] (\<Union>f \<in> set fs. set (flight_paths f)) \<and>
    node_exact fs p (node_at (shape_run X 0 msgs) p)"
  using shape_read_trees [OF assms(1) newCensus_exact, of 0] assms(2)
  by (simp add: shape_run_def shape_exact_def)

text \<open>One message with two flights, one of them with two positions.\<close>

definition two_flights :: xnode where
  "two_flights = XE ''messages'' []
     [XE ''flight'' [([], ''source'', ''TH'')] [XE ''position'' [] [XText ''40''], XE ''position'' [] []],
      XE ''flight'' [] []]"

theorem shape_run_exact_witness:
  "sh_flights (shape_run (\<lambda>data. (tokens_of two_flights, Eof)) 0 [''x'']) = 2 \<and>
   nd_maxRepeat (node_at (shape_run (\<lambda>data. (tokens_of two_flights, Eof)) 0 [''x'']) [''position'']) = 2"
proof -
  have "reads_trees (\<lambda>data. (tokens_of two_flights, Eof)) [''x''] [two_flights]"
    by (simp add: reads_trees_def is_document_def two_flights_def plain_flight_def)
  from shape_run_exact [OF this refl, of "[''position'']"] show ?thesis
    by (simp add: two_flights_def node_exact_def peak_def flight_paths_def)
qed

end
