(* ===== verification/Shape_Json.thy ===== *)
theory Shape_Json
  imports Go_Marshal Kafka_Msg Census_Field
begin

text \<open>
  filter/cmd/dev_census/main.go: the tree of the normalized feed, one node per path of JSON names below
  a flight. A pointer to a node is the path to it. Go iterates over a decoded object in any order: the
  order of every object is a parameter, as is the text \<^verbatim>\<open>fmt\<close> gives for an array inside an array. The
  printed report is left out.
\<close>

section \<open>Decoded values\<close>

text \<open>An object is decoded into a map, where the last of equal names wins, and iterated in some order.\<close>

type_synonym map_order = "(string \<times> json) list \<Rightarrow> (string \<times> json) list"

fun go_value :: "map_order \<Rightarrow> json \<Rightarrow> json" where
  "go_value ord (JObj ms) = JObj (ord (AList.clearjunk (rev (map (\<lambda>(k, v). (k, go_value ord v)) ms))))"
| "go_value ord (JArr es) = JArr (map (go_value ord) es)"
| "go_value ord v = v"

section \<open>The tree\<close>

type_synonym jpath = "string list"

record jnode =
  jn_flights :: int
  jn_maxRepeat :: int
  jn_kinds :: "string \<Rightarrow> int"
  jn_hasLeaf :: bool
  jn_sample :: string
  jn_values :: "(string \<times> int) list"
  jn_order :: "string list"

definition newJnode :: jnode where
  "newJnode = \<lparr>jn_flights = 0, jn_maxRepeat = 0, jn_kinds = (\<lambda>_. 0), jn_hasLeaf = False, jn_sample = [], jn_values = [],
     jn_order = []\<rparr>"

record jshape =
  js_envelopes :: int
  js_flights :: int
  js_nodes :: "jpath \<rightharpoonup> jnode"
  js_seen :: "jpath \<rightharpoonup> int"

definition newJcensus :: jshape where
  "newJcensus = \<lparr>js_envelopes = 0, js_flights = 0, js_nodes = [[] \<mapsto> newJnode], js_seen = Map.empty\<rparr>"

definition jnode_at :: "jshape \<Rightarrow> jpath \<Rightarrow> jnode" where
  "jnode_at s p = (case js_nodes s p of Some n \<Rightarrow> n | None \<Rightarrow> newJnode)"

definition set_jnode :: "jpath \<Rightarrow> jnode \<Rightarrow> jshape \<Rightarrow> jshape" where
  "set_jnode p n s = s\<lparr>js_nodes := (js_nodes s)(p \<mapsto> n)\<rparr>"

section \<open>Observing a flight\<close>

definition jchild :: "jpath \<Rightarrow> string \<Rightarrow> jshape \<Rightarrow> jshape" where
  "jchild p k s =
     (if js_nodes s (p @ [k]) \<noteq> None then s
      else (let n = jnode_at s p in set_jnode p (n\<lparr>jn_order := jn_order n @ [k]\<rparr>) (set_jnode (p @ [k]) newJnode s)))"

definition mark :: "jpath \<Rightarrow> int \<Rightarrow> jshape \<Rightarrow> jshape" where
  "mark p c0 s =
     (let c = (if c0 < 1 then 1 else c0)
      in if (case js_seen s p of None \<Rightarrow> 0 | Some d \<Rightarrow> d) < c then s\<lparr>js_seen := (js_seen s)(p \<mapsto> c)\<rparr> else s)"

definition add_kind :: "jpath \<Rightarrow> string \<Rightarrow> jshape \<Rightarrow> jshape" where
  "add_kind p k s = (let n = jnode_at s p in set_jnode p (n\<lparr>jn_kinds := (jn_kinds n)(k := jn_kinds n k + 1)\<rparr>) s)"

definition add_leaf :: "jpath \<Rightarrow> string \<Rightarrow> jshape \<Rightarrow> jshape" where
  "add_leaf p t s =
     (let n1 = (jnode_at s p)\<lparr>jn_hasLeaf := True\<rparr>;
          n2 = (if jn_sample n1 = [] then n1\<lparr>jn_sample := t\<rparr> else n1);
          vs = jn_values n2;
          n3 = (if length vs < 60 then n2\<lparr>jn_values := AList.update t (count_of vs t + 1) vs\<rparr> else n2)
      in set_jnode p n3 s)"

fun observeScalar :: "(json \<Rightarrow> string) \<Rightarrow> jpath \<Rightarrow> json \<Rightarrow> jshape \<Rightarrow> jshape" where
  "observeScalar fmt p (JStr t) s = add_leaf p t (add_kind p ''string'' (mark p 1 s))"
| "observeScalar fmt p (JNum t) s = add_leaf p t (add_kind p ''number'' (mark p 1 s))"
| "observeScalar fmt p (JBool b) s = add_leaf p (if b then ''true'' else ''false'') (add_kind p ''bool'' (mark p 1 s))"
| "observeScalar fmt p JNull s = add_kind p ''null'' (mark p 1 s)"
| "observeScalar fmt p (JArr es) s = add_leaf p (fmt (JArr es)) (add_kind p ''[]interface {}'' (mark p 1 s))"
| "observeScalar fmt p (JObj ms) s = add_leaf p (fmt (JObj ms)) (add_kind p ''map[string]interface {}'' (mark p 1 s))"

fun observe :: "(json \<Rightarrow> string) \<Rightarrow> jpath \<Rightarrow> json \<Rightarrow> jshape \<Rightarrow> jshape"
and observe_members :: "(json \<Rightarrow> string) \<Rightarrow> jpath \<Rightarrow> (string \<times> json) list \<Rightarrow> jshape \<Rightarrow> jshape"
and observeElem :: "(json \<Rightarrow> string) \<Rightarrow> jpath \<Rightarrow> json \<Rightarrow> jshape \<Rightarrow> jshape"
and observe_elems :: "(json \<Rightarrow> string) \<Rightarrow> jpath \<Rightarrow> json list \<Rightarrow> jshape \<Rightarrow> jshape" where
  "observe fmt p (JObj ms) s = observe_members fmt p ms (add_kind p ''object'' (mark p 1 s))"
| "observe fmt p (JArr es) s = observe_elems fmt p es (add_kind p ''array'' (mark p (int (length es)) s))"
| "observe fmt p v s = observeScalar fmt p v s"
| "observe_members fmt p [] s = s"
| "observe_members fmt p ((k, v) # ms) s = observe_members fmt p ms (observe fmt (p @ [k]) v (jchild p k s))"
| "observeElem fmt p (JObj ms) s = observe_members fmt p ms (add_kind p ''object'' s)"
| "observeElem fmt p v s = observeScalar fmt p v s"
| "observe_elems fmt p [] s = s"
| "observe_elems fmt p (e # es) s = observe_elems fmt p es (observeElem fmt p e s)"

definition jflush :: "jshape \<Rightarrow> jshape" where
  "jflush s = s\<lparr>js_nodes := (\<lambda>p. case js_nodes s p of
       None \<Rightarrow> None
     | Some n0 \<Rightarrow> Some (case js_seen s p of
           None \<Rightarrow> n0
         | Some c \<Rightarrow> (let n1 = n0\<lparr>jn_flights := jn_flights n0 + 1\<rparr>
                      in if jn_maxRepeat n1 < c then n1\<lparr>jn_maxRepeat := c\<rparr> else n1))),
     js_seen := Map.empty\<rparr>"

definition observe_flight :: "(json \<Rightarrow> string) \<Rightarrow> json \<Rightarrow> jshape \<Rightarrow> jshape" where
  "observe_flight fmt f s = jflush (observe fmt [] f (s\<lparr>js_flights := js_flights s + 1\<rparr>))"

text \<open>\<^verbatim>\<open>walk\<close>: the first JSON value of the message; what follows it is not read.\<close>

definition jwalk :: "map_order \<Rightarrow> (json \<Rightarrow> string) \<Rightarrow> bytes \<Rightarrow> jshape \<Rightarrow> bool \<times> jshape" where
  "jwalk ord fmt data s =
     (case jvalue (2 * length data + 1) 0 data of
        Some (JArr es, rest) \<Rightarrow> (False, fold (observe_flight fmt) (map (go_value ord) es) s)
      | Some (JObj ms, rest) \<Rightarrow> (False, observe_flight fmt (go_value ord (JObj ms)) s)
      | _ \<Rightarrow> (True, s))"

fun jshape_read :: "map_order \<Rightarrow> (json \<Rightarrow> string) \<Rightarrow> int \<Rightarrow> bytes list \<Rightarrow> jshape \<Rightarrow> jshape" where
  "jshape_read ord fmt limit msgs s =
     (if 0 < limit \<and> limit \<le> js_envelopes s then s
      else (case msgs of
              [] \<Rightarrow> s
            | m # ms \<Rightarrow> jshape_read ord fmt limit ms (snd (jwalk ord fmt m (s\<lparr>js_envelopes := js_envelopes s + 1\<rparr>)))))"

declare jshape_read.simps [simp del]

section \<open>What is found at a path\<close>

text \<open>A value held by a field of its own, or as an element of an array the field holds.\<close>

datatype sighting = Whole json | Element json

definition lookup :: "(string \<times> json) list \<Rightarrow> string \<Rightarrow> json option" where
  "lookup ms k = map_of (rev ms) k"

definition members :: "json \<Rightarrow> (string \<times> json) list" where
  "members v = (case v of JObj ms \<Rightarrow> ms | _ \<Rightarrow> [])"

definition array :: "json \<Rightarrow> json list" where
  "array v = (case v of JArr es \<Rightarrow> es | _ \<Rightarrow> [])"

text \<open>Found below a value through the names of the path; an array on the way stands for the objects in it.\<close>

fun found :: "jpath \<Rightarrow> json \<Rightarrow> sighting list" where
  "found [] v = Whole v # map Element (array v)"
| "found (k # q) v = concat (map (\<lambda>u. case lookup (members u) k of None \<Rightarrow> [] | Some w \<Rightarrow> found q w) (v # array v))"

fun sighted_kind :: "sighting \<Rightarrow> string" where
  "sighted_kind (Element (JArr es)) = ''[]interface {}''"
| "sighted_kind (Whole (JArr es)) = ''array''"
| "sighted_kind (Whole (JObj ms)) = ''object''"
| "sighted_kind (Element (JObj ms)) = ''object''"
| "sighted_kind (Whole (JStr t)) = ''string''"
| "sighted_kind (Element (JStr t)) = ''string''"
| "sighted_kind (Whole (JNum t)) = ''number''"
| "sighted_kind (Element (JNum t)) = ''number''"
| "sighted_kind (Whole (JBool b)) = ''bool''"
| "sighted_kind (Element (JBool b)) = ''bool''"
| "sighted_kind (Whole JNull) = ''null''"
| "sighted_kind (Element JNull) = ''null''"

fun scalar_text :: "(json \<Rightarrow> string) \<Rightarrow> json \<Rightarrow> string list" where
  "scalar_text fmt (JStr t) = [t]"
| "scalar_text fmt (JNum t) = [t]"
| "scalar_text fmt (JBool b) = [if b then ''true'' else ''false'']"
| "scalar_text fmt v = []"

fun sighted_text :: "(json \<Rightarrow> string) \<Rightarrow> sighting \<Rightarrow> string list" where
  "sighted_text fmt (Element (JArr es)) = [fmt (JArr es)]"
| "sighted_text fmt (Element v) = scalar_text fmt v"
| "sighted_text fmt (Whole v) = scalar_text fmt v"

text \<open>The cardinality a sighting stands for: the length of an array, and at least 1.\<close>

fun sighted_count :: "sighting \<Rightarrow> int" where
  "sighted_count (Whole (JArr es)) = max 1 (int (length es))"
| "sighted_count (Whole v) = 1"
| "sighted_count (Element (JObj ms)) = 0"
| "sighted_count (Element v) = 1"

section \<open>The walk as a list of sightings\<close>

fun sightings :: "jpath \<Rightarrow> json \<Rightarrow> (jpath \<times> sighting) list"
and member_sightings :: "jpath \<Rightarrow> (string \<times> json) list \<Rightarrow> (jpath \<times> sighting) list"
and elem_sightings :: "jpath \<Rightarrow> json list \<Rightarrow> (jpath \<times> sighting) list" where
  "sightings p (JObj ms) = (p, Whole (JObj ms)) # member_sightings p ms"
| "sightings p (JArr es) = (p, Whole (JArr es)) # elem_sightings p es"
| "sightings p v = [(p, Whole v)]"
| "member_sightings p [] = []"
| "member_sightings p ((k, v) # ms) = sightings (p @ [k]) v @ member_sightings p ms"
| "elem_sightings p [] = []"
| "elem_sightings p (e # es) =
     (p, Element e) # (case e of JObj ms \<Rightarrow> member_sightings p ms | _ \<Rightarrow> []) @ elem_sightings p es"

text \<open>What a sighting does: a mark, a kind and a text.\<close>

definition sight :: "(json \<Rightarrow> string) \<Rightarrow> jpath \<times> sighting \<Rightarrow> jshape \<Rightarrow> jshape" where
  "sight fmt = (\<lambda>(p, x) s.
     fold (add_leaf p) (sighted_text fmt x)
       (add_kind p (sighted_kind x) (if sighted_count x = 0 then s else mark p (sighted_count x) s)))"

text \<open>Everything of the state except the order of siblings.\<close>

definition core :: "jnode \<Rightarrow> int \<times> int \<times> (string \<Rightarrow> int) \<times> bool \<times> string \<times> (string \<times> int) list" where
  "core n = (jn_flights n, jn_maxRepeat n, jn_kinds n, jn_hasLeaf n, jn_sample n, jn_values n)"

definition same :: "jshape \<Rightarrow> jshape \<Rightarrow> bool" where
  "same s t \<longleftrightarrow> js_flights s = js_flights t \<and> js_seen s = js_seen t \<and> (\<forall>p. core (jnode_at s p) = core (jnode_at t p))"

lemma same_refl [simp]: "same s s" by (simp add: same_def)

lemma same_trans: "same s t \<Longrightarrow> same t u \<Longrightarrow> same s u" by (simp add: same_def)

lemma jnode_at_set [simp]: "jnode_at (set_jnode p n s) q = (if q = p then n else jnode_at s q)"
  by (simp add: jnode_at_def set_jnode_def)

lemma set_jnode_frame [simp]: "js_flights (set_jnode p n s) = js_flights s" "js_seen (set_jnode p n s) = js_seen s"
  by (simp_all add: set_jnode_def)

lemma jchild_same: "same (jchild p k s) s"
  by (auto simp: same_def jchild_def jnode_at_def set_jnode_def core_def newJnode_def Let_def)

lemma jnode_at_seen [simp]: "jnode_at (s\<lparr>js_seen := x\<rparr>) = jnode_at s" "jnode_at (s\<lparr>js_flights := c\<rparr>) = jnode_at s"
  by (simp_all add: jnode_at_def fun_eq_iff)

lemma same_mark: "same s t \<Longrightarrow> same (mark p c s) (mark p c t)"
  by (simp add: same_def mark_def Let_def)

lemma same_kind: "same s t \<Longrightarrow> same (add_kind p k s) (add_kind p k t)"
  by (simp add: same_def add_kind_def core_def Let_def)

lemma same_leaf: "same s t \<Longrightarrow> same (add_leaf p x s) (add_leaf p x t)"
  by (simp add: same_def add_leaf_def core_def Let_def)

lemma same_leaves: "same s t \<Longrightarrow> same (fold (add_leaf p) xs s) (fold (add_leaf p) xs t)"
  by (induction xs arbitrary: s t) (simp_all add: same_leaf)

lemma same_sight: "same s t \<Longrightarrow> same (sight fmt x s) (sight fmt x t)"
  by (cases x) (simp add: sight_def same_leaves same_kind same_mark)

lemma same_sights: "same s t \<Longrightarrow> same (fold (sight fmt) xs s) (fold (sight fmt) xs t)"
  by (induction xs arbitrary: s t) (simp_all add: same_sight)

lemma mark_clamp [simp]: "mark p (max 1 c) s = mark p c s"
  by (simp add: mark_def Let_def)

lemma observe_sights:
  "same s t \<Longrightarrow> same (observe fmt p v s) (fold (sight fmt) (sightings p v) t)"
  "same s t \<Longrightarrow> same (observe_members fmt p ms s) (fold (sight fmt) (member_sightings p ms) t)"
  "same s t \<Longrightarrow> same (observeElem fmt p e s)
     (fold (sight fmt) ((p, Element e) # (case e of JObj ms \<Rightarrow> member_sightings p ms | _ \<Rightarrow> [])) t)"
  "same s t \<Longrightarrow> same (observe_elems fmt p es s) (fold (sight fmt) (elem_sightings p es) t)"
proof (induction fmt p v s and fmt p ms s and fmt p e s and fmt p es s arbitrary: t and t and t and t
    rule: observe_observe_members_observeElem_observe_elems.induct)
  case (5 fmt p k v ms s)
  have "same (jchild p k s) t" using jchild_same 5(3) by (rule same_trans)
  then show ?case using 5(1,2) by simp
next
  case (9 fmt p e es s)
  have "fold (sight fmt) (elem_sightings p (e # es)) t = fold (sight fmt) (elem_sightings p es)
      (fold (sight fmt) ((p, Element e) # (case e of JObj ms \<Rightarrow> member_sightings p ms | _ \<Rightarrow> [])) t)"
    by simp
  then show ?case using 9(2) [OF 9(1) [OF 9(3)]] by simp
qed (auto simp: sight_def intro!: same_kind same_mark same_leaf)

section \<open>Sightings by path\<close>

fun canonical :: "json \<Rightarrow> bool" where
  "canonical (JObj ms) \<longleftrightarrow> distinct (map fst ms) \<and> list_all (\<lambda>(k, v). canonical v) ms"
| "canonical (JArr es) \<longleftrightarrow> list_all canonical es"
| "canonical v \<longleftrightarrow> True"

definition at_path :: "jpath \<Rightarrow> (jpath \<times> sighting) list \<Rightarrow> sighting list" where
  "at_path q xs = map snd (filter (\<lambda>(r, x). r = q) xs)"

lemma at_path_simps [simp]:
  "at_path q [] = []" "at_path q (xs @ ys) = at_path q xs @ at_path q ys"
  "at_path q ((r, x) # xs) = (if r = q then [x] else []) @ at_path q xs"
  by (simp_all add: at_path_def)

lemma sightings_below:
  "(r, x) \<in> set (sightings p v) \<Longrightarrow> \<exists>q. r = p @ q"
  "(r, x) \<in> set (member_sightings p ms) \<Longrightarrow> \<exists>k v q. (k, v) \<in> set ms \<and> r = p @ k # q"
  "(r, x) \<in> set (elem_sightings p es) \<Longrightarrow> \<exists>q. r = p @ q"
  by (induction p v and p ms and p es rule: sightings_member_sightings_elem_sightings.induct)
    (fastforce split: json.splits)+

lemma at_path_empty: "(\<And>r x. (r, x) \<in> set xs \<Longrightarrow> r \<noteq> q) \<Longrightarrow> at_path q xs = []"
  by (auto simp: at_path_def filter_empty_conv)

lemma at_path_other:
  assumes "k' \<noteq> k"
  shows "at_path (p @ k' # q) (sightings (p @ [k]) v) = []"
proof (rule at_path_empty)
  fix r x
  assume "(r, x) \<in> set (sightings (p @ [k]) v)"
  from sightings_below(1) [OF this] show "r \<noteq> p @ k' # q" using assms by auto
qed

lemma at_path_members_self: "at_path p (member_sightings p ms) = []"
proof (rule at_path_empty)
  fix r x
  assume "(r, x) \<in> set (member_sightings p ms)"
  from sightings_below(2) [OF this] show "r \<noteq> p" by auto
qed

lemma at_path_child_self: "at_path p (sightings (p @ [k]) v) = []"
proof (rule at_path_empty)
  fix r x
  assume "(r, x) \<in> set (sightings (p @ [k]) v)"
  from sightings_below(1) [OF this] show "r \<noteq> p" by auto
qed

definition found_in :: "jpath \<Rightarrow> (string \<times> json) list \<Rightarrow> sighting list" where
  "found_in q ms = (case q of [] \<Rightarrow> [] | k # q' \<Rightarrow> (case lookup ms k of None \<Rightarrow> [] | Some w \<Rightarrow> found q' w))"

lemma found_in_simps [simp]: "found_in [] ms = []" "found_in q [] = []"
    "lookup [] k = None" "found_in (k # q) ms = (case lookup ms k of None \<Rightarrow> [] | Some w \<Rightarrow> found q w)"
  by (simp_all add: found_in_def lookup_def split: list.split)

lemma lookup_distinct: "distinct (map fst ms) \<Longrightarrow> lookup ms k = map_of ms k"
  using map_of_inject_set [of "rev ms" ms] by (simp add: lookup_def flip: rev_map)

lemma at_path_sightings:
  "canonical v \<Longrightarrow> at_path (p @ q) (sightings p v) = found q v"
  "distinct (map fst ms) \<Longrightarrow> list_all (\<lambda>(k, v). canonical v) ms \<Longrightarrow>
     at_path (p @ q) (member_sightings p ms) = found_in q ms"
  "list_all canonical es \<Longrightarrow> at_path (p @ q) (elem_sightings p es) =
     (case q of [] \<Rightarrow> map Element es | k # q' \<Rightarrow> concat (map (\<lambda>u. found_in q (members u)) es))"
proof (induction p v and p ms and p es arbitrary: q and q and q
    rule: sightings_member_sightings_elem_sightings.induct)
  case (1 p ms)
  then show ?case by (cases q) (simp_all add: members_def array_def at_path_members_self)
next
  case (2 p es)
  show ?case using 2(1) [of q] 2(2) by (cases q) (simp_all add: members_def array_def)
next
  case (5 p k v ms)
  show ?case
  proof (cases q)
    case Nil
    then show ?thesis using at_path_members_self [of p "(k, v) # ms"] by simp
  next
    case (Cons k' q')
    have rest: "at_path (p @ k' # q') (member_sightings p ms) = found_in (k' # q') ms"
      using 5(2) [of "k' # q'"] 5(3,4) by simp
    show ?thesis
    proof (cases "k' = k")
      case True
      have "lookup ms k = None" using 5(3) by (simp add: lookup_distinct map_of_eq_None_iff)
      moreover have "at_path (p @ k # q') (sightings (p @ [k]) v) = found q' v"
        using 5(1) [of q'] 5(4) by simp
      ultimately show ?thesis using rest 5(3) True Cons by (simp add: lookup_distinct)
    next
      case False
      then show ?thesis using rest at_path_other [OF False] 5(3) Cons by (simp add: lookup_distinct)
    qed
  qed
next
  case (7 p e es)
  show ?case using 7(1) 7(2) [of q] 7(3) by (cases q; cases e) (simp_all add: members_def at_path_members_self)
qed (auto simp: members_def array_def neq_Nil_conv split: list.splits)

section \<open>The order of a map does not matter\<close>

text \<open>The order lists exactly the entries of a map, and \<^verbatim>\<open>fmt\<close> prints maps by key, whatever the order.\<close>

definition iterates :: "map_order \<Rightarrow> bool" where
  "iterates ord \<longleftrightarrow> (\<forall>ms. distinct (map fst ms) \<longrightarrow> distinct (map fst (ord ms)) \<and> set (ord ms) = set ms)"

definition prints_by_key :: "map_order \<Rightarrow> (json \<Rightarrow> string) \<Rightarrow> bool" where
  "prints_by_key ord fmt \<longleftrightarrow> (\<forall>v. fmt (go_value ord v) = fmt v)"

definition go_members :: "map_order \<Rightarrow> (string \<times> json) list \<Rightarrow> (string \<times> json) list" where
  "go_members ord ms = ord (AList.clearjunk (rev (map (\<lambda>(k, v). (k, go_value ord v)) ms)))"

lemma go_members_distinct:
  assumes "iterates ord"
  shows "distinct (map fst (go_members ord ms))"
    "set (go_members ord ms) = set (AList.clearjunk (rev (map (\<lambda>(k, v). (k, go_value ord v)) ms)))"
  using assms distinct_clearjunk [of "rev (map (\<lambda>(k, v). (k, go_value ord v)) ms)"]
  by (auto simp: iterates_def go_members_def)

lemma go_value_canonical:
  assumes "iterates ord"
  shows "canonical (go_value ord v)"
proof (induction v)
  case (JObj ms)
  have "canonical w" if "(k, w) \<in> set (go_members ord ms)" for k w
  proof -
    have "(k, w) \<in> set (rev (map (\<lambda>(k, v). (k, go_value ord v)) ms))"
      using that map_of_is_SomeI [OF distinct_clearjunk, of k w "rev (map (\<lambda>(k, v). (k, go_value ord v)) ms)"]
      by (simp only: go_members_distinct(2) [OF assms] map_of_clearjunk map_of_SomeD)
    then obtain v where "(k, v) \<in> set ms" "w = go_value ord v" by auto
    then show ?thesis using JObj by (auto simp: snds.simps)
  qed
  then show ?case
    using go_members_distinct(1) [OF assms, of ms] by (auto simp: list_all_iff simp flip: go_members_def)
qed (simp_all add: list_all_iff)

lemma lookup_go_members:
  assumes "iterates ord"
  shows "lookup (go_members ord ms) k = map_option (go_value ord) (lookup ms k)"
proof -
  let ?ms = "rev (map (\<lambda>(k, v). (k, go_value ord v)) ms)"
  have "lookup (go_members ord ms) k = map_of (go_members ord ms) k"
    by (rule lookup_distinct [OF go_members_distinct(1) [OF assms]])
  also have "\<dots> = map_of (AList.clearjunk ?ms) k"
    using map_of_inject_set [OF go_members_distinct(1) [OF assms, of ms] distinct_clearjunk [of ?ms]]
      go_members_distinct(2) [OF assms, of ms] by simp
  also have "\<dots> = map_of (map (\<lambda>(k, v). (k, go_value ord v)) (rev ms)) k" by (simp add: map_of_clearjunk rev_map)
  also have "\<dots> = map_option (go_value ord) (lookup ms k)" by (simp add: lookup_def map_of_map)
  finally show ?thesis .
qed

lemma members_go_value: "members (go_value ord v) = go_members ord (members v) \<or> (members v = [] \<and> members (go_value ord v) = [])"
  by (cases v) (simp_all add: members_def go_members_def)

lemma lookup_go_value:
  assumes "iterates ord"
  shows "lookup (members (go_value ord v)) k = map_option (go_value ord) (lookup (members v) k)"
  using members_go_value [of ord v] lookup_go_members [OF assms] by auto

lemma array_go_value: "array (go_value ord v) = map (go_value ord) (array v)"
  by (cases v) (simp_all add: array_def)

text \<open>What a sighting contributes to its node.\<close>

definition summary :: "(json \<Rightarrow> string) \<Rightarrow> sighting \<Rightarrow> string \<times> int \<times> string list" where
  "summary fmt x = (sighted_kind x, sighted_count x, sighted_text fmt x)"

lemma summary_go_value:
  assumes "prints_by_key ord fmt"
  shows "summary fmt (Whole (go_value ord v)) = summary fmt (Whole v)"
    "summary fmt (Element (go_value ord v)) = summary fmt (Element v)"
proof -
  show "summary fmt (Whole (go_value ord v)) = summary fmt (Whole v)" by (cases v) (simp_all add: summary_def)
  have "fmt (go_value ord v) = fmt v" using assms by (simp add: prints_by_key_def)
  then show "summary fmt (Element (go_value ord v)) = summary fmt (Element v)" by (cases v) (simp_all add: summary_def)
qed

lemma found_go_value:
  assumes "iterates ord" "prints_by_key ord fmt"
  shows "map (summary fmt) (found q (go_value ord v)) = map (summary fmt) (found q v)"
proof (induction q arbitrary: v)
  case Nil
  show ?case using summary_go_value [OF assms(2)] by (simp add: array_go_value)
next
  case (Cons k q)
  have "map (summary fmt) (case lookup (members (go_value ord u)) k of None \<Rightarrow> [] | Some w \<Rightarrow> found q w) =
      map (summary fmt) (case lookup (members u) k of None \<Rightarrow> [] | Some w \<Rightarrow> found q w)" for u
    using Cons.IH by (simp add: lookup_go_value [OF assms(1)] split: option.split)
  then show ?case by (simp add: array_go_value map_concat comp_def)
qed

section \<open>The effect of a flight\<close>

definition leaf_step :: "string \<Rightarrow> jnode \<Rightarrow> jnode" where
  "leaf_step t n =
     (let n1 = n\<lparr>jn_hasLeaf := True\<rparr>;
          n2 = (if jn_sample n1 = [] then n1\<lparr>jn_sample := t\<rparr> else n1);
          vs = jn_values n2
      in if length vs < 60 then n2\<lparr>jn_values := AList.update t (count_of vs t + 1) vs\<rparr> else n2)"

definition sight_step :: "(json \<Rightarrow> string) \<Rightarrow> sighting \<Rightarrow> jnode \<Rightarrow> jnode" where
  "sight_step fmt x n =
     fold leaf_step (sighted_text fmt x) (n\<lparr>jn_kinds := (jn_kinds n)(sighted_kind x := jn_kinds n (sighted_kind x) + 1)\<rparr>)"

lemma mark_node [simp]: "jnode_at (mark p c s) = jnode_at s"
  by (simp add: mark_def Let_def)

lemma add_leaves_node:
  "jnode_at (fold (add_leaf p) ts s) q = (if q = p then fold leaf_step ts (jnode_at s p) else jnode_at s q)"
  by (induction ts arbitrary: s) (simp_all add: add_leaf_def leaf_step_def Let_def)

lemma sight_node: "jnode_at (sight fmt (p, x) s) q = (if q = p then sight_step fmt x (jnode_at s p) else jnode_at s q)"
  by (simp add: sight_def add_leaves_node sight_step_def add_kind_def Let_def)

lemma sights_node: "jnode_at (fold (sight fmt) xs s) q = fold (sight_step fmt) (at_path q xs) (jnode_at s q)"
proof (induction xs arbitrary: s)
  case (Cons x xs)
  then show ?case by (cases x) (simp add: sight_node)
qed simp

text \<open>The leaf texts of a node; the sample is the first text that is not empty.\<close>

definition leaves_ok :: "string list \<Rightarrow> jnode \<Rightarrow> bool" where
  "leaves_ok vs n \<longleftrightarrow> (jn_hasLeaf n \<longleftrightarrow> vs \<noteq> []) \<and>
     jn_sample n = (case filter (\<lambda>v. v \<noteq> []) vs of [] \<Rightarrow> [] | v # _ \<Rightarrow> v) \<and> histogram 60 vs (jn_values n)"

lemma leaves_ok_step:
  assumes "leaves_ok vs n"
  shows "leaves_ok (vs @ [t]) (leaf_step t n)"
proof -
  have v: "jn_values (leaf_step t n) =
      (if length (jn_values n) < 60 then AList.update t (count_of (jn_values n) t + 1) (jn_values n) else jn_values n)"
    and l: "jn_hasLeaf (leaf_step t n)" and s: "jn_sample (leaf_step t n) = (if jn_sample n = [] then t else jn_sample n)"
    by (simp_all add: leaf_step_def Let_def)
  have "v \<noteq> []" if "filter (\<lambda>v. v \<noteq> []) vs = v # r" for v r
  proof -
    have "v \<in> set (filter (\<lambda>v. v \<noteq> []) vs)" unfolding that by simp
    then show ?thesis by simp
  qed
  then have "jn_sample (leaf_step t n) = (case filter (\<lambda>v. v \<noteq> []) (vs @ [t]) of [] \<Rightarrow> [] | v # _ \<Rightarrow> v)"
    using assms by (cases "filter (\<lambda>v. v \<noteq> []) vs") (simp_all add: s leaves_ok_def)
  then show ?thesis using assms histogram_snoc [of 60 vs "jn_values n" t] l by (simp add: leaves_ok_def v)
qed

lemma leaves_ok_steps: "leaves_ok vs n \<Longrightarrow> leaves_ok (vs @ ts) (fold leaf_step ts n)"
proof (induction ts arbitrary: vs n)
  case (Cons t ts)
  from Cons.IH [OF leaves_ok_step [OF Cons.prems, of t]] show ?case by simp
qed simp

lemma leaf_steps_frame [simp]:
  "jn_kinds (fold leaf_step ts n) = jn_kinds n" "jn_flights (fold leaf_step ts n) = jn_flights n"
  "jn_maxRepeat (fold leaf_step ts n) = jn_maxRepeat n"
  by (induction ts arbitrary: n) (simp_all add: leaf_step_def Let_def)

lemma sight_steps:
  "jn_flights (fold (sight_step fmt) xs n) = jn_flights n" "jn_maxRepeat (fold (sight_step fmt) xs n) = jn_maxRepeat n"
  "jn_kinds (fold (sight_step fmt) xs n) k = jn_kinds n k + int (count_list (map sighted_kind xs) k)"
  by (induction xs arbitrary: n) (simp_all add: sight_step_def)

lemma sight_steps_leaves:
  "leaves_ok vs n \<Longrightarrow> leaves_ok (vs @ concat (map (sighted_text fmt) xs)) (fold (sight_step fmt) xs n)"
proof (induction xs arbitrary: vs n)
  case (Cons x xs)
  have "leaves_ok (vs @ sighted_text fmt x) (sight_step fmt x n)"
    unfolding sight_step_def by (rule leaves_ok_steps) (use Cons.prems in \<open>simp add: leaves_ok_def\<close>)
  from Cons.IH [OF this] show ?case by simp
qed simp

text \<open>The largest count seen.\<close>

definition seen_max :: "int option \<Rightarrow> int list \<Rightarrow> int option" where
  "seen_max d cs = fold (\<lambda>c d. if c \<le> 0 then d else Some (max c (case d of None \<Rightarrow> 0 | Some e \<Rightarrow> e))) cs d"

lemma sighted_count_nonneg: "0 \<le> sighted_count x"
  by (cases x rule: sighted_count.cases) simp_all

lemma add_frame [simp]:
  "js_seen (add_kind p k s) = js_seen s" "js_seen (fold (add_leaf p) ts s) = js_seen s"
  "js_flights (add_kind p k s) = js_flights s" "js_flights (fold (add_leaf p) ts s) = js_flights s"
proof -
  show "js_seen (fold (add_leaf p) ts s) = js_seen s"
    by (induction ts arbitrary: s) (simp_all add: add_leaf_def Let_def)
  show "js_flights (fold (add_leaf p) ts s) = js_flights s"
    by (induction ts arbitrary: s) (simp_all add: add_leaf_def Let_def)
qed (simp_all add: add_kind_def Let_def)

lemma mark_seen: "0 < c \<Longrightarrow> (\<And>e. js_seen s p = Some e \<Longrightarrow> 0 < e) \<Longrightarrow>
    js_seen (mark p c s) = (js_seen s)(p \<mapsto> max c (case js_seen s p of None \<Rightarrow> 0 | Some e \<Rightarrow> e))"
  by (auto simp: mark_def fun_eq_iff max_def Let_def split: option.split)

lemma seen_max_simps [simp]:
  "seen_max d [] = d"
  "seen_max d (c # cs) = seen_max (if c \<le> 0 then d else Some (max c (case d of None \<Rightarrow> 0 | Some e \<Rightarrow> e))) cs"
  by (simp_all add: seen_max_def)

lemma sight_seen:
  assumes "\<And>r e. js_seen s r = Some e \<Longrightarrow> 0 < e"
  shows "js_seen (sight fmt (p, x) s) q = (if q = p then seen_max (js_seen s p) [sighted_count x] else js_seen s q)"
  using sighted_count_nonneg [of x] mark_seen [of "sighted_count x" s p, OF _ assms]
  by (auto simp: sight_def)

lemma seen_max_pos: "(\<And>e. d = Some e \<Longrightarrow> 0 < e) \<Longrightarrow> seen_max d cs = Some e \<Longrightarrow> 0 < e"
proof (induction cs arbitrary: d)
  case (Cons c cs)
  show ?case by (rule Cons.IH [OF _ Cons.prems(2) [unfolded seen_max_simps]]) (use Cons.prems(1) in \<open>auto split: if_splits\<close>)
qed simp

lemma sights_seen:
  assumes "\<And>r e. js_seen s r = Some e \<Longrightarrow> 0 < e"
  shows "js_seen (fold (sight fmt) xs s) q = seen_max (js_seen s q) (map sighted_count (at_path q xs))"
  using assms
proof (induction xs arbitrary: s)
  case (Cons x xs)
  obtain p y where x: "x = (p, y)" by (cases x)
  have pos: "0 < e" if "js_seen (sight fmt x s) r = Some e" for r e
    using that seen_max_pos [of "js_seen s p" "[sighted_count y]" e] Cons.prems
    by (auto simp: x sight_seen [OF Cons.prems] simp del: seen_max_simps split: if_splits)
  have "js_seen (fold (sight fmt) xs (sight fmt x s)) q =
      seen_max (js_seen (sight fmt x s) q) (map sighted_count (at_path q xs))"
    by (rule Cons.IH) (erule pos)
  then show ?case by (auto simp: x sight_seen [OF Cons.prems])
qed simp

lemma seen_max_Max:
  assumes "\<And>e. d = Some e \<Longrightarrow> 0 < e"
  shows "seen_max d cs = (if d = None \<and> (\<forall>c \<in> set cs. c \<le> 0) then None
    else Some (Max (insert (case d of None \<Rightarrow> 0 | Some e \<Rightarrow> e) (set cs))))"
  using assms
proof (induction cs arbitrary: d)
  case Nil
  then show ?case by (cases d) simp_all
next
  case (Cons c cs)
  let ?e = "case d of None \<Rightarrow> 0 | Some e \<Rightarrow> e"
  show ?case
  proof (cases "c \<le> 0")
    case True
    have "0 \<le> ?e" using Cons.prems by (cases d) force+
    then have "c \<le> ?e" using True by simp
    also have "?e \<le> Max (insert ?e (set cs))" by simp
    finally have "Max (insert ?e (set (c # cs))) = Max (insert ?e (set cs))" by (simp add: insert_commute [of _ c])
    then show ?thesis using True Cons.IH [OF Cons.prems] by simp
  next
    case False
    have "seen_max (Some (max c ?e)) cs = Some (Max (insert (max c ?e) (set cs)))"
      using Cons.IH [of "Some (max c ?e)"] False by auto
    moreover have "Max (insert (max c ?e) (set cs)) = Max (insert ?e (set (c # cs)))"
      by (cases "cs = []") (simp_all add: max.assoc max.left_commute)
    ultimately show ?thesis using False by simp
  qed
qed

lemma sights_flights: "js_flights (fold (sight fmt) xs s) = js_flights s"
proof (induction xs arbitrary: s)
  case (Cons x xs)
  have "js_flights (sight fmt x s) = js_flights s" by (cases x) (simp add: sight_def mark_def Let_def)
  then show ?case using Cons.IH by simp
qed simp

text \<open>A path with a sighting has a whole value.\<close>

lemma found_whole: "found q v \<noteq> [] \<Longrightarrow> \<exists>w. Whole w \<in> set (found q v)"
proof (induction q arbitrary: v)
  case (Cons k q)
  then obtain u w where u: "u \<in> set (v # array v)" "lookup (members u) k = Some w" "found q w \<noteq> []"
    by (auto split: option.splits)
  then obtain x where "Whole x \<in> set (found q w)" using Cons.IH by blast
  then show ?case using u by (force split: option.split)
qed auto

lemma count_whole: "0 < sighted_count (Whole w)"
  by (cases w) simp_all

section \<open>Exactness\<close>

definition covers :: "jshape \<Rightarrow> bool" where
  "covers s \<longleftrightarrow> dom (js_seen s) \<subseteq> dom (js_nodes s)"

lemma covers_simps:
  "covers s \<Longrightarrow> covers (add_kind p k (mark p c s))" "covers s \<Longrightarrow> covers (add_kind p k s)"
  "covers s \<Longrightarrow> covers (add_leaf p t s)" "covers s \<Longrightarrow> covers (jchild p k s)"
proof -
  have set: "covers (set_jnode p n s)" if "dom (js_seen s) \<subseteq> insert p (dom (js_nodes s))" for p n s
    using that by (auto simp: covers_def set_jnode_def)
  have "dom (js_seen (mark p c s)) \<subseteq> insert p (dom (js_seen s))" "js_nodes (mark p c s) = js_nodes s"
    by (auto simp: mark_def Let_def)
  then show "covers s \<Longrightarrow> covers (add_kind p k (mark p c s))"
    unfolding add_kind_def Let_def by (intro set) (simp only: covers_def, blast)
  show "covers s \<Longrightarrow> covers (add_kind p k s)" "covers s \<Longrightarrow> covers (add_leaf p t s)" "covers s \<Longrightarrow> covers (jchild p k s)"
    by (auto simp: add_kind_def add_leaf_def jchild_def set_jnode_def covers_def Let_def)
qed

lemma observe_covers:
  "covers s \<Longrightarrow> covers (observe fmt p v s)" "covers s \<Longrightarrow> covers (observe_members fmt p ms s)"
  "covers s \<Longrightarrow> covers (observeElem fmt p e s)" "covers s \<Longrightarrow> covers (observe_elems fmt p es s)"
  by (induction fmt p v s and fmt p ms s and fmt p e s and fmt p es s
      rule: observe_observe_members_observeElem_observe_elems.induct)
    (simp_all add: covers_simps)

definition count_max :: "jpath \<Rightarrow> json \<Rightarrow> int" where
  "count_max p f = Max (insert 0 (set (map sighted_count (found p f))))"

text \<open>The node of a path after the flights \<open>fs\<close>: nothing here depends on the order of a map.\<close>

definition jnode_exact :: "(json \<Rightarrow> string) \<Rightarrow> json list \<Rightarrow> jpath \<Rightarrow> jnode \<Rightarrow> bool" where
  "jnode_exact fmt fs p n \<longleftrightarrow> (let xs = concat (map (found p) fs) in
     jn_flights n = int (length (filter (\<lambda>f. found p f \<noteq> []) fs)) \<and>
     jn_maxRepeat n = Max (insert 0 (count_max p ` set fs)) \<and>
     (\<forall>k. jn_kinds n k = int (count_list (map sighted_kind xs) k)) \<and>
     leaves_ok (concat (map (sighted_text fmt) xs)) n)"

definition jshape_exact :: "(json \<Rightarrow> string) \<Rightarrow> json list \<Rightarrow> jshape \<Rightarrow> bool" where
  "jshape_exact fmt fs s \<longleftrightarrow> js_seen s = Map.empty \<and> js_flights s = int (length fs) \<and>
     (\<forall>p. jnode_exact fmt fs p (jnode_at s p))"

lemma found_go_value_parts:
  assumes "iterates ord" "prints_by_key ord fmt"
  shows "map sighted_kind (found q (go_value ord v)) = map sighted_kind (found q v)"
    "map sighted_count (found q (go_value ord v)) = map sighted_count (found q v)"
    "map (sighted_text fmt) (found q (go_value ord v)) = map (sighted_text fmt) (found q v)"
proof -
  note eq = found_go_value [OF assms, of q v]
  show "map sighted_kind (found q (go_value ord v)) = map sighted_kind (found q v)"
    using arg_cong [OF eq, of "map fst"] by (simp add: summary_def comp_def)
  show "map sighted_count (found q (go_value ord v)) = map sighted_count (found q v)"
    using arg_cong [OF eq, of "map (\<lambda>x. fst (snd x))"] by (simp add: summary_def comp_def)
  show "map (sighted_text fmt) (found q (go_value ord v)) = map (sighted_text fmt) (found q v)"
    using arg_cong [OF eq, of "map (\<lambda>x. snd (snd x))"] by (simp add: summary_def comp_def)
qed

lemma seen_found: "seen_max None (map sighted_count (found q v)) = (if found q v = [] then None else Some (count_max q v))"
proof (cases "found q v = []")
  case False
  then obtain w where "Whole w \<in> set (found q v)" using found_whole by blast
  then have "\<not> (\<forall>c \<in> set (map sighted_count (found q v)). c \<le> 0)" using count_whole [of w] by force
  then have "seen_max None (map sighted_count (found q v)) = Some (count_max q v)"
    by (subst seen_max_Max) (simp_all only: count_max_def option.case option.distinct if_False simp_thms)
  then show ?thesis using False by simp
qed simp

text \<open>A flight observed from a flushed state.\<close>

lemma observe_effect:
  fixes f :: json
  assumes "iterates ord" "prints_by_key ord fmt" "js_seen s = Map.empty"
  defines "t \<equiv> observe fmt [] (go_value ord f) s"
  shows "js_flights t = js_flights s" "covers t"
    "js_seen t q = (if found q f = [] then None else Some (count_max q f))"
    "core (jnode_at t q) = core (fold (sight_step fmt) (found q (go_value ord f)) (jnode_at s q))"
proof -
  have eff: "same t (fold (sight fmt) (sightings [] (go_value ord f)) s)"
    unfolding t_def by (rule observe_sights(1)) simp
  have at: "at_path q (sightings [] (go_value ord f)) = found q (go_value ord f)"
    using at_path_sightings(1) [OF go_value_canonical [OF assms(1)], of "[]" q f] by simp
  show "js_flights t = js_flights s" using eff by (simp add: same_def sights_flights)
  show "covers t" unfolding t_def using assms(3) by (intro observe_covers) (simp add: covers_def)
  show "js_seen t q = (if found q f = [] then None else Some (count_max q f))"
    using eff assms(3) sights_seen [of s fmt "sightings [] (go_value ord f)" q]
    by (simp add: same_def at found_go_value_parts [OF assms(1,2)] seen_found)
  show "core (jnode_at t q) = core (fold (sight_step fmt) (found q (go_value ord f)) (jnode_at s q))"
    using eff by (simp add: same_def sights_node at)
qed

lemma jflush_node:
  assumes "covers s"
  shows "jnode_at (jflush s) p = (case js_seen s p of
      None \<Rightarrow> jnode_at s p
    | Some c \<Rightarrow> (jnode_at s p)\<lparr>jn_flights := jn_flights (jnode_at s p) + 1, jn_maxRepeat := max (jn_maxRepeat (jnode_at s p)) c\<rparr>)"
  using assms by (auto simp: jnode_at_def jflush_def covers_def Let_def max_def split: option.split)

lemma core_eq_iff: "core n = core m \<longleftrightarrow> jn_flights n = jn_flights m \<and> jn_maxRepeat n = jn_maxRepeat m \<and> jn_kinds n = jn_kinds m \<and>
    jn_hasLeaf n = jn_hasLeaf m \<and> jn_sample n = jn_sample m \<and> jn_values n = jn_values m"
  by (simp add: core_def)

lemma leaves_ok_cong: "jn_hasLeaf n = jn_hasLeaf m \<Longrightarrow> jn_sample n = jn_sample m \<Longrightarrow> jn_values n = jn_values m \<Longrightarrow>
    leaves_ok vs n = leaves_ok vs m"
  by (simp add: leaves_ok_def)

lemma jshape_exact_flight:
  assumes "iterates ord" "prints_by_key ord fmt" "jshape_exact fmt fs s"
  shows "jshape_exact fmt (fs @ [f]) (observe_flight fmt (go_value ord f) s)"
proof -
  let ?s = "s\<lparr>js_flights := js_flights s + 1\<rparr>"
  let ?t = "observe fmt [] (go_value ord f) ?s"
  have "js_seen ?s = Map.empty" using assms(3) by (simp add: jshape_exact_def)
  note eff = observe_effect [OF assms(1,2) this, of f]
  have node: "jnode_exact fmt (fs @ [f]) p (jnode_at (jflush ?t) p)" for p
  proof -
    let ?n = "jnode_at s p" and ?xs = "found p (go_value ord f)" and ?v = "jnode_at (jflush ?t) p"
    let ?m = "fold (sight_step fmt) ?xs ?n"
    have old: "jnode_exact fmt fs p ?n" using assms(3) by (simp add: jshape_exact_def)
    have core: "core (jnode_at ?t p) = core ?m" using eff(4) [of p] by simp
    have fl: "?v = (case js_seen ?t p of None \<Rightarrow> jnode_at ?t p
        | Some c \<Rightarrow> (jnode_at ?t p)\<lparr>jn_flights := jn_flights (jnode_at ?t p) + 1, jn_maxRepeat := max (jn_maxRepeat (jnode_at ?t p)) c\<rparr>)"
      by (rule jflush_node [OF eff(2)])
    have part: "jn_kinds ?v = jn_kinds ?m" "jn_hasLeaf ?v = jn_hasLeaf ?m" "jn_sample ?v = jn_sample ?m" "jn_values ?v = jn_values ?m"
      using core by (simp_all add: fl core_eq_iff split: option.split)
    have "jn_flights (jnode_at ?t p) = jn_flights ?n" "jn_maxRepeat (jnode_at ?t p) = jn_maxRepeat ?n"
      using core by (simp_all add: core_eq_iff sight_steps)
    then have count: "jn_flights ?v = jn_flights ?n + (if found p f = [] then 0 else 1)"
        "jn_maxRepeat ?v = (if found p f = [] then jn_maxRepeat ?n else max (jn_maxRepeat ?n) (count_max p f))"
      by (simp_all add: fl eff(3))
    have zero: "found p f = [] \<Longrightarrow> count_max p f = 0" by (simp add: count_max_def)
    have peak: "Max (insert 0 (count_max p ` set (fs @ [f]))) = max (Max (insert 0 (count_max p ` set fs))) (count_max p f)"
      by (simp add: insert_commute [of 0] max.commute)
    have "0 \<le> Max (insert 0 (count_max p ` set fs))" by simp
    then have "jn_maxRepeat ?v = Max (insert 0 (count_max p ` set (fs @ [f])))"
      unfolding peak using old zero by (auto simp: count(2) jnode_exact_def Let_def)
    moreover have "jn_kinds ?v k = int (count_list (map sighted_kind (concat (map (found p) (fs @ [f])))) k)" for k
      using old by (simp add: part(1) sight_steps found_go_value_parts [OF assms(1,2)] jnode_exact_def Let_def)
    moreover have "leaves_ok (concat (map (sighted_text fmt) (concat (map (found p) (fs @ [f]))))) ?v"
    proof -
      let ?vs = "concat (map (sighted_text fmt) (concat (map (found p) fs)))"
      have "leaves_ok (?vs @ concat (map (sighted_text fmt) ?xs)) ?m"
        by (rule sight_steps_leaves) (use old in \<open>simp add: jnode_exact_def Let_def\<close>)
      then show ?thesis
        using leaves_ok_cong [OF part(2-4)] by (simp add: found_go_value_parts [OF assms(1,2)])
    qed
    ultimately show ?thesis using old count(1) by (simp add: jnode_exact_def Let_def)
  qed
  have "js_flights (jflush ?t) = int (length (fs @ [f]))" "js_seen (jflush ?t) = Map.empty"
    using assms(3) eff(1) by (simp_all add: jflush_def jshape_exact_def)
  then show ?thesis using node by (simp add: observe_flight_def jshape_exact_def)
qed

lemma jshape_exact_flights:
  assumes "iterates ord" "prints_by_key ord fmt"
  shows "jshape_exact fmt fs s \<Longrightarrow> jshape_exact fmt (fs @ gs) (fold (observe_flight fmt) (map (go_value ord) gs) s)"
proof (induction gs arbitrary: fs s)
  case (Cons g gs)
  from Cons.IH [OF jshape_exact_flight [OF assms Cons.prems, of g]] show ?case by simp
qed simp

text \<open>The flights of a message.\<close>

definition jflights :: "bytes \<Rightarrow> json list" where
  "jflights data = (case jvalue (2 * length data + 1) 0 data of
       Some (JArr es, rest) \<Rightarrow> es
     | Some (JObj ms, rest) \<Rightarrow> [JObj ms]
     | _ \<Rightarrow> [])"

lemma jwalk_flights: "snd (jwalk ord fmt data s) = fold (observe_flight fmt) (map (go_value ord) (jflights data)) s"
  by (simp add: jwalk_def jflights_def split: option.split prod.split json.split)

lemma jshape_read_exact:
  assumes "iterates ord" "prints_by_key ord fmt" "limit \<le> 0"
  shows "jshape_exact fmt fs s \<Longrightarrow> jshape_exact fmt (fs @ concat (map jflights msgs)) (jshape_read ord fmt limit msgs s)"
proof (induction msgs arbitrary: fs s)
  case Nil
  then show ?case by (subst jshape_read.simps) (simp add: jshape_exact_def)
next
  case (Cons m msgs)
  have "jshape_exact fmt fs (s\<lparr>js_envelopes := js_envelopes s + 1\<rparr>)"
    using Cons.prems by (simp add: jshape_exact_def jnode_at_def)
  from jshape_exact_flights [OF assms(1,2) this, of "jflights m"]
  have "jshape_exact fmt (fs @ jflights m) (snd (jwalk ord fmt m (s\<lparr>js_envelopes := js_envelopes s + 1\<rparr>)))"
    by (simp add: jwalk_flights)
  from Cons.IH [OF this] show ?case using assms(3) by (subst jshape_read.simps) simp
qed

text \<open>
  C39: whatever order Go iterates over the decoded objects in, the tree says of every path exactly what
  the flights hold there: how many flights carry the field, its largest cardinality in one flight
  (the length of an array), how often each JSON kind occurs, a sample, and the exact histogram of its
  texts when fewer than 60 differ. Of equal names in an object the last counts.
\<close>

theorem jshape_read_correct:
  assumes "iterates ord" and "prints_by_key ord fmt" and "fs = concat (map jflights msgs)"
  shows "js_flights (jshape_read ord fmt 0 msgs newJcensus) = int (length fs) \<and>
    jnode_exact fmt fs p (jnode_at (jshape_read ord fmt 0 msgs newJcensus) p)"
proof -
  have "jnode_at newJcensus p = newJnode" for p by (simp add: jnode_at_def newJcensus_def)
  then have "jshape_exact fmt [] newJcensus"
    by (simp add: jshape_exact_def jnode_exact_def newJcensus_def newJnode_def leaves_ok_def)
  from jshape_read_exact [OF assms(1,2) order_refl this, of msgs] show ?thesis
    using assms(3) by (simp add: jshape_exact_def)
qed

text \<open>A flight with a repeated name, its maps iterated backwards.\<close>

theorem jshape_read_correct_witness:
  "jn_maxRepeat (jnode_at (jshape_read rev (\<lambda>_. []) 0 [jprint (JObj [(''a'', JNum ''1''), (''b'', JArr [JNum ''1'', JNum ''2'']), (''a'', JNull)])]
     newJcensus) [''b'']) = 2"
proof -
  have "iterates rev" by (simp add: iterates_def rev_map [symmetric])
  moreover have "prints_by_key rev (\<lambda>_. [])" by (simp add: prints_by_key_def)
  moreover have "jflights (jprint (JObj [(''a'', JNum ''1''), (''b'', JArr [JNum ''1'', JNum ''2'']), (''a'', JNull)])) =
      [JObj [(''a'', JNum ''1''), (''b'', JArr [JNum ''1'', JNum ''2'']), (''a'', JNull)]]"
    by code_simp
  moreover note jshape_read_correct [of rev "\<lambda>_. []" _ "[jprint (JObj [(''a'', JNum ''1''), (''b'', JArr [JNum ''1'', JNum ''2'']), (''a'', JNull)])]" "[''b'']", OF _ _ refl]
  ultimately show ?thesis
    by (simp add: jnode_exact_def count_max_def members_def array_def lookup_def Let_def)
qed

end
