(* ===== verification/Service_Start.thy ===== *)
theory Service_Start
  imports Db_Migrate Config
begin

text \<open>
  How services come up: the readiness handler they share (platform/observability/health.go), waiting for
  a store that is not there yet, the start of the database writer up to its pipeline
  (database-writer/cmd/database-writer/main.go), and the start of the API with its optional database
  (api/cmd/api/main.go, api/internal/server/server.go). Clients of the stores are
  parameters: whether a connection can be made and what each ping returns.
\<close>

section \<open>Readiness\<close>

type_synonym 'w check = "'w \<Rightarrow> string option"

definition StatusServiceUnavailable :: int where "StatusServiceUnavailable = 503"

fun ops_Ready :: "'w check list \<Rightarrow> 'w \<Rightarrow> int \<times> string" where
  "ops_Ready [] w = (200, ''ready'')"
| "ops_Ready (c # cs) w = (case c w of Some e \<Rightarrow> (StatusServiceUnavailable, e @ [newline]) | None \<Rightarrow> ops_Ready cs w)"

lemma ops_Ready_ok: "fst (ops_Ready cs w) = 200 \<longleftrightarrow> (\<forall>c \<in> set cs. c w = None)"
  by (induction cs) (simp_all add: StatusServiceUnavailable_def split: option.split)

section \<open>Waiting for a store\<close>

text \<open>\<^verbatim>\<open>waitForPostgres\<close> and \<^verbatim>\<open>waitForRedis\<close>: \<open>ping i\<close> is the result of the \<open>i\<close>-th ping, \<open>stop i\<close> says that
  the context is done when the \<open>i\<close>-th pause ends. The value is the number of pings that failed.\<close>

partial_function (option) wait_for :: "(nat \<Rightarrow> bool) \<Rightarrow> (nat \<Rightarrow> bool) \<Rightarrow> nat \<Rightarrow> nat option" where
  "wait_for ping stop i = (if ping i then Some i else if stop i then Some (i + 1) else wait_for ping stop (i + 1))"

lemma wait_for_ends:
  assumes "i \<le> k" "ping k \<or> stop k"
  shows "\<exists>j. wait_for ping stop i = Some j"
  using assms
proof (induction "k - i" arbitrary: i)
  case 0
  then show ?case by (subst wait_for.simps) auto
next
  case (Suc n)
  then have "\<exists>j. wait_for ping stop (i + 1) = Some j" by (intro Suc.hyps(1)) auto
  then show ?case by (subst wait_for.simps) auto
qed

lemma wait_for_pinged:
  assumes "wait_for ping stop i = Some j" "\<forall>k. \<not> stop k"
  shows "i \<le> j \<and> ping j \<and> (\<forall>k. i \<le> k \<and> k < j \<longrightarrow> \<not> ping k)"
proof -
  let ?P = "\<lambda>ping stop i j. (\<forall>k. \<not> stop k) \<longrightarrow> i \<le> j \<and> ping j \<and> (\<forall>k. i \<le> k \<and> k < j \<longrightarrow> \<not> ping k)"
  have "?P ping stop i j"
  proof (rule wait_for.raw_induct [where P = ?P, OF _ assms(1)])
    fix f :: "(nat \<Rightarrow> bool) \<Rightarrow> (nat \<Rightarrow> bool) \<Rightarrow> nat \<Rightarrow> nat option" and ping stop i j
    assume IH: "\<And>ping stop i j. f ping stop i = Some j \<Longrightarrow> ?P ping stop i j"
      and f: "(if ping i then Some i else if stop i then Some (i + 1) else f ping stop (i + 1)) = Some j"
    show "?P ping stop i j"
    proof (cases "ping i")
      case True
      then show ?thesis using f by auto
    next
      case False
      have "k = i \<or> i + 1 \<le> k" if "i \<le> k" for k using that by linarith
      then show ?thesis using IH [of ping stop "i + 1" j] f False by (cases "stop i") auto
    qed
  qed
  then show ?thesis using assms(2) by blast
qed

section \<open>The database writer\<close>

text \<open>\<^verbatim>\<open>main\<close> up to its pipeline: it exits when it has no pool or a migration fails, and otherwise hands the
  database over to the pipeline.\<close>

datatype 's writer_start = Exits "'s pgdb" | Pipelines "'s pgdb"

definition database_main ::
  "bool \<Rightarrow> (nat \<Rightarrow> bool) \<Rightarrow> (nat \<Rightarrow> bool) \<Rightarrow> (migration list \<Rightarrow> migration list) \<Rightarrow> osenv \<Rightarrow> fsys \<Rightarrow> ('s, 'e) pg \<Rightarrow>
    mig_env \<Rightarrow> 's pgdb \<Rightarrow> 's writer_start option" where
  "database_main pool_ok ping stop srt oenv fs P env d =
     (if \<not> pool_ok then Some (Exits d)
      else case wait_for ping stop 0 of
             None \<Rightarrow> None
           | Some _ \<Rightarrow> (case Run srt oenv fs P env d of
                 (Inl e, d') \<Rightarrow> Some (Exits d')
               | (Inr n, d') \<Rightarrow> Some (Pipelines d')))"

lemma Run_succeeds_all_ok: "Run srt oenv fs P env d = (Inr n, d') \<Longrightarrow> Run srt oenv fs P all_ok d = (Inr n, d')"
  by (auto simp: Run_def all_ok_def Let_def split: sum.splits if_splits)

text \<open>
  C40: the database writer starts its pipeline only on the schema of its own release: if it gets there, Postgres
  has answered a ping, every migration that was pending when it started has been applied, in
  ascending order and each whole, every migration file is covered by the recorded version, and a
  restart changes nothing. Without a cancellation it gets past the wait exactly when Postgres answers some ping.
\<close>

theorem writer_starts_migrated:
  assumes "sorts srt" "wf_rows d" "load srt oenv fs = Inr migs" "pg_contract P sqlrun migs"
    and "\<forall>k. \<not> stop k" and "database_main pool_ok ping stop srt oenv fs P env d = Some (Pipelines d')"
  defines "pend \<equiv> filter (\<lambda>m. current_version (ensure_table d) < version m) migs"
  shows "(\<exists>i. ping i) \<and> applied_to sqlrun pend (ensure_table d) d' \<and> sorted (map version pend) \<and>
    (\<forall>m \<in> set migs. version m \<le> current_version d') \<and>
    (ping' j \<longrightarrow> database_main True ping' stop srt oenv fs P all_ok d' = Some (Pipelines d'))"
proof -
  obtain i n where w: "wait_for ping stop 0 = Some i" and run: "Run srt oenv fs P env d = (Inr n, d')"
    using assms(6) by (auto simp: database_main_def split: if_splits option.splits sum.splits prod.splits)
  note ok = Run_succeeds_all_ok [OF run]
  have again: "sorted (map version pend) \<and> Run srt oenv fs P all_ok d' = (Inr 0, d')"
    using rerun_changes_nothing [OF assms(2-4) ok] load_sorted [OF assms(1,3)] by (simp add: pend_def sorted_filter)
  obtain k where "stopped_at pend 0 k (Inr n :: 'b mig_error + nat)" "applied_to sqlrun (take k pend) (ensure_table d) d'"
    using Run_spec [OF assms(3,4) ok] unfolding pend_def by blast
  then have "applied_to sqlrun pend (ensure_table d) d'" by (simp add: stopped_at_def)
  moreover have "\<exists>i. ping i" using wait_for_pinged [OF w assms(5)] by blast
  moreover have "\<forall>m \<in> set migs. version m \<le> current_version d'"
    using all_versions_covered [OF assms(2-4) ok] by blast
  moreover have "database_main True ping' stop srt oenv fs P all_ok d' = Some (Pipelines d')" if "ping' j"
    using wait_for_ends [of 0 j ping' stop] that again by (auto simp: database_main_def)
  ultimately show ?thesis using again by blast
qed

definition good_fs :: fsys where
  "good_fs = [''sql'' \<mapsto> [(''1_a.sql'', File ''x'')]]"

definition good_migs :: "migration list" where
  "good_migs = [\<lparr>version = 1, mig_name = ''a'', mig_sql = ''x''\<rparr>]"

lemma good_contract: "pg_contract (list_pg good_migs) log_sql good_migs"
  by (rule list_pg_contract) (simp add: good_migs_def script_def)

text \<open>A fresh database, and a server that answers the second ping.\<close>

theorem writer_starts_migrated_witness:
  "\<exists>d'. database_main True (\<lambda>i. i = 1) (\<lambda>_. False) (sort_key version) no_faults good_fs (list_pg good_migs) all_ok fresh_db =
     Some (Pipelines d') \<and> applied_to log_sql good_migs (ensure_table fresh_db) d'"
proof -
  let ?run = "Run (sort_key version) no_faults good_fs (list_pg good_migs) all_ok fresh_db"
  obtain j where "wait_for (\<lambda>i. i = 1) (\<lambda>_. False) 0 = Some j" using wait_for_ends [of 0 1 "\<lambda>i. i = 1"] by auto
  moreover have "?run = (Inr 1, \<lparr>schema = [''x''], applied = Some [(1, ''a'')]\<rparr>)" by code_simp
  ultimately have start: "database_main True (\<lambda>i. i = 1) (\<lambda>_. False) (sort_key version) no_faults good_fs (list_pg good_migs) all_ok fresh_db =
      Some (Pipelines \<lparr>schema = [''x''], applied = Some [(1, ''a'')]\<rparr>)"
    by (simp add: database_main_def)
  have "wf_rows fresh_db" "load (sort_key version) no_faults good_fs = Inr good_migs"
      "filter (\<lambda>m. current_version (ensure_table fresh_db) < version m) good_migs = good_migs"
    by code_simp+
  then show ?thesis
    using writer_starts_migrated [OF sorts_sort_key _ _ good_contract _ start] start by auto
qed

section \<open>The API\<close>

text \<open>\<^verbatim>\<open>connectDatabase\<close>: the durable store, if there is a usable one.\<close>

definition connectDatabase :: "string \<Rightarrow> bool \<Rightarrow> bool \<Rightarrow> bool" where
  "connectDatabase dsn new_ok ping_ok = (if dsn = [] then False else if \<not> new_ok then False else if \<not> ping_ok then False else True)"

definition contains :: "string list \<Rightarrow> string \<Rightarrow> bool" where
  "contains ss target = list_ex (\<lambda>s. s = target) ss"

record cors_config =
  AllowMethods :: "string list"
  AllowHeaders :: "string list"
  AllowAllOrigins :: bool
  AllowOrigins :: "string list"

definition corsMiddleware :: "string list \<Rightarrow> cors_config" where
  "corsMiddleware origins =
     (let cfg = \<lparr>AllowMethods = [''GET'', ''OPTIONS''], AllowHeaders = [''Origin'', ''Content-Type'', ''Accept''],
                AllowAllOrigins = False, AllowOrigins = []\<rparr>
      in if length origins = 0 \<or> contains origins ''*'' then cfg\<lparr>AllowAllOrigins := True\<rparr>
         else cfg\<lparr>AllowOrigins := origins\<rparr>)"

text \<open>The handlers behind the registered routes, and the checks of the readiness route.\<close>

datatype handler = Metrics | Live | ReadyCheck | ListFlightsHandler | GetFlightHandler | GetRecordHandler

definition live_routes :: "(string \<times> handler) list" where
  "live_routes = [(''/flights'', ListFlightsHandler), (''/flights/:gufi'', GetFlightHandler)]"

definition durable_routes :: "(string \<times> handler) list" where
  "durable_routes = map (\<lambda>(p, h). (''/durable'' @ p, h)) [(''/flights/:gufi'', GetRecordHandler)]"

definition api_routes :: "bool \<Rightarrow> (string \<times> handler) list" where
  "api_routes durable =
     [(''/metrics'', Metrics), (''/healthz'', Live), (''/readyz'', ReadyCheck)] @ live_routes @
     (if durable then durable_routes else [])"

definition api_checks :: "'w check \<Rightarrow> 'w check \<Rightarrow> bool \<Rightarrow> 'w check list" where
  "api_checks live_ping durable_ping durable = [live_ping] @ (if durable then [durable_ping] else [])"

record 'w api_engine =
  routes :: "(string \<times> handler) list"
  readiness :: "'w check list"
  cors :: cors_config

definition Setup :: "'w check \<Rightarrow> 'w check \<Rightarrow> bool \<Rightarrow> string list \<Rightarrow> 'w api_engine" where
  "Setup live_ping durable_ping durable origins =
     \<lparr>routes = api_routes durable, readiness = api_checks live_ping durable_ping durable, cors = corsMiddleware origins\<rparr>"

text \<open>\<^verbatim>\<open>main\<close>: no engine when Redis does not answer; \<open>w\<close> is what the stores answer at the start.\<close>

definition api_main :: "api_Config \<Rightarrow> 'w check \<Rightarrow> 'w check \<Rightarrow> bool \<Rightarrow> 'w \<Rightarrow> 'w api_engine option" where
  "api_main cfg live_ping durable_ping new_ok w =
     (if live_ping w \<noteq> None then None
      else Some (Setup live_ping durable_ping
        (connectDatabase (ac_DatabaseURL cfg) new_ok (durable_ping w = None)) (ac_CORSOrigins cfg)))"

lemma api_ready:
  assumes "api_main cfg live_ping durable_ping new_ok w = Some e"
  shows "fst (ops_Ready (readiness e) w') = 200 \<longleftrightarrow>
    live_ping w' = None \<and> (GetRecordHandler \<in> snd ` set (routes e) \<longrightarrow> durable_ping w' = None)"
    and "GetRecordHandler \<in> snd ` set (routes e) \<longleftrightarrow> ac_DatabaseURL cfg \<noteq> [] \<and> new_ok \<and> durable_ping w = None"
    and "AllowAllOrigins (cors e) \<longleftrightarrow> ac_CORSOrigins cfg = [] \<or> ''*'' \<in> set (ac_CORSOrigins cfg)"
proof -
  have e: "e = Setup live_ping durable_ping (connectDatabase (ac_DatabaseURL cfg) new_ok (durable_ping w = None)) (ac_CORSOrigins cfg)"
    using assms by (simp add: api_main_def split: if_splits)
  have served: "GetRecordHandler \<in> snd ` set (api_routes b) \<longleftrightarrow> b" for b by (cases b) (simp_all add: api_routes_def live_routes_def durable_routes_def)
  show "fst (ops_Ready (readiness e) w') = 200 \<longleftrightarrow>
    live_ping w' = None \<and> (GetRecordHandler \<in> snd ` set (routes e) \<longrightarrow> durable_ping w' = None)"
    unfolding ops_Ready_ok by (simp add: e Setup_def api_checks_def served del: image_iff)
  show "GetRecordHandler \<in> snd ` set (routes e) \<longleftrightarrow> ac_DatabaseURL cfg \<noteq> [] \<and> new_ok \<and> durable_ping w = None"
    by (simp add: e Setup_def served connectDatabase_def)
  show "AllowAllOrigins (cors e) \<longleftrightarrow> ac_CORSOrigins cfg = [] \<or> ''*'' \<in> set (ac_CORSOrigins cfg)"
    by (simp add: e Setup_def corsMiddleware_def contains_def list_ex_iff Let_def)
qed

text \<open>
  The API started from the environment comes up exactly when Redis answers; it serves the durable records exactly
  when Postgres could be reached at the start (the address is never empty), and from then on it is
  ready exactly when Redis answers and, if it serves durable records, Postgres does; and only an
  empty list or a star in \<^verbatim>\<open>CORS_ORIGINS\<close> opens it to all origins.
\<close>

theorem api_ready_means_stores:
  fixes fr :: frac and env :: getenv
  defines "cfg \<equiv> api_Load fr env"
  shows "case api_main cfg live_ping durable_ping new_ok w of
      None \<Rightarrow> live_ping w \<noteq> None
    | Some e \<Rightarrow> live_ping w = None \<and>
        (GetRecordHandler \<in> snd ` set (routes e)) = (new_ok \<and> durable_ping w = None) \<and>
        (fst (ops_Ready (readiness e) w') = 200) =
          (live_ping w' = None \<and> (if new_ok \<and> durable_ping w = None then durable_ping w' = None else True)) \<and>
        AllowAllOrigins (cors e) = (splitCSV (envOr env ''CORS_ORIGINS'' ''*'') = [] \<or>
          ''*'' \<in> set (splitCSV (envOr env ''CORS_ORIGINS'' ''*'')))"
proof -
  have "ac_DatabaseURL cfg \<noteq> []" by (simp add: cfg_def api_Load_def envOr_def default_database_def)
  moreover have "ac_CORSOrigins cfg = splitCSV (envOr env ''CORS_ORIGINS'' ''*'')" by (simp add: cfg_def api_Load_def)
  moreover have "live_ping w = None \<longleftrightarrow> api_main cfg live_ping durable_ping new_ok w \<noteq> None" by (simp add: api_main_def)
  ultimately show ?thesis
    using api_ready [of cfg live_ping durable_ping new_ok w] by (auto split: option.split)
qed

end
