(* ===== verification/Spec2Isabelle.thy ===== *)
theory Spec2Isabelle
  imports Ladd_Properties Ladd_Upload Db_Migrate Config Api_Live Api_Durable Census_Loop Lifecycle Shape_Xml Shape_Json Service_Start
begin

text \<open>
  A verification development for nas-pipeline, a set of Go services that turn the FAA's SWIM feed of
  flight messages into a live map and a stored record, and keep flights on the LADD block list out of
  both.

  \<^bold>\<open>The program.\<close> A bridge (Java) copies XML envelopes to the Kafka topic \<^verbatim>\<open>fixm.raw\<close>. The normalizer
  parses an envelope and writes one JSON message per flight to \<^verbatim>\<open>fixm.normalized\<close>. The filter forwards
  to \<^verbatim>\<open>fixm.filtered\<close> what is not on the current LADD list; it promotes, loads and reloads lists from
  directories that ladd-admin (an upload server and its command line) fills through a Kubernetes
  secret. The database writer stores filtered messages in PostgreSQL and the cache writer keeps the
  last report of every active flight in Redis; the API serves both. Three tools read the topics to
  learn the shape of the feeds, and one asks what becomes of dropped flights. Every service that cannot parse a
  message sends it to a dead-letter topic.

  \<^bold>\<open>The theories,\<close> in the order in which they build on each other.

  \<^item> The language and its library: \<^verbatim>\<open>Go_Prelude\<close> (collections of hints, lemmas on lists), \<^verbatim>\<open>Go_Strings\<close>
    (package strings on byte lists), \<^verbatim>\<open>Go_Time\<close>, \<^verbatim>\<open>Go_Duration\<close>, \<^verbatim>\<open>Go_Strconv\<close>, \<^verbatim>\<open>Go_Base64\<close>, \<^verbatim>\<open>Go_Float\<close>
    (floating point as a parameter, and the contract of a scan for the latest position), \<^verbatim>\<open>Go_Json\<close>
    (encoding/json: parser with fuel, decoding into struct types, the agreement of two structs that
    read one document), \<^verbatim>\<open>Go_Marshal\<close> (printing, and that the parser reads it back), \<^verbatim>\<open>Os_Files\<close>
    (directories with files and a fault oracle for every system call), \<^verbatim>\<open>Kafka_Msg\<close> (messages, dead
    letters of platform/kafkax/dlq.go, the contracts of batching and of concurrent workers).
  \<^item> LADD lists (filter/internal/ladd): \<^verbatim>\<open>Ladd_Set\<close> (ladd.go), \<^verbatim>\<open>Ladd_Loader\<close> (loader.go),
    \<^verbatim>\<open>Ladd_Promote\<close> (promote.go), \<^verbatim>\<open>Ladd_Store\<close> (store.go and the list part of cmd/filter/main.go),
    \<^verbatim>\<open>Ladd_Properties\<close>. A disk is a map from directory names to entries; a list is a set of
    normalised identifiers with its date.
  \<^item> The filter: \<^verbatim>\<open>Filter_Flight\<close> (flight.go), \<^verbatim>\<open>Filter_Pipeline\<close> (pipeline/filter.go as the step relation
    \<open>run_step\<close>: one step reloads the list or runs one iteration of the loop, whose messages are
    handled in any order).
  \<^item> The database writer: \<^verbatim>\<open>Db_Flight\<close> (flight.go), \<^verbatim>\<open>Db_Store\<close> (store/postgres.go: the statements as
    functions on tables, \<open>RecordBatch\<close> as their transaction), \<^verbatim>\<open>Db_Properties\<close>, \<^verbatim>\<open>Db_Pipeline\<close>
    (pipeline.go), \<^verbatim>\<open>Db_Migrate\<close> (migrate.go).
  \<^item> The cache writer: \<^verbatim>\<open>Cache_Flight\<close>, \<^verbatim>\<open>Cache_Writer\<close> (redis.go, pipeline.go, over hashes with expiry).
  \<^item> The normalizer: \<^verbatim>\<open>Fixm\<close> (models.go as types with XML and JSON tags, parser.go, encoder.go),
    \<^verbatim>\<open>Normalizer\<close> (pipeline/normalizer.go), \<^verbatim>\<open>Normalizer_Readers\<close> (what the consumers read back).
  \<^item> ladd-admin: \<^verbatim>\<open>Ladd_Admin\<close> (validate.go, api.go, ksecret.go, the handler of cmd/server/main.go),
    \<^verbatim>\<open>Ladd_Upload\<close> (sign.go, cmd/ladd-upload/main.go).
  \<^item> The API: \<^verbatim>\<open>Api_Live\<close> and \<^verbatim>\<open>Api_Durable\<close> (store.go and handler.go of api/internal/live and durable).
  \<^item> Configuration and start-up: \<^verbatim>\<open>Config\<close> (config.go of every service), \<^verbatim>\<open>Service_Start\<close> (readiness, the
    start of the database writer and of the API with its routes).
  \<^item> The tools: \<^verbatim>\<open>Census_Field\<close>, \<^verbatim>\<open>Census\<close>, \<^verbatim>\<open>Census_Loop\<close> (tools/internal/accumulator and pipeline),
    \<^verbatim>\<open>Shape_Xml\<close> (normalizer/cmd/dev_census), \<^verbatim>\<open>Shape_Json\<close> (filter/cmd/dev_census), \<^verbatim>\<open>Lifecycle\<close>
    (filter/cmd/dev_lifecycle).

  A definition has the name of the function or type it models, with a prefix such as \<open>db_\<close>, \<open>cw_\<close>,
  \<open>n_\<close>, \<open>srv_\<close> or \<open>lc_\<close> where services share a name; an error return is the left of a sum or an
  option, a Go map a partial function or, where its order or length matters, an association list.

  \<^bold>\<open>What is proved.\<close>

  \<^item> Screening, the purpose of the program: in enforcing mode every publish is of a message whose call
    sign and registration are not on the list consulted, a list that passed the readiness gate or is
    newer (\<^verbatim>\<open>Filter_Pipeline\<close>); so is what the database writer stores and the API lists (this theory),
    because all structs that decode a message agree on its identity; and only an explicit setting
    turns screening off (\<^verbatim>\<open>Config\<close>).
  \<^item> Lists: what a loaded list blocks, that the newest date wins, that a promotion under any faults
    loses no content, that an unready list stops the loop; who can change the served list, and that an
    accepted list is one the filter loads.
  \<^item> Delivery: for each pipeline, an offset is committed only after its batch was published, stored
    or dead-lettered; counters are functions of the writes. Each batch loop forgets a failed batch
    once a later one commits, shown by a run of the filter.
  \<^item> Storage: referential integrity and atomicity of a batch under connection faults; the
    merge of a row refines an abstract status history and keeps the first known identity; migrations
    run in order, each whole or not at all, and the writer starts only after them.
  \<^item> Reading: the cache refines the live view and the API serves exactly it; a recorded batch is served as its
    merged row and its track; what the normalizer writes reads back in every consumer.
  \<^item> Tools: the census is exact and a snapshot is replaced whole or not at all; both shape
    trees are exact, whatever the iteration order of Go maps; the lifecycle counts mean what they say.

  \<^bold>\<open>Bounds and fuel.\<close> The JSON parser has fuel \<open>2 * length s + 1\<close>: every second call consumes a byte, and
  more fuel never changes the result (\<open>jvalue_fuel\<close>). Loops that read from a broker are step relations
  or recursions over what the broker returns. The search for a free file name is bounded by the number of entries of the
  directory, and proved to end there. Waiting for a store is a partial function whose termination is
  characterised. Counters are natural numbers or integers where the code has 64 bits, except the
  32-bit columns of the database, whose overflow is a statement error; configured integers and
  durations are proved to fit 64 bits.

  \<^bold>\<open>Parameters.\<close> Upper-casing outside ASCII; floating-point operations and \<^verbatim>\<open>ParseFloat\<close>; the broker
  (what a fetch returns, whether a write or commit succeeds); the clock; connection faults and the
  effect of a migration script, with the contract of one transaction; the tokenizer of
  encoding/xml; Ed25519 and age, with the laws that a signature verifies and a decryption inverts; the
  JSON text of a census snapshot; the iteration order of Go maps. Each law is a named hypothesis with a
  concrete instance.

  \<^bold>\<open>Not modelled.\<close> The bridge and the web client (other languages, library calls); the configuration of the
  kafka-go, pgx, Redis, Kubernetes and Prometheus clients, the gin router and net/http servers, logging; the text of
  printed reports; the age calls of crypto.go; YAML, Docker and scripts.
\<close>

section \<open>Properties that span services\<close>

text \<open>
  C3: what is stored was screened: when the filter, in enforcing mode, publishes a message, and the
  database writer reads a flight from the published bytes, the call sign and registration it stores
  were not on the block list the message was screened against. The two services decode the same
  bytes with different structs; they agree on the identity for every document, also for one with
  repeated or differently cased keys.
\<close>

theorem stored_flights_were_screened:
  assumes "reachable u d f fetch (initial (snd (startup u env d age False fs)) t c) r"
    and "Publish snap m key data ok \<in> set (log (acc_of r))" and "db_Parse F data = Inr fl"
  shows "\<not> Blocks u (snap_set snap) (fl_CallSign fl) (fl_Registration fl) \<and> key = fl_Gufi fl"
  using screened_publish [OF assms(1,2)] db_Parse_agrees [OF assms(3)] by force

theorem stored_flights_were_screened_witness:
  "\<exists>fl. db_Parse int_floats ''{}'' = Inr fl \<and>
     \<not> Blocks id (snap_set demo_snap) (fl_CallSign fl) (fl_Registration fl) \<and> [] = fl_Gufi fl"
proof -
  obtain r :: "kmsg list run" where r: "reachable id demo_dirs (New 1) demo_fetch demo_init r"
    "Publish demo_snap (demo_msg 8) [] ''{}'' True \<in> set (log (acc_of r))"
    using demo_run by fastforce
  have "\<not> isl (db_Parse int_floats ''{}'')"
    by code_simp
  then obtain fl where fl: "db_Parse int_floats ''{}'' = Inr fl"
    by (cases "db_Parse int_floats ''{}''") auto
  show ?thesis
    using stored_flights_were_screened [OF r(1) [unfolded demo_store_def] r(2) fl] fl by blast
qed

text \<open>
  What is shown live was screened: when the filter, in enforcing mode, publishes a message and
  the cache writer processes the published bytes, every change of the cache is a change of the key
  of a flight whose call sign and registration were not on the block list the message was screened
  against, and whose GUFI is the key the filter published under.
\<close>

theorem cached_flights_were_screened:
  assumes "reachable u d f fetch (initial (snd (startup u env d age False fs)) t c) r"
    and "Publish snap m key data ok \<in> set (log (acc_of r))" and "Value msg = data"
    and "cw_redis (cw_process F st cenv msg s) k \<noteq> cw_redis s k"
  shows "\<exists>fl. cw_Parse F data = Inr fl \<and> k = keyPrefix st @ key \<and> key = cw_Gufi fl \<and>
     \<not> Blocks u (snap_set snap) (cw_CallSign fl) (cw_Registration fl)"
proof (cases "cw_Parse F data")
  case (Inl err)
  then show ?thesis using assms(3,4) by (simp add: cw_process_redis)
next
  case (Inr fl)
  have "k = keyPrefix st @ cw_Gufi fl"
    using assms(3,4) Inr upsert_frame [of k st fl "cw_now cenv" "cw_redis_res cenv" "cw_redis s"]
    by (auto simp: cw_process_redis DeleteFlight_def Del_def split: if_splits)
  then show ?thesis
    using screened_publish [OF assms(1,2)] cw_Parse_agrees [OF Inr] Inr by force
qed

theorem cached_flights_were_screened_witness:
  "\<exists>fl. cw_Parse int_floats ''{}'' = Inr fl \<and>
     \<not> Blocks id (snap_set demo_snap) (cw_CallSign fl) (cw_Registration fl)"
proof -
  let ?s = "cw_zero [''flight:'' \<mapsto> \<lparr>rfields = Map.empty, expires = None\<rparr>]"
  obtain r :: "kmsg list run" where r: "reachable id demo_dirs (New 1) demo_fetch demo_init r"
    "Publish demo_snap (demo_msg 8) [] ''{}'' True \<in> set (log (acc_of r))"
    using demo_run by fastforce
  have "cw_redis (cw_process int_floats cw_demo_store (cw_demo_env RAcked) (cw_demo_msg 1) ?s) ''flight:'' = None"
    by code_simp
  then have ch: "cw_redis (cw_process int_floats cw_demo_store (cw_demo_env RAcked) (cw_demo_msg 1) ?s) ''flight:''
      \<noteq> cw_redis ?s ''flight:''"
    by (simp add: cw_zero_def)
  have "Value (cw_demo_msg 1) = ''{}''"
    by (simp add: cw_demo_msg_def)
  from cached_flights_were_screened [OF r(1) [unfolded demo_store_def] r(2) this ch] show ?thesis by blast
qed

text \<open>
  C2: what is served was screened: when the cache writer has processed only messages the filter
  published, in enforcing mode, then every flight in the list the API answers with carries the call
  sign and registration of a published message, which were not on the block list that message was
  screened against, under the GUFI the filter published it with.
\<close>

theorem served_flights_were_screened:
  assumes "reachable u d f fetch (initial (snd (startup u env d age False fs)) t c) r"
    and "\<forall>(e, m) \<in> set ems. \<exists>snap m0 key ok. Publish snap m0 key (Value m) ok \<in> set (log (acc_of r))"
    and "ListFlights L renv (cw_redis (fold (\<lambda>(e, m). cw_process (floats L) st e m) ems (cw_zero Map.empty))) = Inr fls"
    and "v \<in> set fls"
  shows "\<exists>snap m0 key data ok. Publish snap m0 key data ok \<in> set (log (acc_of r)) \<and> key = lf_Gufi v \<and>
     \<not> Blocks u (snap_set snap) (lf_CallSign v) (lf_Registration v)"
proof -
  let ?d = "cw_redis (fold (\<lambda>(e, m). cw_process (floats L) st e m) ems (cw_zero Map.empty))"
  obtain k h where h: "lookup_key (read_at renv) ?d k = Some h"
      "v = flightFromHash L (\<lambda>n. map_option (rtext L) (rfields h n))"
    using assms(4) ListFlights_Inr [OF assms(3)] by blast
  have "reported (floats L) st [] (cw_redis (cw_zero Map.empty))" by (simp add: reported_def cw_zero_def)
  then have "reported (floats L) st (map snd ems) ?d" using reported_fold [of "floats L" st "[]"] by simp
  then obtain m fl where m: "m \<in> set (map snd ems)" "cw_Parse (floats L) (Value m) = Inr fl" "shows_flight (Some h) (Some fl)"
    using lookup_key_Some [OF h(1)] unfolding reported_def by blast
  obtain snap m0 key ok where p: "Publish snap m0 key (Value m) ok \<in> set (log (acc_of r))"
    using m(1) assms(2) by fastforce
  have "lf_CallSign v = cw_CallSign fl" "lf_Registration v = cw_Registration fl" "lf_Gufi v = cw_Gufi fl"
    using fields_stored [OF m(3)] by (simp_all add: h(2) flightFromHash_def mget_stored)
  then show ?thesis
    using p screened_publish [OF assms(1) p] cw_Parse_agrees [OF m(2)] by force
qed

lemma live_published:
  "\<exists>r. reachable id demo_dirs (New 1) demo_fetch (initial demo_store demo_now [live_kmsg]) r \<and>
     Publish demo_snap live_kmsg ''g'' (Value live_kmsg) True \<in> set (log (acc_of r))"
proof -
  let ?i = "initial demo_store demo_now [live_kmsg]"
  let ?a = "process id demo_store (demo_env True) live_kmsg (zeroAcc\<lparr>failed := False\<rparr>)"
  let ?r = "?i\<lparr>consumer := [], acc_of := commit True [live_kmsg] ?a, phase := Top\<rparr>"
  have "gstr (gvalid live_message) [''flight'', ''flightIdentification'', ''aircraftIdentification''] = ''AAL1''"
    "gstr (gvalid live_message) [''flight'', ''aircraftDescription'', ''registration''] = []"
    "gstr (gvalid live_message) [''flight'', ''gufi'', ''code''] = ''g''"
    by code_simp+
  then have "Parse (Value live_kmsg) =
      Inr \<lparr>Raw = Value live_kmsg, ident = \<lparr>CallSign = ''AAL1'', Registration = []\<rparr>, Gufi = ''g''\<rparr>"
    using Parse_message [of live_message] by (simp add: live_kmsg_def)
  moreover have "\<not> store_Blocks id demo_store ''AAL1'' []" unfolding demo_store by code_simp
  ultimately have o: "outcome id demo_store (demo_env True) live_kmsg = Publish demo_snap live_kmsg ''g'' (Value live_kmsg) True"
    by (simp add: outcome_def demo_env_def) (simp add: demo_store)
  have "\<not> failed ?a" by (simp add: process_failed o)
  then have "reachable id demo_dirs (New 1) demo_fetch ?i ?r"
    using run_one_message [of ?i "New 1" demo_fetch live_kmsg "[]" ?a id "demo_env True" _ True]
    by (simp add: initial_def demo_ready demo_read)
  moreover have "Publish demo_snap live_kmsg ''g'' (Value live_kmsg) True \<in> set (log (acc_of ?r))"
    by (simp add: commit_def emit_def process_log o)
  ultimately show ?thesis by blast
qed

theorem served_flights_were_screened_witness:
  "\<exists>v (snap :: snapshot). ListFlights int_libs (demo_replies [''flight:g'']) live_redis = Inr [v] \<and>
     \<not> Blocks id (snap_set snap) (lf_CallSign v) (lf_Registration v)"
proof -
  obtain v where l: "ListFlights int_libs (demo_replies [''flight:g'']) live_redis = Inr [v]"
    using live_list by blast
  obtain r :: "kmsg list run" where r: "reachable id demo_dirs (New 1) demo_fetch (initial demo_store demo_now [live_kmsg]) r"
    "Publish demo_snap live_kmsg ''g'' (Value live_kmsg) True \<in> set (log (acc_of r))"
    using live_published by blast
  have "\<forall>(e, m) \<in> set [(cw_demo_env RAcked, live_kmsg)].
      \<exists>snap m0 key ok. Publish snap m0 key (Value m) ok \<in> set (log (acc_of r))"
    using r(2) by auto
  from served_flights_were_screened [OF r(1) [unfolded demo_store_def] this l, of v]
  obtain snap :: snapshot where "\<not> Blocks id (snap_set snap) (lf_CallSign v) (lf_Registration v)" by auto
  then show ?thesis using l by (intro exI conjI)
qed

end
